(* ===== verification/Prelude.thy ===== *)
theory Prelude
  imports Complex_Main "HOL-Library.AList" "HOL-Library.Multiset" "HOL-Library.Sublist"
    "HOL-Library.List_Lexorder" "HOL-Library.Char_ord"
    "HOL-Library.Product_Lexorder" "HOL-Library.Option_ord" "HOL-Library.Code_Target_Nat"
begin

text \<open>
  What the component theories share: Python exceptions as values of a sum type, dictionaries as
  association lists in insertion order, the stable sort, rounding and the number formatting
  (\<open>:.nf\<close>, \<open>:g\<close>, \<open>:0nd\<close>) the generators use, and the generic lemmas on them.

  Floats are exact rationals (\<open>rat\<close>) and Python integers are \<open>int\<close>: the rounding of binary
  floating point is not modelled, \<open>round\<close> and the format codes are.
\<close>

named_theorems py_defs \<open>definitions of the small Python helpers, for evaluation\<close>

section \<open>Exceptions as values\<close>

datatype pyexn = AssertionError | FileNotFoundError | IndexError | KeyError | StopIteration | SystemExit | TypeError | ValueError
  | ZeroDivisionError

type_synonym 'a res = "pyexn + 'a"

definition rbind :: "'a res \<Rightarrow> ('a \<Rightarrow> 'b res) \<Rightarrow> 'b res" where
  "rbind m f = (case m of Inl e \<Rightarrow> Inl e | Inr x \<Rightarrow> f x)"

definition rcheck :: "bool \<Rightarrow> unit res" where
  "rcheck b = (if b then Inr () else Inl AssertionError)"

fun rfold :: "('a \<Rightarrow> 's \<Rightarrow> 's res) \<Rightarrow> 'a list \<Rightarrow> 's \<Rightarrow> 's res" where
  "rfold f [] s = Inr s"
| "rfold f (x # xs) s = rbind (f x s) (rfold f xs)"

fun rmap :: "('a \<Rightarrow> 'b res) \<Rightarrow> 'a list \<Rightarrow> 'b list res" where
  "rmap f [] = Inr []"
| "rmap f (x # xs) = rbind (f x) (\<lambda>y. rbind (rmap f xs) (\<lambda>ys. Inr (y # ys)))"

text \<open>\<open>xs[i]\<close> for an index that is not negative.\<close>

definition rnth :: "'a list \<Rightarrow> nat \<Rightarrow> 'a res" where
  "rnth xs i = (if i < length xs then Inr (xs ! i) else Inl IndexError)"

lemma rbind_simps [simp]:
  "rbind (Inr x) f = f x"
  "rbind (Inl e) f = Inl e"
  by (simp_all add: rbind_def)

lemma rbind_eq_Inr [simp]: "rbind m f = Inr y \<longleftrightarrow> (\<exists>x. m = Inr x \<and> f x = Inr y)"
  by (cases m) (auto simp: rbind_def)

lemma rbind_eq_Inl: "rbind m f = Inl e \<longleftrightarrow> m = Inl e \<or> (\<exists>x. m = Inr x \<and> f x = Inl e)"
  by (cases m) (auto simp: rbind_def)

lemma rcheck_simps [simp]:
  "rcheck b = Inr u \<longleftrightarrow> b"
  "rcheck b = Inl e \<longleftrightarrow> \<not> b \<and> e = AssertionError"
  by (auto simp: rcheck_def)

text \<open>What every pass of a loop keeps, the loop keeps, as far as it runs.\<close>

lemma rfold_invariant:
  assumes "rfold f xs s = Inr s'" and "P s"
    and "\<And>x a b. x \<in> set xs \<Longrightarrow> P a \<Longrightarrow> f x a = Inr b \<Longrightarrow> P b"
  shows "P s'"
  using assms by (induction xs arbitrary: s) auto

lemma rfold_append: "rfold f (xs @ ys) s = rbind (rfold f xs s) (rfold f ys)"
  by (induction xs arbitrary: s) (auto simp: rbind_def split: sum.splits)

section \<open>Sorted lists\<close>

lemma sorted_key_last: "sorted (map f xs) \<Longrightarrow> x \<in> set xs \<Longrightarrow> f x \<le> f (last xs)"
  by (induction xs rule: rev_induct) (auto simp: sorted_append)

lemma sort_key_sorted [simp]: "sorted (map f xs) \<Longrightarrow> sort_key f xs = xs"
  by (induction xs) (auto simp: insort_is_Cons)

section \<open>Dictionaries\<close>

text \<open>
  A Python dictionary keeps its keys in insertion order, an assignment to a key that is there
  stays at its place and a new key goes to the end: \<open>AList.update\<close> on a list of pairs.
\<close>

type_synonym ('k, 'v) dict = "('k \<times> 'v) list"

abbreviation dget :: "('k, 'v) dict \<Rightarrow> 'k \<Rightarrow> 'v option" where
  "dget d k \<equiv> map_of d k"

abbreviation dset :: "'k \<Rightarrow> 'v \<Rightarrow> ('k, 'v) dict \<Rightarrow> ('k, 'v) dict" where
  "dset k v d \<equiv> AList.update k v d"

abbreviation ddel :: "'k \<Rightarrow> ('k, 'v) dict \<Rightarrow> ('k, 'v) dict" where
  "ddel k d \<equiv> AList.delete k d"

abbreviation dkeys :: "('k, 'v) dict \<Rightarrow> 'k list" where
  "dkeys d \<equiv> map fst d"

abbreviation dvals :: "('k, 'v) dict \<Rightarrow> 'v list" where
  "dvals d \<equiv> map snd d"

definition dict_ok :: "('k, 'v) dict \<Rightarrow> bool" where
  "dict_ok d \<longleftrightarrow> distinct (dkeys d)"

definition dget_or :: "'v \<Rightarrow> ('k, 'v) dict \<Rightarrow> 'k \<Rightarrow> 'v" where
  "dget_or dflt d k = (case dget d k of None \<Rightarrow> dflt | Some v \<Rightarrow> v)"

lemma dict_ok_simps [simp]:
  "dict_ok []"
  "dict_ok d \<Longrightarrow> dict_ok (dset k v d)"
  "dict_ok d \<Longrightarrow> dict_ok (ddel k d)"
  by (simp_all add: dict_ok_def distinct_update distinct_delete)

lemma dkeys_dset_new: "k \<notin> set (dkeys d) \<Longrightarrow> dset k v d = d @ [(k, v)]"
  by (induction d) auto

lemma dkeys_dset_old: "k \<in> set (dkeys d) \<Longrightarrow> dkeys (dset k v d) = dkeys d"
  by (induction d) auto

lemma set_dkeys_dset [simp]: "set (dkeys (dset k v d)) = insert k (set (dkeys d))"
  by (induction d) auto

lemma set_dkeys_ddel [simp]: "set (dkeys (ddel k d)) = set (dkeys d) - {k}"
  by (induction d) auto

lemma keys_dset [simp]: "fst ` set (dset k v d) = insert k (fst ` set d)"
  using set_dkeys_dset [of k v d] by simp

lemma keys_ddel [simp]: "fst ` set (ddel k d) = fst ` set d - {k}"
  using set_dkeys_ddel [of k d] by simp

lemma dget_None_iff: "dget d k = None \<longleftrightarrow> k \<notin> set (dkeys d)"
  by (simp add: map_of_eq_None_iff)

lemma ddel_absent [simp]: "k \<notin> set (dkeys d) \<Longrightarrow> ddel k d = d"
  by (induction d) auto

text \<open>The keys as a set, with rules of its own, so that the simplifier keeps it in one piece.\<close>

definition keyset :: "('k, 'v) dict \<Rightarrow> 'k set" where
  "keyset d = set (dkeys d)"

lemma keyset_simps [simp]:
  "keyset [] = {}"
  "keyset (p # d) = insert (fst p) (keyset d)"
  "keyset (d @ d') = keyset d \<union> keyset d'"
  "keyset (dset k v d) = insert k (keyset d)"
  "keyset (ddel k d) = keyset d - {k}"
  by (auto simp: keyset_def)

lemma finite_keyset [simp]: "finite (keyset d)"
  by (simp add: keyset_def)

lemma dget_keyset: "dget d k = None \<longleftrightarrow> k \<notin> keyset d"
  by (simp add: keyset_def map_of_eq_None_iff)

lemma dget_keyset_Some: "dget d k = Some v \<Longrightarrow> k \<in> keyset d"
  by (metis dget_keyset option.distinct(1))

lemma keyset_dget: "k \<in> keyset d \<Longrightarrow> \<exists>v. dget d k = Some v"
  using dget_keyset [of d k] by auto

lemma ddel_new [simp]: "k \<notin> keyset d \<Longrightarrow> ddel k d = d"
  by (induction d) auto

text \<open>A dictionary with some of its keys taken out.\<close>

definition without :: "'k set \<Rightarrow> ('k, 'v) dict \<Rightarrow> ('k, 'v) dict" where
  "without S d = filter (\<lambda>p. fst p \<notin> S) d"

lemma keyset_without [simp]: "keyset (without S d) = keyset d - S"
  by (auto simp: keyset_def without_def)

lemma dget_without: "dget (without S d) k = (if k \<in> S then None else dget d k)"
  by (induction d) (auto simp: without_def)

lemma dict_ok_without [simp]: "dict_ok d \<Longrightarrow> dict_ok (without S d)"
  by (induction d) (auto simp: without_def dict_ok_def)

lemma without_empty [simp]: "without {} d = d"
  by (simp add: without_def)

lemma fold_ddel: "fold ddel ks d = without (set ks) d"
  by (induction ks arbitrary: d) (auto simp: without_def AList.delete_eq filter_filter intro!: filter_cong)

text \<open>Taking a key out takes its value out of the values, once.\<close>

lemma mset_dvals_ddel:
  assumes "dict_ok d" and "dget d k = Some v"
  shows "mset (dvals d) = add_mset v (mset (dvals (ddel k d)))"
  using assms
proof (induction d)
  case (Cons p d)
  obtain k' v' where p: "p = (k', v')" by force
  show ?case
  proof (cases "k = k'")
    case True
    with Cons.prems p have "k \<notin> set (dkeys d)" by (simp add: dict_ok_def)
    with True p Cons.prems show ?thesis by simp
  next
    case False
    with Cons p show ?thesis by (simp add: dict_ok_def)
  qed
qed simp

lemma dget_Some_mem: "dget d k = Some v \<Longrightarrow> k \<in> set (dkeys d)"
  by (metis dget_None_iff option.distinct(1))

end
