(* ===== verification/PyNum.thy ===== *)
theory PyNum
  imports Prelude
begin

text \<open>
  Numbers as Python rounds and prints them, on exact rationals: \<open>round(x, k)\<close> (half to even), the
  format codes \<open>:.kf\<close>, \<open>:g\<close> and \<open>:0kd\<close>, \<open>str.rstrip\<close>, and the decimal reader (\<open>float(s)\<close> on a
  plain decimal) that the exporter of \<open>kfu.motion_json\<close> applies to what \<open>kfu.pct\<close> printed.
\<close>

section \<open>Rounding\<close>

definition round_half_even :: "rat \<Rightarrow> int" where
  "round_half_even x =
     (let f = \<lfloor>x\<rfloor>; d = x - of_int f
      in if d < 1 / 2 then f else if 1 / 2 < d then f + 1 else if even f then f else f + 1)"

definition py_round :: "nat \<Rightarrow> rat \<Rightarrow> rat" where
  "py_round k x = of_int (round_half_even (x * 10 ^ k)) / 10 ^ k"

lemma round_half_even_of_int [simp]: "round_half_even (of_int n) = n"
  by (simp add: round_half_even_def)

lemma round_half_even_near: "\<bar>of_int (round_half_even x) - x\<bar> \<le> 1 / 2"
proof -
  have "of_int \<lfloor>x\<rfloor> \<le> x" and "x < of_int \<lfloor>x\<rfloor> + 1" by linarith+
  then show ?thesis by (auto simp: round_half_even_def Let_def abs_le_iff)
qed

lemma round_half_even_mono: "x \<le> y \<Longrightarrow> round_half_even x \<le> round_half_even y"
proof -
  assume le: "x \<le> y"
  then have fl: "\<lfloor>x\<rfloor> \<le> \<lfloor>y\<rfloor>" by (rule floor_mono)
  show ?thesis
  proof (cases "\<lfloor>x\<rfloor> = \<lfloor>y\<rfloor>")
    case True
    with le show ?thesis by (auto simp: round_half_even_def Let_def)
  next
    case False
    with fl have "\<lfloor>x\<rfloor> + 1 \<le> \<lfloor>y\<rfloor>" by simp
    then show ?thesis by (auto simp: round_half_even_def Let_def)
  qed
qed

lemma round_half_even_nonneg: "0 \<le> x \<Longrightarrow> 0 \<le> round_half_even x"
  using round_half_even_mono [of 0 x] round_half_even_of_int [of 0] by simp

lemma py_round_mono: "x \<le> y \<Longrightarrow> py_round k x \<le> py_round k y"
  unfolding py_round_def
  by (intro divide_right_mono of_int_le_iff [THEN iffD2] round_half_even_mono mult_right_mono)
    simp_all

lemma py_round_near: "\<bar>py_round k x - x\<bar> \<le> 1 / (2 * 10 ^ k)"
proof -
  let ?p = "10 ^ k :: rat"
  have p: "0 < ?p" by simp
  have "py_round k x - x = (of_int (round_half_even (x * ?p)) - x * ?p) / ?p"
    by (simp add: py_round_def diff_divide_distrib)
  then have "\<bar>py_round k x - x\<bar> = \<bar>of_int (round_half_even (x * ?p)) - x * ?p\<bar> / ?p"
    by (simp add: abs_divide)
  also have "\<dots> \<le> (1 / 2) / ?p"
    using round_half_even_near [of "x * ?p"] p by (intro divide_right_mono) simp_all
  finally show ?thesis by simp
qed

lemma py_round_idem [simp]: "py_round k (py_round k x) = py_round k x"
  by (simp add: py_round_def)

lemma py_round_plus_int: "py_round k (py_round k x + of_int n) = py_round k x + of_int n"
proof -
  let ?m = "round_half_even (x * 10 ^ k)"
  have "(py_round k x + of_int n) * 10 ^ k = of_int (?m + n * 10 ^ k)"
    by (simp add: py_round_def algebra_simps)
  then have "py_round k (py_round k x + of_int n) = of_int (?m + n * 10 ^ k) / 10 ^ k"
    unfolding py_round_def [of k "py_round k x + of_int n"] by (metis round_half_even_of_int)
  also have "\<dots> = py_round k x + of_int n" by (simp add: py_round_def add_divide_distrib)
  finally show ?thesis .
qed

lemma py_round_of_int [simp]: "py_round k (of_int n) = of_int n"
proof -
  have "of_int n * 10 ^ k = (of_int (n * 10 ^ k) :: rat)" by simp
  then have "round_half_even (of_int n * 10 ^ k) = n * 10 ^ k"
    by (metis round_half_even_of_int)
  then show ?thesis by (simp add: py_round_def)
qed

lemma py_round_0 [simp]: "py_round k 0 = 0"
  using py_round_of_int [of k 0] by simp

section \<open>Decimal digits\<close>

definition digit :: "nat \<Rightarrow> char" where
  "digit d = char_of (48 + d)"

definition digit_val :: "char \<Rightarrow> nat" where
  "digit_val c = of_char c - 48"

fun show_nat :: "nat \<Rightarrow> string" where
  "show_nat n = (if n < 10 then [digit n] else show_nat (n div 10) @ [digit (n mod 10)])"

declare show_nat.simps [simp del]

definition read_nat :: "string \<Rightarrow> nat" where
  "read_nat s = foldl (\<lambda>a c. a * 10 + digit_val c) 0 s"

definition zpad :: "nat \<Rightarrow> string \<Rightarrow> string" where
  "zpad k s = replicate (k - length s) (digit 0) @ s"

definition show_int :: "int \<Rightarrow> string" where
  "show_int i = (if i < 0 then ''-'' else []) @ show_nat (nat \<bar>i\<bar>)"

definition rstrip :: "char \<Rightarrow> string \<Rightarrow> string" where
  "rstrip c s = rev (dropWhile (\<lambda>x. x = c) (rev s))"

lemma digit_val_digit [simp]: "d < 10 \<Longrightarrow> digit_val (digit d) = d"
  by (simp add: digit_val_def digit_def)

lemma digit_neq_dot [simp]: "d < 10 \<Longrightarrow> digit d \<noteq> CHR ''.''" "d < 10 \<Longrightarrow> digit d \<noteq> CHR '':''"
    "d < 10 \<Longrightarrow> digit d \<noteq> CHR ''-''"
proof -
  assume d: "d < 10"
  then have "(of_char (digit d) :: nat) = 48 + d" by (simp add: digit_def)
  with d show "digit d \<noteq> CHR ''.''" "digit d \<noteq> CHR '':''" "digit d \<noteq> CHR ''-''" by auto
qed

lemma show_nat_digits: "set (show_nat n) \<subseteq> digit ` {..<10}"
  by (induction n rule: show_nat.induct) (subst show_nat.simps, auto)

lemma show_nat_neq_Nil [simp]: "show_nat n \<noteq> []"
  by (subst show_nat.simps) simp

lemma read_nat_Nil [simp]: "read_nat [] = 0"
  by (simp add: read_nat_def)

lemma read_nat_snoc [simp]: "read_nat (s @ [c]) = read_nat s * 10 + digit_val c"
  by (simp add: read_nat_def)

lemma read_nat_append: "read_nat (s @ t) = read_nat s * 10 ^ length t + read_nat t"
proof (induction t rule: rev_induct)
  case (snoc c t)
  then show ?case
    using read_nat_snoc [of "s @ t" c] by (simp add: algebra_simps)
qed simp

lemma read_show_nat [simp]: "read_nat (show_nat n) = n"
proof (induction n rule: show_nat.induct)
  case (1 n)
  show ?case
  proof (cases "n < 10")
    case True
    then show ?thesis by (subst show_nat.simps) (simp add: read_nat_def)
  next
    case False
    with "1.IH" have "read_nat (show_nat (n div 10)) = n div 10" by simp
    with False show ?thesis by (subst show_nat.simps) simp
  qed
qed

lemma length_show_nat_le: "n < 10 ^ k \<Longrightarrow> 0 < k \<Longrightarrow> length (show_nat n) \<le> k"
proof (induction n arbitrary: k rule: show_nat.induct)
  case (1 n)
  show ?case
  proof (cases "n < 10")
    case True
    with 1 show ?thesis by (subst show_nat.simps) simp
  next
    case False
    with "1.prems" obtain j where k: "k = Suc j" and j: "0 < j"
      by (cases k; cases "k - 1") auto
    with "1.prems" have "n div 10 < 10 ^ j" by auto
    with "1.IH" [OF False _ j] k False show ?thesis by (subst show_nat.simps) simp
  qed
qed

lemma length_show_nat_gt: "10 ^ k \<le> n \<Longrightarrow> k < length (show_nat n)"
proof (induction n arbitrary: k rule: show_nat.induct)
  case (1 n)
  show ?case
  proof (cases k)
    case (Suc j)
    have "(10 :: nat) \<le> 10 ^ k" using Suc by simp
    with "1.prems" have n: "\<not> n < 10" by (metis leD order_trans)
    from Suc "1.prems" have "10 ^ j \<le> n div 10"
      by (simp add: less_eq_div_iff_mult_less_eq mult.commute)
    with "1.IH" n have "j < length (show_nat (n div 10))" by blast
    with n Suc show ?thesis by (subst show_nat.simps) simp
  qed simp
qed

lemma read_nat_zeros [simp]: "read_nat (replicate k (digit 0)) = 0"
proof (induction k)
  case (Suc k)
  have "replicate (Suc k) (digit 0) = replicate k (digit 0) @ [digit 0]"
    by (simp add: replicate_append_same)
  with Suc show ?case by simp
qed simp

lemma read_nat_zpad [simp]: "read_nat (zpad k s) = read_nat s"
  by (simp add: zpad_def read_nat_append)

lemma length_zpad [simp]: "length (zpad k s) = max k (length s)"
  by (simp add: zpad_def)

lemma zpad_digits: "set s \<subseteq> digit ` {..<10} \<Longrightarrow> set (zpad k s) \<subseteq> digit ` {..<10}"
  by (auto simp: zpad_def)

fun join :: "string \<Rightarrow> string list \<Rightarrow> string" where
  "join sep [] = []"
| "join sep [s] = s"
| "join sep (s # t # ss) = s @ sep @ join sep (t # ss)"

section \<open>Format codes\<close>

text \<open>\<open>f"{x:.kf}"\<close>: the sign, the whole part, and exactly \<open>k\<close> decimals.\<close>

definition fmt_fixed :: "nat \<Rightarrow> rat \<Rightarrow> string" where
  "fmt_fixed k x =
     (let n = nat (round_half_even (\<bar>x\<bar> * 10 ^ k))
      in (if x < 0 then ''-'' else []) @ show_nat (n div 10 ^ k) @
         (if k = 0 then [] else CHR ''.'' # zpad k (show_nat (n mod 10 ^ k))))"

text \<open>\<open>f"{n:0kd}"\<close> for a number that is not negative.\<close>

definition fmt_0d :: "nat \<Rightarrow> nat \<Rightarrow> string" where
  "fmt_0d k n = zpad k (show_nat n)"

text \<open>
  \<open>f"{x:g}"\<close>: six significant digits; plain decimals for exponents from -4 to 5, else one digit
  before the point and an exponent of at least two digits; trailing zeros and a bare point go.
\<close>

definition pow10 :: "int \<Rightarrow> rat" where
  "pow10 i = (if 0 \<le> i then 10 ^ nat i else 1 / 10 ^ nat (- i))"

definition exp10 :: "rat \<Rightarrow> int" where
  "exp10 a =
     (let (n, d) = quotient_of a;
          e = int (length (show_nat (nat n))) - int (length (show_nat (nat d)))
      in if pow10 e \<le> a then e else e - 1)"

definition strip_dec :: "string \<Rightarrow> string" where
  "strip_dec s = (if CHR ''.'' \<in> set s then rstrip (CHR ''.'') (rstrip (CHR ''0'') s) else s)"

definition fmt_g :: "rat \<Rightarrow> string" where
  "fmt_g x =
     (if x = 0 then ''0'' else
      let a = \<bar>x\<bar>; e0 = exp10 a; n0 = round_half_even (a * pow10 (5 - e0));
          e = (if n0 = 10 ^ 6 then e0 + 1 else e0);
          n = (if n0 = 10 ^ 6 then 10 ^ 5 else n0);
          sg = (if x < 0 then ''-'' else [])
      in if -4 \<le> e \<and> e < 6
         then sg @ strip_dec (fmt_fixed (nat (5 - e)) (of_int n * pow10 (e - 5)))
         else sg @ strip_dec (fmt_fixed 5 (of_int n / 10 ^ 5)) @ ''e'' @
              (if e < 0 then ''-'' else ''+'') @ fmt_0d 2 (nat \<bar>e\<bar>))"

text \<open>
  \<open>repr\<close> of a float: the fewest decimals that give the number, at least one. It is exact for the
  decimal literals of up to 16 decimals that the generators write (no exponent is modelled).
\<close>

definition repr_float :: "rat \<Rightarrow> string" where
  "repr_float x =
     (case filter (\<lambda>k. py_round k x = x) [1..<17] of [] \<Rightarrow> fmt_fixed 16 x | k # _ \<Rightarrow> fmt_fixed k x)"

text \<open>\<open>float(s)\<close> on a plain decimal, with or without a point.\<close>

definition read_pos :: "string \<Rightarrow> rat" where
  "read_pos s =
     (let w = takeWhile (\<lambda>c. c \<noteq> CHR ''.'') s; f = drop 1 (dropWhile (\<lambda>c. c \<noteq> CHR ''.'') s)
      in of_nat (read_nat w) + of_nat (read_nat f) / 10 ^ length f)"

definition read_dec :: "string \<Rightarrow> rat" where
  "read_dec s = (case s of [] \<Rightarrow> 0 | c # t \<Rightarrow> if c = CHR ''-'' then - read_pos t else read_pos s)"

lemma rstrip_append: "\<exists>k. s = rstrip c s @ replicate k c"
proof -
  have "rev s = takeWhile (\<lambda>x. x = c) (rev s) @ dropWhile (\<lambda>x. x = c) (rev s)" by simp
  moreover have "takeWhile (\<lambda>x. x = c) (rev s) = replicate (length (takeWhile (\<lambda>x. x = c) (rev s))) c"
    by (rule replicate_eqI [symmetric, THEN sym]) (auto dest: set_takeWhileD)
  ultimately have "s = rstrip c s @ rev (replicate (length (takeWhile (\<lambda>x. x = c) (rev s))) c)"
    by (metis rev_append rev_rev_ident rstrip_def)
  then show ?thesis by auto
qed

lemma digit_0 [simp]: "digit 0 = CHR ''0''"
  by code_simp

lemma digits_no_dot: "set s \<subseteq> digit ` {..<10} \<Longrightarrow> CHR ''.'' \<notin> set s"
proof
  assume "set s \<subseteq> digit ` {..<10}" and "CHR ''.'' \<in> set s"
  then obtain d where "d < 10" "CHR ''.'' = digit d" by blast
  then show False using digit_neq_dot(1) [of d] by simp
qed

lemma read_pos_whole: "CHR ''.'' \<notin> set s \<Longrightarrow> read_pos s = of_nat (read_nat s)"
proof -
  assume "CHR ''.'' \<notin> set s"
  then have "\<forall>c\<in>set s. c \<noteq> CHR ''.''" by metis
  then have "takeWhile (\<lambda>c. c \<noteq> CHR ''.'') s = s" "dropWhile (\<lambda>c. c \<noteq> CHR ''.'') s = []"
    by (simp_all only: takeWhile_eq_all_conv dropWhile_eq_Nil_conv)
  then show ?thesis by (simp only: read_pos_def Let_def drop_Nil list.size read_nat_Nil of_nat_0 div_0 add_0_right)
qed

lemma read_pos_point:
  assumes "CHR ''.'' \<notin> set w"
  shows "read_pos (w @ CHR ''.'' # f) = of_nat (read_nat w) + of_nat (read_nat f) / 10 ^ length f"
proof -
  have "\<And>c. c \<in> set w \<Longrightarrow> c \<noteq> CHR ''.''" using assms by auto
  then have "takeWhile (\<lambda>c. c \<noteq> CHR ''.'') (w @ CHR ''.'' # f) = w"
    "dropWhile (\<lambda>c. c \<noteq> CHR ''.'') (w @ CHR ''.'' # f) = CHR ''.'' # f"
    by (simp_all add: takeWhile_append2 dropWhile_append2)
  then show ?thesis by (simp add: read_pos_def)
qed

lemma rstrip_Nil [simp]: "rstrip c [] = []"
  by (simp add: rstrip_def)

lemma rstrip_snoc [simp]: "rstrip c (s @ [x]) = (if x = c then rstrip c s else s @ [x])"
  by (simp add: rstrip_def)

lemma rstrip_append_Cons:
  "x \<noteq> c \<Longrightarrow> rstrip c (s @ x # t) = s @ x # rstrip c t"
proof (induction t rule: rev_induct)
  case Nil
  then show ?case using rstrip_snoc [of c s x] by simp
next
  case (snoc y t)
  then show ?case
    using rstrip_snoc [of c "s @ x # t" y] by auto
qed

lemma rstrip_absent: "c \<notin> set s \<Longrightarrow> rstrip c s = s"
  by (cases s rule: rev_cases) auto

lemma set_rstrip: "set (rstrip c s) \<subseteq> set s"
  using rstrip_append [of s c] by (metis Un_upper1 set_append)

text \<open>Zeros after the last decimal, and then the bare point, do not change the number read.\<close>

lemma read_pos_strip:
  assumes w: "CHR ''.'' \<notin> set w" and f: "CHR ''.'' \<notin> set f"
  shows "read_pos (rstrip (CHR ''.'') (rstrip (CHR ''0'') (w @ CHR ''.'' # f))) =
    read_pos (w @ CHR ''.'' # f)"
proof -
  let ?g = "rstrip (CHR ''0'') f"
  obtain k where k: "f = ?g @ replicate k (CHR ''0'')" using rstrip_append by blast
  have g: "CHR ''.'' \<notin> set ?g" using f set_rstrip by blast
  have "read_nat f = read_nat ?g * 10 ^ k" and "length f = length ?g + k"
    by (subst k, simp only: read_nat_append read_nat_zeros flip: digit_0, simp, subst k, simp)
  then have val: "(of_nat (read_nat f) / 10 ^ length f :: rat) = of_nat (read_nat ?g) / 10 ^ length ?g"
    by (simp add: power_add)
  have z: "rstrip (CHR ''0'') (w @ CHR ''.'' # f) = w @ CHR ''.'' # ?g"
    by (simp add: rstrip_append_Cons)
  show ?thesis
  proof (cases "?g = []")
    case True
    then have "rstrip (CHR ''.'') (w @ CHR ''.'' # ?g) = w"
      using rstrip_snoc [of "CHR ''.''" w "CHR ''.''"] rstrip_absent [OF w] by simp
    with True z val show ?thesis by (simp add: read_pos_point [OF w] read_pos_whole [OF w])
  next
    case False
    then obtain h c where h: "?g = h @ [c]" by (cases ?g rule: rev_cases) auto
    with g have "c \<noteq> CHR ''.''" by auto
    then have "rstrip (CHR ''.'') (w @ CHR ''.'' # ?g) = w @ CHR ''.'' # ?g"
      using rstrip_snoc [of "CHR ''.''" "w @ CHR ''.'' # h" c] h by simp
    with z val show ?thesis by (simp add: read_pos_point [OF w])
  qed
qed

lemma read_pos_fixed:
  assumes x: "0 \<le> x" shows "read_pos (fmt_fixed k x) = py_round k x"
proof -
  let ?n = "nat (round_half_even (x * 10 ^ k))"
  have nn: "0 \<le> round_half_even (x * 10 ^ k)" using x by (intro round_half_even_nonneg) simp
  have w: "CHR ''.'' \<notin> set (show_nat m)" for m using show_nat_digits digits_no_dot by blast
  have len: "length (zpad k (show_nat (?n mod 10 ^ k))) = k" if "0 < k"
    using length_show_nat_le [OF _ that, of "?n mod 10 ^ k"] by simp
  have "(of_nat ?n :: rat) = of_nat (?n div 10 ^ k * 10 ^ k + ?n mod 10 ^ k)"
    by (simp only: div_mult_mod_eq)
  then have split: "(of_nat ?n :: rat) = of_nat (?n div 10 ^ k) * 10 ^ k + of_nat (?n mod 10 ^ k)"
    by (simp only: of_nat_add of_nat_mult of_nat_power of_nat_numeral)
  have "read_pos (fmt_fixed k x) = of_nat ?n / 10 ^ k"
  proof (cases "k = 0")
    case True
    with x show ?thesis by (simp add: fmt_fixed_def read_pos_whole [OF w])
  next
    case False
    then have "read_pos (fmt_fixed k x) = of_nat (?n div 10 ^ k) + of_nat (?n mod 10 ^ k) / 10 ^ k"
      using x by (simp add: fmt_fixed_def Let_def read_pos_point [OF w] len del: length_zpad)
    with split show ?thesis by (simp add: field_simps)
  qed
  with nn show ?thesis by (simp add: py_round_def)
qed

end
