(* ===== verification/Keyframes.thy ===== *)
theory Keyframes
  imports PyNum
begin

text \<open>
  The keyframe store and the keyframe builders of \<open>assets/diagrams/gen/kfu.py\<close>: \<open>kf\<close>, \<open>padded\<close>,
  \<open>pct\<close>, \<open>css\<close>, \<open>merge\<close>, \<open>flash\<close>, \<open>tr\<close>, \<open>at\<close> (here \<open>at_pt\<close>), \<open>ring\<close>, \<open>bar\<close> and \<open>states\<close>. The module's globals
  are the record \<open>kfu\<close>; a builder takes it and returns it with its rules appended. Every failing
  assertion, missing element and division by zero is an \<open>Inl\<close> branch.
\<close>

section \<open>The module state\<close>

text \<open>A CSS value is an int, a float or a string; a keyframe is a time in seconds with properties.\<close>

datatype cssv = VInt int | VFlt rat | VStr string

type_synonym props = "(string, cssv) dict"
type_synonym point = "rat \<times> props"
type_synonym span = "rat \<times> rat"

record kfu =
  loop_D :: rat
  rules :: "(string \<times> point list) list"
  LEGEND :: string
  elements :: "string list"

definition op :: "cssv \<Rightarrow> props" where
  "op v = [(''opacity'', v)]"

definition op_tr :: "cssv \<Rightarrow> string \<Rightarrow> props" where
  "op_tr v s = [(''opacity'', v), (''transform'', VStr s)]"

definition kf :: "string \<Rightarrow> point list \<Rightarrow> kfu \<Rightarrow> kfu" where
  "kf name pts K = K\<lparr>rules := rules K @ [(name, sort_key fst pts)]\<rparr>"

definition padded :: "rat \<Rightarrow> string \<Rightarrow> point list \<Rightarrow> point list res" where
  "padded D name pts =
     (case pts of [] \<Rightarrow> Inl IndexError
      | p # _ \<Rightarrow>
        let pts1 = (if fst p > 0 then (0, snd p) # pts else pts);
            pts2 = (if fst (last pts1) < D then pts1 @ [(D, snd (last pts1))] else pts1)
        in if fst (last pts2) \<le> D then Inr pts2 else Inl AssertionError)"

section \<open>CSS text\<close>

definition pct :: "rat \<Rightarrow> rat \<Rightarrow> string res" where
  "pct D t =
     (if D = 0 then Inl ZeroDivisionError
      else Inr (rstrip (CHR ''.'') (rstrip (CHR ''0'') (fmt_fixed 2 (t / D * 100))) @ ''%''))"

fun show_cssv :: "cssv \<Rightarrow> string" where
  "show_cssv (VInt i) = show_int i"
| "show_cssv (VFlt x) = repr_float x"
| "show_cssv (VStr s) = s"

definition css_point :: "rat \<Rightarrow> point \<Rightarrow> string res" where
  "css_point D p =
     rbind (pct D (fst p)) (\<lambda>s.
     Inr (s @ '' { '' @ join '' '' (map (\<lambda>(k, v). k @ '': '' @ show_cssv v @ '';'') (snd p)) @ '' }''))"

definition css :: "rat \<Rightarrow> string \<Rightarrow> point list \<Rightarrow> string res" where
  "css D name pts =
     rbind (padded D name pts) (\<lambda>ps.
     rbind (rmap (css_point D) ps) (\<lambda>body.
     Inr (''    @keyframes '' @ name @ '' { '' @ join '' '' body @ '' }'')))"

section \<open>Merging spans, flashes and pulses\<close>

definition merge_step :: "rat \<Rightarrow> span list \<Rightarrow> span \<Rightarrow> span list" where
  "merge_step pad out sp =
     (let (s, e) = sp
      in if out \<noteq> [] \<and> s \<le> snd (last out) + pad
         then butlast out @ [(fst (last out), max (snd (last out)) e)]
         else out @ [(s, e)])"

definition merge :: "rat \<Rightarrow> span list \<Rightarrow> span list" where
  "merge pad spans = foldl (merge_step pad) [] (sort spans)"

definition flash_pts :: "span list \<Rightarrow> cssv \<Rightarrow> rat \<Rightarrow> rat \<Rightarrow> point list" where
  "flash_pts spans peak rise fall =
     (0, op (VInt 0)) #
     concat (map (\<lambda>(s, e). [(s, op (VInt 0)), (s + rise, op peak), (e, op peak), (e + fall, op (VInt 0))])
       (merge (rise + fall) spans))"

definition flash :: "string \<Rightarrow> span list \<Rightarrow> cssv \<Rightarrow> rat \<Rightarrow> rat \<Rightarrow> kfu \<Rightarrow> kfu" where
  "flash name spans peak rise fall K = kf name (flash_pts spans peak rise fall) K"

definition tr :: "rat \<Rightarrow> rat \<Rightarrow> string" where
  "tr x y = ''translate('' @ fmt_g x @ ''px, '' @ fmt_g y @ ''px)''"

text \<open>\<open>if fill\<close> is false for None and for the empty string.\<close>

definition at_pt :: "rat \<Rightarrow> rat \<Rightarrow> rat \<Rightarrow> cssv \<Rightarrow> string option \<Rightarrow> point" where
  "at_pt t x y opv fill =
     (py_round 3 t,
      op_tr opv (tr x y) @ (case fill of None \<Rightarrow> [] | Some f \<Rightarrow> if f = [] then [] else [(''fill'', VStr f)]))"

fun ring_loop :: "rat \<Rightarrow> rat \<Rightarrow> rat list \<Rightarrow> point list" where
  "ring_loop gap lst [] = []"
| "ring_loop gap lst (t # ts) =
     (if t < lst + gap then ring_loop gap lst ts
      else [(t, op_tr (VInt 0) ''scale(1)''), (t + 1 / 10, op_tr (VFlt (9 / 10)) ''scale(1.04)''),
            (t + 6 / 10, op_tr (VInt 0) ''scale(1.18)'')] @ ring_loop gap t ts)"

definition ring :: "string \<Rightarrow> rat list \<Rightarrow> rat \<Rightarrow> kfu \<Rightarrow> kfu" where
  "ring name tms gap K = kf name ((0, op_tr (VInt 0) ''scale(1)'') # ring_loop gap (-9) (sort tms)) K"

section \<open>Progress bars\<close>

text \<open>
  A span is (start, end) or (start, end, fill), here a triple with an optional fill; tuples compare
  element by element and a pair sorts before the triples that extend it, as None before Some.
\<close>

type_synonym bar_span = "rat \<times> rat \<times> rat option"

definition scaleX :: "rat \<Rightarrow> props" where
  "scaleX f = op_tr (VInt 1) (''scaleX('' @ fmt_g f @ '')'')"

fun bar_loop :: "(rat \<times> rat \<times> rat) list \<Rightarrow> point list res" where
  "bar_loop [] = Inr []"
| "bar_loop [(s, e, f)] =
     Inr [(s, scaleX 0), (e, scaleX f),
          (e + 3 / 10, op_tr (VInt 0) (''scaleX('' @ fmt_g f @ '')'')), (e + 31 / 100, scaleX 0)]"
| "bar_loop ((s, e, f) # (nxt, e2, f2) # sps) =
     (if nxt \<ge> e + 31 / 100
      then rbind (bar_loop ((nxt, e2, f2) # sps)) (\<lambda>ps.
           Inr ([(s, scaleX 0), (e, scaleX f),
                 (e + 3 / 10, op_tr (VInt 0) (''scaleX('' @ fmt_g f @ '')'')), (e + 31 / 100, scaleX 0)] @ ps))
      else if nxt \<ge> e
      then rbind (bar_loop ((max nxt (e + 1 / 100), e2, f2) # sps)) (\<lambda>ps.
           Inr ([(s, scaleX 0), (e, scaleX f)] @ ps))
      else Inl AssertionError)"

definition bar_spans :: "bar_span list \<Rightarrow> (rat \<times> rat \<times> rat) list" where
  "bar_spans spans = map (\<lambda>(s, e, f). (s, e, case f of None \<Rightarrow> 1 | Some x \<Rightarrow> x)) (sort spans)"

definition bar :: "string \<Rightarrow> bar_span list \<Rightarrow> kfu \<Rightarrow> kfu res" where
  "bar name spans K =
     rbind (bar_loop (bar_spans spans)) (\<lambda>ps. Inr (kf name ((0, scaleX 0) # ps) K))"

section \<open>One element per state\<close>

fun states_loop :: "nat \<Rightarrow> rat \<Rightarrow> int option \<Rightarrow> (rat \<times> nat) list \<Rightarrow> point list" where
  "states_loop k fade cur [] = []"
| "states_loop k fade cur ((t, i) # cs) =
     (let on = (if i = k then 1 else 0)
      in (case cur of
            None \<Rightarrow> [(0, op (VInt on))]
          | Some c \<Rightarrow> if on \<noteq> c then [(t, op (VInt c)), (t + fade, op (VInt on))] else [])
         @ states_loop k fade (Some on) cs)"

definition states :: "string \<Rightarrow> (rat \<times> nat) list \<Rightarrow> nat \<Rightarrow> rat \<Rightarrow> kfu \<Rightarrow> kfu res" where
  "states pre changes n fade K =
     (let cs = sort changes
      in if cs \<noteq> [] \<and> fst (hd cs) = 0
         then Inr (fold (\<lambda>k K. kf (pre @ show_nat k) (states_loop k fade None cs) K) [0..<n] K)
         else Inl AssertionError)"

section \<open>Merging: separated, covering, nothing invented\<close>

fun separated :: "rat \<Rightarrow> span list \<Rightarrow> bool" where
  "separated pad (a # b # xs) = (snd a + pad < fst b \<and> separated pad (b # xs))"
| "separated pad xs = True"

definition proper :: "span list \<Rightarrow> bool" where
  "proper spans = (\<forall>sp \<in> set spans. fst sp \<le> snd sp)"

lemma proper_simps [simp]:
  "proper []"
  "proper (sp # sps) \<longleftrightarrow> fst sp \<le> snd sp \<and> proper sps"
  "proper (sps @ sps') \<longleftrightarrow> proper sps \<and> proper sps'"
  "proper (sort sps) = proper sps"
  by (auto simp: proper_def)

lemma separated_snoc:
  "separated pad (xs @ [y]) \<longleftrightarrow> separated pad xs \<and> (xs \<noteq> [] \<longrightarrow> snd (last xs) + pad < fst y)"
  by (induction pad xs rule: separated.induct) auto

lemma separated_snoc2:
  "separated pad (xs @ [y, z]) \<longleftrightarrow> separated pad (xs @ [y]) \<and> snd y + pad < fst z"
  using separated_snoc [of pad "xs @ [y]" z] by simp

lemma separated_prefix: "separated pad (xs @ ys) \<Longrightarrow> separated pad xs"
  by (induction ys rule: rev_induct) (auto simp: separated_snoc simp flip: append_assoc)

lemma separated_all:
  "separated pad (a # xs) \<Longrightarrow> proper (a # xs) \<Longrightarrow> 0 \<le> pad \<Longrightarrow> b \<in> set xs \<Longrightarrow> snd a + pad < fst b"
proof (induction xs arbitrary: a)
  case (Cons c xs)
  have c: "snd a + pad < fst c" using Cons.prems by simp
  show ?case
  proof (cases "b = c")
    case False
    with Cons have "snd c + pad < fst b" by (auto simp: proper_def)
    moreover have "fst c \<le> snd c" using Cons.prems by (simp add: proper_def)
    ultimately show ?thesis using c Cons.prems(3) by linarith
  qed (use c in simp)
qed simp

lemma separated_sorted: "separated pad xs \<Longrightarrow> proper xs \<Longrightarrow> 0 \<le> pad \<Longrightarrow> sorted xs"
proof (induction xs)
  case (Cons a xs)
  have "a \<le> b" if "b \<in> set xs" for b
  proof -
    have "snd a + pad < fst b" using separated_all Cons.prems that by blast
    moreover have "fst a \<le> snd a" using Cons.prems by (simp add: proper_def)
    ultimately have "fst a < fst b" using Cons.prems(3) by linarith
    then show ?thesis by (simp add: less_eq_prod_def)
  qed
  moreover have "separated pad xs" using Cons.prems(1) by (cases xs) auto
  ultimately show ?case using Cons by (simp add: proper_def)
qed simp

lemma merge_step_snoc:
  "merge_step pad (ys @ [y]) sp =
     (if fst sp \<le> snd y + pad then ys @ [(fst y, max (snd y) (snd sp))] else ys @ [y] @ [sp])"
  by (cases sp) (simp add: merge_step_def)

lemma merge_step_Nil [simp]: "merge_step pad [] sp = [sp]"
  by (cases sp) (simp add: merge_step_def)

lemma proper_merge_step: "proper out \<Longrightarrow> fst sp \<le> snd sp \<Longrightarrow> proper (merge_step pad out sp)"
  by (cases out rule: rev_cases) (auto simp: merge_step_snoc le_max_iff_disj)

lemma merge_fold_separated:
  "separated pad out \<Longrightarrow> separated pad (foldl (merge_step pad) out sps)"
proof (induction sps arbitrary: out)
  case (Cons sp sps)
  have "separated pad (merge_step pad out sp)"
    using Cons.prems by (cases out rule: rev_cases) (auto simp: merge_step_snoc separated_snoc
      simp flip: append_Cons append_assoc)
  then show ?case using Cons.IH by simp
qed simp

lemma merge_fold_covers:
  assumes "sorted (map fst sps)" and "\<forall>a \<in> set out. \<forall>b \<in> set sps. fst a \<le> fst b"
    and "sp \<in> set out \<union> set sps"
  shows "\<exists>m \<in> set (foldl (merge_step pad) out sps). fst m \<le> fst sp \<and> snd sp \<le> snd m"
  using assms
proof (induction sps arbitrary: out sp)
  case (Cons b sps)
  let ?out = "merge_step pad out b"
  have starts: "fst ` set ?out \<subseteq> fst ` insert b (set out)"
    by (cases out rule: rev_cases) (auto simp: merge_step_snoc)
  have low: "\<forall>a \<in> set ?out. \<forall>c \<in> set sps. fst a \<le> fst c"
  proof (intro ballI)
    fix a c assume "a \<in> set ?out" and c: "c \<in> set sps"
    then obtain a' where "fst a = fst a'" "a' = b \<or> a' \<in> set out" using starts by blast
    with Cons.prems(1,2) c show "fst a \<le> fst c" by auto
  qed
  have grow: "\<exists>m \<in> set ?out. fst m \<le> fst x \<and> snd x \<le> snd m" if "x = b \<or> x \<in> set out" for x
    using that Cons.prems(2) by (cases out rule: rev_cases) (auto simp: merge_step_snoc le_max_iff_disj)
  obtain x where x: "x \<in> set ?out \<union> set sps" "fst x \<le> fst sp" "snd sp \<le> snd x"
  proof (cases "sp \<in> set sps")
    case True
    with that [of sp] show thesis by simp
  next
    case False
    with Cons.prems(3) have "sp = b \<or> sp \<in> set out" by simp
    from grow [OF this] that show thesis by blast
  qed
  have "sorted (map fst sps)" using Cons.prems(1) by simp
  from Cons.IH [OF this low x(1)] x(2,3) show ?case by (auto intro: order_trans)
qed auto

text \<open>Every point of a merged span lies in a given span, or at most \<open>pad\<close> after its end.\<close>

definition near_span :: "rat \<Rightarrow> span list \<Rightarrow> rat \<Rightarrow> bool" where
  "near_span pad spans x = (\<exists>sp \<in> set spans. fst sp \<le> x \<and> x \<le> snd sp + pad)"

lemma merge_fold_sound:
  assumes "0 \<le> pad" and "proper sps" and "proper out"
    and "\<forall>m \<in> set out. (\<exists>sp \<in> set seen. fst sp \<le> snd m \<and> snd sp = snd m)
          \<and> (\<forall>x. fst m \<le> x \<and> x \<le> snd m \<longrightarrow> near_span pad seen x)"
    and "m \<in> set (foldl (merge_step pad) out sps)" and "fst m \<le> x" and "x \<le> snd m"
  shows "near_span pad (seen @ sps) x"
  using assms
proof (induction sps arbitrary: out seen)
  case (Cons b sps)
  let ?out = "merge_step pad out b" and ?seen = "seen @ [b]"
  have b: "fst b \<le> snd b" using Cons.prems(2) by (simp add: proper_def)
  have proper: "proper ?out"
    using Cons.prems(3) b by (rule proper_merge_step)
  have "(\<exists>sp \<in> set ?seen. fst sp \<le> snd n \<and> snd sp = snd n)
      \<and> (\<forall>x. fst n \<le> x \<and> x \<le> snd n \<longrightarrow> near_span pad ?seen x)" if n: "n \<in> set ?out" for n
  proof (cases "n \<in> set out")
    case True
    with Cons.prems(4) show ?thesis by (auto simp: near_span_def)
  next
    case False
    show ?thesis
    proof (cases "n = b")
      case True
      with b Cons.prems(1) show ?thesis by (force simp: near_span_def)
    next
      case nb: False
      with False n obtain ys y where out: "out = ys @ [y]" and ov: "fst b \<le> snd y + pad"
        and nn: "n = (fst y, max (snd y) (snd b))"
        by (cases out rule: rev_cases) (auto simp: merge_step_snoc split: if_splits)
      with Cons.prems(4) obtain sp where sp: "sp \<in> set seen" "fst sp \<le> snd y" "snd sp = snd y" by auto
      have y: "\<And>x. fst y \<le> x \<Longrightarrow> x \<le> snd y \<Longrightarrow> near_span pad seen x" using Cons.prems(4) out by simp
      have "near_span pad ?seen x" if x: "fst n \<le> x" "x \<le> snd n" for x
      proof (cases "x \<le> snd y")
        case True
        with y x nn show ?thesis by (auto simp: near_span_def)
      next
        case False
        show ?thesis
        proof (cases "fst b \<le> x")
          case True
          with x nn False Cons.prems(1) have "x \<le> snd b + pad" by (auto simp: le_max_iff_disj)
          with True show ?thesis by (auto simp: near_span_def)
        next
          case before: False
          with sp ov False have "fst sp \<le> x \<and> x \<le> snd sp + pad" by auto
          with sp(1) show ?thesis by (auto simp: near_span_def)
        qed
      qed
      moreover have "\<exists>sp \<in> set ?seen. fst sp \<le> snd n \<and> snd sp = snd n"
        using sp b nn by (auto simp: max_def)
      ultimately show ?thesis by blast
    qed
  qed
  then have "near_span pad (?seen @ sps) x"
    using Cons.prems proper by (intro Cons.IH [where out = ?out]) auto
  then show ?case by simp
qed auto

lemma merge_fold_id:
  "separated pad (out @ sps) \<Longrightarrow> foldl (merge_step pad) out sps = out @ sps"
proof (induction sps arbitrary: out)
  case (Cons b sps)
  have "separated pad (out @ [b])"
    using separated_prefix [of pad "out @ [b]" sps] Cons.prems by simp
  then have "merge_step pad out b = out @ [b]"
    by (cases out rule: rev_cases) (auto simp: merge_step_snoc separated_snoc2)
  with Cons show ?case by simp
qed simp

lemma merge_fold_proper:
  "proper out \<Longrightarrow> proper sps \<Longrightarrow> proper (foldl (merge_step pad) out sps)"
  by (induction sps arbitrary: out) (simp_all add: proper_merge_step)

lemma proper_merge: "proper spans \<Longrightarrow> proper (merge pad spans)"
  by (simp add: merge_def merge_fold_proper)

lemma sorted_fst: "sorted (sps :: span list) \<Longrightarrow> sorted (map fst sps)"
  by (induction sps) (auto simp: less_eq_prod_def)

lemma merge_separated: "separated pad (merge pad spans)"
  by (simp add: merge_def merge_fold_separated)

lemma merge_covers:
  "sp \<in> set spans \<Longrightarrow> \<exists>m \<in> set (merge pad spans). fst m \<le> fst sp \<and> snd sp \<le> snd m"
  unfolding merge_def by (rule merge_fold_covers) (simp_all add: sorted_fst)

lemma merge_near:
  "0 \<le> pad \<Longrightarrow> proper spans \<Longrightarrow> m \<in> set (merge pad spans) \<Longrightarrow> fst m \<le> x \<Longrightarrow> x \<le> snd m
    \<Longrightarrow> near_span pad spans x"
  using merge_fold_sound [of pad "sort spans" "[]" "[]" m x]
  by (simp add: merge_def near_span_def)

end
