(* ===== verification/Timeline.thy ===== *)
theory Timeline
  imports Keyframes
begin

text \<open>
  What the builders of \<open>Keyframes\<close> put on a time line: the keyframes of a rule are in time order,
  a padded rule spans the whole loop, a flash is lit over every span it was given, pulses keep their
  distance, a bar fails exactly on overlapping spans, and of the elements of \<open>states\<close> exactly one is
  shown. \<open>held ps x v\<close> says that the element's properties are \<open>v\<close> at time \<open>x\<close>: both keyframes
  around \<open>x\<close> have them, so the easing between them does not matter.
\<close>

section \<open>Reading a track\<close>

fun held :: "point list \<Rightarrow> rat \<Rightarrow> props \<Rightarrow> bool" where
  "held (p # q # ps) x v \<longleftrightarrow>
     (fst p \<le> x \<and> x \<le> fst q \<and> snd p = v \<and> snd q = v) \<or> held (q # ps) x v"
| "held ps x v = False"

definition track_ok :: "rat \<Rightarrow> point list \<Rightarrow> bool" where
  "track_ok D ps \<longleftrightarrow> ps \<noteq> [] \<and> sorted (map fst ps) \<and> fst (hd ps) = 0 \<and> fst (last ps) = D"

lemma held_appendI2: "held ps x v \<Longrightarrow> held (qs @ ps) x v"
proof (induction qs)
  case (Cons q qs)
  then show ?case by (cases "qs @ ps") auto
qed simp

lemma held_appendI1: "held ps x v \<Longrightarrow> held (ps @ qs) x v"
  by (induction ps x v rule: held.induct) auto

lemma heldI: "a \<le> x \<Longrightarrow> x \<le> b \<Longrightarrow> held (us @ (a, v) # (b, v) # ws) x v"
  by (rule held_appendI2) simp

lemma kf_sorted: "rules (kf name pts K) = rules K @ [(name, sort_key fst pts)]"
  and kf_frame: "loop_D (kf name pts K) = loop_D K" "elements (kf name pts K) = elements K"
  by (simp_all add: kf_def)

section \<open>Padding\<close>

lemma padded_Inr_iff: "(\<exists>ps. padded D name pts = Inr ps) \<longleftrightarrow> pts \<noteq> [] \<and> fst (last pts) \<le> D"
  by (auto simp: padded_def Let_def split: list.splits)

lemma padded_shape:
  assumes "padded D name pts = Inr ps"
  shows "\<exists>us ws. ps = us @ pts @ ws"
  using assms by (auto simp: padded_def Let_def split: list.splits if_splits)
    (metis append_Nil append_Cons append_Nil2)+

lemma padded_track:
  assumes ps: "padded D name pts = Inr ps" and so: "sorted (map fst pts)"
    and nn: "\<forall>p \<in> set pts. 0 \<le> fst p"
  shows "track_ok D ps"
proof -
  obtain p qs where pts: "pts = p # qs" using ps by (cases pts) (auto simp: padded_def)
  define pts1 where "pts1 = (if fst p > 0 then (0, snd p) # pts else pts)"
  have ne: "pts1 \<noteq> []" by (simp add: pts1_def pts)
  have hd: "fst (hd pts1) = 0" using nn by (auto simp: pts1_def pts)
  have so1: "sorted (map fst pts1)" using so nn by (auto simp: pts1_def)
  have last_max: "\<forall>q \<in> set pts1. fst q \<le> fst (last pts1)"
    using sorted_key_last [OF so1] by blast
  have ps': "ps = (if fst (last pts1) < D then pts1 @ [(D, snd (last pts1))] else pts1)"
    and le: "fst (last ps) \<le> D"
    using ps by (auto simp: padded_def pts1_def pts Let_def split: if_splits)
  show ?thesis
  proof (cases "fst (last pts1) < D")
    case True
    with ps' ne hd so1 last_max show ?thesis
      by (auto simp: track_ok_def sorted_append intro: order_trans less_imp_le)
  next
    case False
    with ps' le ne hd so1 show ?thesis by (simp add: track_ok_def)
  qed
qed

section \<open>Percentages\<close>

lemma read_dec_pos: "c \<noteq> CHR ''-'' \<Longrightarrow> read_dec (c # s) = read_pos (c # s)"
  by (simp add: read_dec_def)

lemma fmt_fixed_point:
  assumes "0 \<le> x" and "0 < k"
  shows "\<exists>w f. fmt_fixed k x = w @ CHR ''.'' # f \<and> CHR ''.'' \<notin> set w \<and> CHR ''.'' \<notin> set f
    \<and> w \<noteq> [] \<and> set w \<subseteq> digit ` {..<10}"
proof -
  define n where "n = nat (round_half_even (\<bar>x\<bar> * 10 ^ k))"
  let ?w = "show_nat (n div 10 ^ k)" and ?f = "zpad k (show_nat (n mod 10 ^ k))"
  have d: "set ?w \<subseteq> digit ` {..<10}" "set ?f \<subseteq> digit ` {..<10}"
    by (rule show_nat_digits) (rule zpad_digits [OF show_nat_digits])
  have "fmt_fixed k x = ?w @ CHR ''.'' # ?f"
    using assms by (simp add: fmt_fixed_def Let_def n_def)
  moreover have "CHR ''.'' \<notin> set ?w" "CHR ''.'' \<notin> set ?f" using d by (simp_all only: digits_no_dot not_False_eq_True)
  ultimately show ?thesis using d(1) show_nat_neq_Nil by blast
qed

lemma pct_read:
  assumes "D \<noteq> 0" and "0 \<le> t / D"
  shows "\<exists>s. pct D t = Inr (s @ ''%'') \<and> read_dec s = py_round 2 (t / D * 100)"
proof -
  let ?x = "t / D * 100"
  have nn: "0 \<le> ?x" using assms(2) by (rule mult_nonneg_nonneg) simp
  obtain w f where f: "fmt_fixed 2 ?x = w @ CHR ''.'' # f" "CHR ''.'' \<notin> set w" "CHR ''.'' \<notin> set f"
    "w \<noteq> []" "set w \<subseteq> digit ` {..<10}"
    using fmt_fixed_point [of ?x 2] nn by (metis zero_less_numeral)
  define s where "s = rstrip (CHR ''.'') (rstrip (CHR ''0'') (fmt_fixed 2 ?x))"
  have "read_pos s = py_round 2 ?x"
    using read_pos_strip [OF f(2,3)] read_pos_fixed [OF nn, of 2] f(1) by (simp add: s_def)
  moreover have "read_dec s = read_pos s"
  proof -
    obtain c w' where w: "w = c # w'" using f(4) by (cases w) auto
    then obtain d where "d < 10" "c = digit d" using f(5) by auto
    then have c: "c \<noteq> CHR ''-''" "c \<noteq> CHR ''.''" by simp_all
    have "s = rstrip (CHR ''.'') (rstrip (CHR ''0'') (w @ CHR ''.'' # f))"
      by (simp only: s_def f(1))
    then have "\<exists>u. s = c # u"
      using rstrip_append_Cons [of "CHR ''.''" "CHR ''0''" w f]
        rstrip_append_Cons [of c "CHR ''.''" "[]"] c(2) by (simp add: w)
    with c(1) show ?thesis by (auto simp: read_dec_pos)
  qed
  moreover have "pct D t = Inr (s @ ''%'')" using assms(1) by (simp add: pct_def s_def)
  ultimately show ?thesis by auto
qed

section \<open>Flashes\<close>

definition flash_block :: "cssv \<Rightarrow> rat \<Rightarrow> rat \<Rightarrow> span \<Rightarrow> point list" where
  "flash_block peak rise fall m =
     [(fst m, op (VInt 0)), (fst m + rise, op peak), (snd m, op peak), (snd m + fall, op (VInt 0))]"

definition long_spans :: "rat \<Rightarrow> span list \<Rightarrow> bool" where
  "long_spans r spans \<longleftrightarrow> (\<forall>sp \<in> set spans. 0 \<le> fst sp \<and> fst sp + r \<le> snd sp)"

lemma flash_pts_blocks:
  "flash_pts spans peak rise fall =
     (0, op (VInt 0)) # concat (map (flash_block peak rise fall) (merge (rise + fall) spans))"
  by (simp add: flash_pts_def flash_block_def [abs_def] case_prod_beta')

lemma long_spans_simps [simp]:
  "long_spans r []"
  "long_spans r (sp # sps) \<longleftrightarrow> 0 \<le> fst sp \<and> fst sp + r \<le> snd sp \<and> long_spans r sps"
  "long_spans r (sps @ sps') \<longleftrightarrow> long_spans r sps \<and> long_spans r sps'"
  "long_spans r (sort sps) = long_spans r sps"
  by (auto simp: long_spans_def)

lemma merge_step_long:
  "long_spans r out \<Longrightarrow> 0 \<le> fst sp \<Longrightarrow> fst sp + r \<le> snd sp \<Longrightarrow> long_spans r (merge_step pad out sp)"
  by (cases out rule: rev_cases) (auto simp: merge_step_snoc le_max_iff_disj)

lemma merge_long: "long_spans r spans \<Longrightarrow> long_spans r (merge pad spans)"
proof -
  have "long_spans r out \<Longrightarrow> long_spans r sps \<Longrightarrow> long_spans r (foldl (merge_step pad) out sps)" for out sps
    by (induction sps arbitrary: out) (simp_all add: merge_step_long)
  from this [of "[]" "sort spans"] show "long_spans r spans \<Longrightarrow> long_spans r (merge pad spans)"
    by (simp add: merge_def)
qed

lemma long_proper: "0 \<le> r \<Longrightarrow> long_spans r spans \<Longrightarrow> proper spans"
  by (force simp: long_spans_def proper_def)

lemma blocks_from:
  assumes "long_spans rise ms" and "0 \<le> rise" and "0 \<le> fall"
    and "p \<in> set (concat (map (flash_block peak rise fall) ms))"
  shows "\<exists>m \<in> set ms. fst m \<le> fst p"
proof -
  obtain m where m: "m \<in> set ms" "p \<in> set (flash_block peak rise fall m)" using assms(4) by auto
  then have "fst m + rise \<le> snd m" using assms(1) by (auto simp: long_spans_def)
  with m assms(2,3) show ?thesis by (intro bexI [of _ m]) (auto simp: flash_block_def)
qed

lemma blocks_sorted:
  assumes "long_spans rise ms" and "0 \<le> rise" and "0 \<le> fall" and "separated (rise + fall) ms"
  shows "sorted (map fst (concat (map (flash_block peak rise fall) ms)))"
  using assms
proof (induction ms)
  case (Cons m ms)
  have l: "long_spans rise ms" "0 \<le> fst m" "fst m + rise \<le> snd m"
    using Cons.prems(1) by auto
  have "separated (rise + fall) ms" using Cons.prems(4) by (cases ms) auto
  with Cons l have so: "sorted (map fst (concat (map (flash_block peak rise fall) ms)))" by blast
  have "snd m + fall \<le> fst p" if p: "p \<in> set (concat (map (flash_block peak rise fall) ms))" for p
  proof -
    obtain n where n: "n \<in> set ms" "fst n \<le> fst p"
      using blocks_from [OF l(1) Cons.prems(2,3) p] by blast
    have "snd m + (rise + fall) < fst n"
      using separated_all [OF Cons.prems(4) _ _ n(1)] Cons.prems(2,3)
        long_proper [OF Cons.prems(2,1)] by simp
    with n(2) Cons.prems(2) show ?thesis by linarith
  qed
  moreover have "fst q \<le> snd m + fall" if "q \<in> set (flash_block peak rise fall m)" for q
    using that l Cons.prems(2,3) by (auto simp: flash_block_def)
  ultimately have "\<forall>q \<in> set (flash_block peak rise fall m).
      \<forall>p \<in> set (concat (map (flash_block peak rise fall) ms)). fst q \<le> fst p"
    by (meson order_trans)
  moreover have "sorted (map fst (flash_block peak rise fall m))"
    using l Cons.prems(2,3) by (auto simp: flash_block_def)
  ultimately show ?case using so by (simp add: sorted_append)
qed simp

lemma flash_sorted:
  assumes "long_spans rise spans" and "0 \<le> rise" and "0 \<le> fall"
  shows "sorted (map fst (flash_pts spans peak rise fall))"
proof -
  have l: "long_spans rise (merge (rise + fall) spans)" using assms(1) by (rule merge_long)
  have "0 \<le> fst p" if "p \<in> set (concat (map (flash_block peak rise fall) (merge (rise + fall) spans)))" for p
    using blocks_from [OF l assms(2,3) that] l by (force simp: long_spans_def)
  then show ?thesis
    using blocks_sorted [OF l assms(2,3) merge_separated] by (auto simp: flash_pts_blocks)
qed

lemma flash_lit:
  assumes "sp \<in> set spans" and "fst sp + rise \<le> x" and "x \<le> snd sp"
  shows "held (flash_pts spans peak rise fall) x (op peak)"
proof -
  obtain m where m: "m \<in> set (merge (rise + fall) spans)" "fst m \<le> fst sp" "snd sp \<le> snd m"
    using merge_covers [OF assms(1)] by blast
  then obtain us ws where "merge (rise + fall) spans = us @ m # ws" by (meson split_list)
  moreover have "fst m + rise \<le> x" "x \<le> snd m" using m assms by auto
  ultimately show ?thesis
    unfolding flash_pts_blocks by (intro held_appendI2 [of _ _ _ "[_]", simplified] held_appendI2)
      (simp add: flash_block_def held_appendI2)
qed

lemma flash_dark_from:
  assumes "t0 \<le> x" and "x \<le> D" and "\<forall>m \<in> set ms. x < fst m \<or> snd m + fall < x"
  shows "held ((t0, op (VInt 0)) # concat (map (flash_block peak rise fall) ms) @ [(D, op (VInt 0))]) x (op (VInt 0))"
  using assms
proof (induction ms arbitrary: t0)
  case (Cons m ms)
  show ?case
  proof (cases "x < fst m")
    case True
    with Cons.prems(1) show ?thesis by (simp add: flash_block_def)
  next
    case False
    with Cons.prems(3) have "snd m + fall \<le> x" by auto
    with Cons have "held ((snd m + fall, op (VInt 0)) # concat (map (flash_block peak rise fall) ms) @ [(D, op (VInt 0))])
        x (op (VInt 0))" by simp
    then show ?thesis by (simp add: flash_block_def [abs_def])
  qed
qed simp

section \<open>Pulses\<close>

fun ring_kept :: "rat \<Rightarrow> rat \<Rightarrow> rat list \<Rightarrow> rat list" where
  "ring_kept gap lst [] = []"
| "ring_kept gap lst (t # ts) =
     (if t < lst + gap then ring_kept gap lst ts else t # ring_kept gap t ts)"

definition pulse_pts :: "rat \<Rightarrow> point list" where
  "pulse_pts t = [(t, op_tr (VInt 0) ''scale(1)''), (t + 1 / 10, op_tr (VFlt (9 / 10)) ''scale(1.04)''),
     (t + 6 / 10, op_tr (VInt 0) ''scale(1.18)'')]"

lemma ring_loop_kept: "ring_loop gap lst ts = concat (map pulse_pts (ring_kept gap lst ts))"
  by (induction gap lst ts rule: ring_loop.induct) (simp_all add: pulse_pts_def)

lemma ring_kept_subset: "set (ring_kept gap lst ts) \<subseteq> set ts"
  by (induction gap lst ts rule: ring_kept.induct) auto

lemma ring_kept_spaced: "successively (\<lambda>a b. a + gap \<le> b) (lst # ring_kept gap lst ts)"
  by (induction gap lst ts rule: ring_kept.induct) (auto simp: successively_Cons)

lemma ring_kept_covers:
  assumes "sorted ts" and "t \<in> set ts" and "\<forall>u \<in> set ts. lst \<le> u" and "0 < gap"
  shows "\<exists>k \<in> set (lst # ring_kept gap lst ts). k \<le> t \<and> t < k + gap"
  using assms
proof (induction gap lst ts rule: ring_kept.induct)
  case (2 gap lst u ts)
  show ?case
  proof (cases "u < lst + gap")
    case True
    with 2 show ?thesis by (cases "t = u") auto
  next
    case False
    show ?thesis
    proof (cases "t = u")
      case True
      with False "2.prems"(4) show ?thesis by simp
    next
      case other: False
      with False 2 have "\<exists>k \<in> set (u # ring_kept gap u ts). k \<le> t \<and> t < k + gap" by auto
      with False show ?thesis by simp
    qed
  qed
qed simp

lemma successively_sorted:
  "successively (\<lambda>a b. a + gap \<le> b) (xs :: rat list) \<Longrightarrow> 0 \<le> gap \<Longrightarrow> sorted xs"
  by (induction xs rule: induct_list012) auto

lemma pulses_sorted:
  assumes "successively (\<lambda>a b. a + gap \<le> b) ks" and "6 / 10 \<le> gap"
  shows "sorted (map fst (concat (map pulse_pts ks)))"
  using assms
proof (induction ks)
  case (Cons k ks)
  have so: "successively (\<lambda>a b. a + gap \<le> b) ks" using Cons.prems(1) by (cases ks) auto
  have "k + 6 / 10 \<le> fst p" if p: "p \<in> set (concat (map pulse_pts ks))" for p
  proof -
    obtain j where j: "j \<in> set ks" "j \<le> fst p" using p by (auto simp: pulse_pts_def)
    have "sorted ks" using so Cons.prems(2) by (intro successively_sorted) auto
    with j(1) have "hd ks \<le> j" by (cases ks) auto
    moreover have "k + gap \<le> hd ks" using Cons.prems(1) j(1) by (cases ks) auto
    ultimately show ?thesis using j(2) Cons.prems(2) by linarith
  qed
  moreover have "sorted (map fst (pulse_pts k))" by (simp add: pulse_pts_def)
  moreover have "\<forall>q \<in> set (pulse_pts k). fst q \<le> k + 6 / 10" by (simp add: pulse_pts_def)
  ultimately show ?case
    using Cons.IH [OF so Cons.prems(2)] by (fastforce simp: sorted_append)
qed simp

section \<open>Bars\<close>

text \<open>Only a start before the previous end is an error; the restart of a bar moves no end.\<close>

lemma bar_loop_ok:
  "(\<exists>ps. bar_loop sps = Inr ps) \<longleftrightarrow> successively (\<lambda>a b. fst (snd a) \<le> fst b) sps"
proof (induction sps rule: bar_loop.induct)
  case (3 s e f nxt e2 f2 sps)
  show ?case
  proof (cases "nxt \<ge> e + 31 / 100")
    case True
    with 3 show ?thesis by auto
  next
    case False
    show ?thesis
    proof (cases "nxt \<ge> e")
      case True
      with False "3.IH"(2) show ?thesis by (auto simp: successively_Cons)
    qed (use False in simp)
  qed
qed simp_all

lemma bar_loop_error: "bar_loop sps = Inl e \<Longrightarrow> e = AssertionError"
  by (induction sps rule: bar_loop.induct) (auto simp: rbind_eq_Inl split: if_splits)

lemma bar_loop_ends:
  "bar_loop sps = Inr ps \<Longrightarrow> (s, e, f) \<in> set sps \<Longrightarrow> (e, scaleX f) \<in> set ps"
proof (induction sps arbitrary: s ps rule: bar_loop.induct)
  case (3 s1 e1 f1 nxt e2 f2 sps)
  show ?case
  proof (cases "(s, e, f) = (s1, e1, f1)")
    case True
    with "3.prems"(1) show ?thesis by (auto split: if_splits)
  next
    case False
    with "3.prems"(2) have "(s, e, f) = (nxt, e2, f2) \<or> (s, e, f) \<in> set sps" by auto
    then have "\<exists>s'. (s', e, f) \<in> set ((n, e2, f2) # sps)" for n by auto
    with "3.prems"(1) "3.IH" show ?thesis by (fastforce split: if_splits)
  qed
qed auto

lemma bar_loop_sorted:
  assumes "bar_loop sps = Inr ps" and "\<forall>(s, e, f) \<in> set sps. s \<le> e"
    and "successively (\<lambda>a b. fst (snd a) + 1 / 100 \<le> fst (snd b)) sps"
  shows "sorted (map fst ps) \<and> (\<forall>p \<in> set ps. sps \<noteq> [] \<longrightarrow> fst (hd sps) \<le> fst p)"
  using assms
proof (induction sps arbitrary: ps rule: bar_loop.induct)
  case (3 s e f nxt e2 f2 sps)
  show ?case
  proof (cases "nxt \<ge> e + 31 / 100")
    case True
    with "3.prems"(1) obtain qs where q: "bar_loop ((nxt, e2, f2) # sps) = Inr qs"
      and ps: "ps = [(s, scaleX 0), (e, scaleX f),
        (e + 3 / 10, op_tr (VInt 0) (''scaleX('' @ fmt_g f @ '')'')), (e + 31 / 100, scaleX 0)] @ qs" by auto
    have "sorted (map fst qs) \<and> (\<forall>p \<in> set qs. nxt \<le> fst p)"
      using "3.IH"(1) [OF True q] "3.prems" by auto
    with True ps "3.prems"(2) show ?thesis by auto
  next
    case False
    with "3.prems"(1) obtain qs where n: "nxt \<ge> e" and q: "bar_loop ((max nxt (e + 1 / 100), e2, f2) # sps) = Inr qs"
      and ps: "ps = [(s, scaleX 0), (e, scaleX f)] @ qs" by (auto split: if_splits)
    have "sorted (map fst qs) \<and> (\<forall>p \<in> set qs. max nxt (e + 1 / 100) \<le> fst p)"
      using "3.IH"(2) [OF False n q] "3.prems" by (auto simp: successively_Cons)
    with n ps "3.prems"(2) show ?thesis by auto
  qed
qed auto

section \<open>One state at a time\<close>

definition on_off :: "nat \<Rightarrow> nat \<Rightarrow> int" where
  "on_off k i = (if i = k then 1 else 0)"

text \<open>State \<open>j\<close> is settled at \<open>x\<close>: faded in, and the next change is not before \<open>x\<close>.\<close>

fun settled :: "rat \<Rightarrow> rat \<Rightarrow> (rat \<times> nat) list \<Rightarrow> rat \<Rightarrow> nat \<Rightarrow> bool" where
  "settled fade D [] x j = False"
| "settled fade D [(t, i)] x j \<longleftrightarrow> t + fade \<le> x \<and> x \<le> D \<and> j = i"
| "settled fade D ((t, i) # (t2, i2) # cs) x j \<longleftrightarrow>
     (t + fade \<le> x \<and> x \<le> t2 \<and> j = i) \<or> settled fade D ((t2, i2) # cs) x j"

definition spaced :: "rat \<Rightarrow> (rat \<times> nat) list \<Rightarrow> bool" where
  "spaced fade cs = successively (\<lambda>a b. fst a + fade \<le> fst b) cs"

lemma states_loop_Cons:
  "states_loop k fade (Some (on_off k i)) ((t, j) # cs) =
     (if on_off k j \<noteq> on_off k i
      then (t, op (VInt (on_off k i))) # (t + fade, op (VInt (on_off k j))) #
           states_loop k fade (Some (on_off k j)) cs
      else states_loop k fade (Some (on_off k j)) cs)"
  by (simp add: on_off_def Let_def)

declare states_loop.simps(2) [simp del]

lemma held_skip: "held ps x v \<Longrightarrow> held (p # q # ps) x v"
  using held_appendI2 [of ps x v "[p, q]"] by simp

lemma states_hold:
  assumes "spaced fade ((t, i) # cs)" and "0 \<le> fade" and "t0 \<le> x"
    and "case cs of [] \<Rightarrow> x \<le> D | c # _ \<Rightarrow> x \<le> fst c" and "\<forall>c \<in> set cs. fst c \<le> D"
  shows "held ((t0, op (VInt (on_off k i))) # states_loop k fade (Some (on_off k i)) cs @
      [(D, op (VInt (on_off k (snd (last ((t, i) # cs))))))]) x (op (VInt (on_off k i)))"
  using assms
proof (induction cs arbitrary: t i)
  case (Cons c cs)
  obtain t2 i2 where c: "c = (t2, i2)" by force
  show ?case
  proof (cases "on_off k i2 = on_off k i")
    case True
    have "spaced fade ((t2, i2) # cs)" using Cons.prems(1) by (simp add: spaced_def c)
    moreover have "case cs of [] \<Rightarrow> x \<le> D | c # _ \<Rightarrow> x \<le> fst c"
      using Cons.prems by (cases cs) (auto simp: spaced_def c)
    ultimately show ?thesis using Cons.IH [of t2 i2] Cons.prems True c
      by (simp add: states_loop_Cons)
  next
    case False
    with Cons.prems c show ?thesis by (simp add: states_loop_Cons)
  qed
qed simp

lemma states_settled:
  assumes "spaced fade ((t, i) # cs)" and "0 \<le> fade" and "t0 \<le> t + fade"
    and "settled fade D ((t, i) # cs) x j" and "\<forall>c \<in> set cs. fst c \<le> D"
  shows "held ((t0, op (VInt (on_off k i))) # states_loop k fade (Some (on_off k i)) cs @
      [(D, op (VInt (on_off k (snd (last ((t, i) # cs))))))]) x (op (VInt (on_off k j)))"
  using assms
proof (induction cs arbitrary: t i t0)
  case Nil
  then show ?case by simp
next
  case (Cons c cs)
  obtain t2 i2 where c: "c = (t2, i2)" by force
  show ?case
  proof (cases "t + fade \<le> x \<and> x \<le> t2 \<and> j = i")
    case True
    with Cons.prems c show ?thesis using states_hold [of fade t i "c # cs" t0 x D k] by simp
  next
    case False
    with Cons.prems(4) c have se: "settled fade D ((t2, i2) # cs) x j" by auto
    have sp: "spaced fade ((t2, i2) # cs)" and t2: "t + fade \<le> t2"
      using Cons.prems(1) by (auto simp: spaced_def c)
    have D: "\<forall>c \<in> set cs. fst c \<le> D" using Cons.prems(5) by simp
    show ?thesis
    proof (cases "on_off k i2 = on_off k i")
      case True
      with Cons.IH [OF sp Cons.prems(2) _ se D, of t0] Cons.prems(2,3) t2 c show ?thesis
        by (simp add: states_loop_Cons)
    next
      case False
      with Cons.IH [OF sp Cons.prems(2) order_refl se D] c show ?thesis
        by (simp add: states_loop_Cons)
    qed
  qed
qed

lemma states_last:
  "snd (last ((t0, op (VInt (on_off k i))) # states_loop k fade (Some (on_off k i)) cs)) =
     op (VInt (on_off k (snd (last ((t, i) # cs)))))"
proof (induction cs arbitrary: t0 i t)
  case (Cons c cs)
  obtain t2 i2 where c: "c = (t2, i2)" by force
  show ?case
  proof (cases "on_off k i2 = on_off k i")
    case True
    with Cons [of t0 i2 t2] c show ?thesis by (simp add: states_loop_Cons)
  next
    case False
    with Cons [of "t2 + fade" i2 t2] c show ?thesis by (simp add: states_loop_Cons)
  qed
qed simp

lemma states_track_sorted:
  assumes "spaced fade ((t, i) # cs)" and "0 \<le> fade" and "t0 \<le> t + fade"
  shows "sorted (map fst ((t0, op (VInt (on_off k i))) # states_loop k fade (Some (on_off k i)) cs))"
  using assms
proof (induction cs arbitrary: t i t0)
  case (Cons c cs)
  obtain t2 i2 where c: "c = (t2, i2)" by force
  have sp: "spaced fade ((t2, i2) # cs)" and t2: "t + fade \<le> t2"
    using Cons.prems(1) by (auto simp: spaced_def c)
  show ?case
  proof (cases "on_off k i2 = on_off k i")
    case True
    with Cons.IH [OF sp Cons.prems(2), of t0] Cons.prems(2,3) t2 c show ?thesis
      by (simp add: states_loop_Cons)
  next
    case False
    with Cons.IH [OF sp Cons.prems(2) order_refl] Cons.prems(2,3) t2 c show ?thesis
      by (force simp: states_loop_Cons)
  qed
qed simp

lemma states_loop_times:
  "0 \<le> fade \<Longrightarrow> p \<in> set (states_loop k fade (Some c) cs) \<Longrightarrow> \<exists>d \<in> set cs. fst p \<le> fst d + fade"
  by (induction cs arbitrary: c)
    (fastforce simp: states_loop.simps(2) Let_def split: if_splits)+

lemma states_rules:
  "fold (\<lambda>k K. kf (pre @ show_nat k) (f k) K) ks K =
     K\<lparr>rules := rules K @ map (\<lambda>k. (pre @ show_nat k, sort_key fst (f k))) ks\<rparr>"
  by (induction ks arbitrary: K) (simp_all add: kf_def)

lemma states_track_exclusive:
  assumes cs: "cs = (0, i) # cs'" and sp: "spaced fade cs" and "0 \<le> fade"
    and D: "\<forall>c \<in> set cs. fst c + fade < D" and se: "settled fade D cs x j"
    and track: "padded D name (sort_key fst (states_loop k fade None cs)) = Inr ps"
  shows "held ps x (op (VInt (on_off k j)))"
proof -
  let ?ts = "(0, op (VInt (on_off k i))) # states_loop k fade (Some (on_off k i)) cs'"
  let ?v = "op (VInt (on_off k (snd (last cs))))"
  have ts: "states_loop k fade None cs = ?ts" by (simp add: cs on_off_def Let_def states_loop.simps(2))
  have so: "sorted (map fst ?ts)" using states_track_sorted [of fade 0 i cs' 0 k] sp assms(3) cs by simp
  then have key: "sort_key fst ?ts = ?ts" by (rule sort_key_sorted)
  have le: "\<forall>c \<in> set cs'. fst c \<le> D" using D assms(3) cs by force
  have held: "held (?ts @ [(D, ?v)]) x (op (VInt (on_off k j)))"
    using states_settled [of fade 0 i cs' 0 D x j k] sp assms(3) se le cs by simp
  have last: "snd (last ?ts) = ?v" using states_last [of 0 k i fade cs' 0] cs by simp
  have "fst p < D" if "p \<in> set ?ts" for p
    using that states_loop_times [OF assms(3)] D assms(3) cs by fastforce
  then have "fst (last ?ts) < D" using last_in_set [of ?ts] by blast
  with track ts key last have "ps = ?ts @ [(D, ?v)]"
    by (simp add: padded_def Let_def split: if_splits)
  with held show ?thesis by simp
qed

section \<open>Properties\<close>

text \<open>C27: \<open>merge\<close> (kfu.py) leaves spans more than \<open>pad\<close> apart, every given span lies in one of
  them, and every instant of a merged span lies in a given span or at most \<open>pad\<close> after its end.\<close>

theorem merge_correct:
  assumes "0 \<le> pad" and "proper spans"
  shows "separated pad (merge pad spans)
    \<and> (\<forall>sp \<in> set spans. \<exists>m \<in> set (merge pad spans). fst m \<le> fst sp \<and> snd sp \<le> snd m)
    \<and> (\<forall>m \<in> set (merge pad spans). \<forall>x. fst m \<le> x \<and> x \<le> snd m \<longrightarrow> near_span pad spans x)"
  using merge_separated merge_covers merge_near [OF assms] by blast

theorem merge_correct_witness:
  "separated (3 / 10) (merge (3 / 10) [(0, 1), (12 / 10, 2), (5, 6)])
    \<and> merge (3 / 10) [(0, 1), (12 / 10, 2), (5, 6)] = [(0, 2), (5, 6)]"
proof
  show "separated (3 / 10) (merge (3 / 10) [(0, 1), (12 / 10, 2), (5, 6)])"
    using merge_correct [of "3 / 10" "[(0, 1), (12 / 10, 2), (5, 6)]"] by simp
  show "merge (3 / 10) [(0, 1), (12 / 10, 2), (5, 6)] = [(0, 2), (5, 6)]" by code_simp
qed

text \<open>C28: a rule stored by \<open>kf\<close> and padded by \<open>padded\<close> is accepted exactly when it has a keyframe
  and none past the loop end, and then runs, in time order, from 0 to the loop end and contains the
  given keyframes.\<close>

theorem padded_spans_loop:
  assumes "\<forall>p \<in> set pts. 0 \<le> fst p" and "rules K' = rules (kf name pts K)"
  shows "((\<exists>ps. padded D name (snd (last (rules K'))) = Inr ps) \<longleftrightarrow> pts \<noteq> [] \<and> (\<forall>p \<in> set pts. fst p \<le> D))
    \<and> (\<forall>ps. padded D name (snd (last (rules K'))) = Inr ps
         \<longrightarrow> track_ok D ps \<and> set pts \<subseteq> set ps)"
proof -
  let ?q = "sort_key fst pts"
  have q: "snd (last (rules K')) = ?q" using assms(2) by (simp add: kf_sorted)
  have so: "sorted (map fst ?q)" by simp
  have last: "?q \<noteq> [] \<and> fst (last ?q) \<le> D \<longleftrightarrow> pts \<noteq> [] \<and> (\<forall>p \<in> set pts. fst p \<le> D)"
  proof (cases "pts = []")
    case False
    then have "?q \<noteq> []" by (metis set_empty set_sort)
    then have "last ?q \<in> set pts" using last_in_set [of ?q] by simp
    with False \<open>?q \<noteq> []\<close> show ?thesis using sorted_key_last [OF so] by (auto intro: order_trans)
  qed simp
  have "track_ok D ps \<and> set pts \<subseteq> set ps" if "padded D name ?q = Inr ps" for ps
    using padded_track [OF that so] padded_shape [OF that] assms(1) by fastforce
  with last q show ?thesis by (simp add: padded_Inr_iff)
qed

theorem padded_spans_loop_witness:
  "track_ok 16 [(0, op (VInt 1)), (4, op (VInt 1)), (8, op (VInt 0)), (16, op (VInt 0))]"
proof -
  let ?K = "\<lparr>loop_D = 16, rules = [], LEGEND = [], elements = []\<rparr>"
  let ?pts = "[(8, op (VInt 0)), (4, op (VInt 1))]"
  have "padded 16 ''x'' (snd (last (rules (kf ''x'' ?pts ?K)))) =
      Inr [(0, op (VInt 1)), (4, op (VInt 1)), (8, op (VInt 0)), (16, op (VInt 0))]"
    by code_simp
  then show ?thesis
    using padded_spans_loop [of "?pts" "kf ''x'' ?pts ?K" "''x''" "?K" 16] by simp
qed

text \<open>C25: an element flashed over spans is at its peak over every given span, from the end of the
  rise on, and hidden outside the merged spans and their fades, up to the loop end.\<close>

theorem flash_shows_spans:
  assumes "long_spans rise spans" and "0 \<le> rise" and "0 \<le> fall"
    and "padded D name (snd (last (rules (flash name spans peak rise fall K)))) = Inr ps"
    and "\<forall>m \<in> set (merge (rise + fall) spans). snd m + fall < D" and "0 < D"
  shows "(\<forall>sp \<in> set spans. \<forall>x. fst sp + rise \<le> x \<and> x \<le> snd sp \<longrightarrow> held ps x (op peak))
    \<and> (\<forall>x. 0 \<le> x \<and> x \<le> D \<and> (\<forall>m \<in> set (merge (rise + fall) spans). x < fst m \<or> snd m + fall < x)
         \<longrightarrow> held ps x (op (VInt 0)))"
proof -
  let ?f = "flash_pts spans peak rise fall" and ?ms = "merge (rise + fall) spans"
  have "snd (last (rules (flash name spans peak rise fall K))) = ?f"
    using flash_sorted [OF assms(1-3)] by (simp add: flash_def kf_sorted)
  then have ps: "padded D name ?f = Inr ps" using assms(4) by simp
  have "last ?f = (0, op (VInt 0)) \<or> (\<exists>m \<in> set ?ms. last ?f = (snd m + fall, op (VInt 0)))"
    unfolding flash_pts_blocks by (cases ?ms rule: rev_cases) (simp_all add: flash_block_def [abs_def])
  then have "fst (last ?f) < D" and "snd (last ?f) = op (VInt 0)" using assms(5,6) by auto
  then have eq: "ps = ?f @ [(D, op (VInt 0))]"
    using ps by (simp add: padded_def Let_def flash_pts_def split: if_splits)
  have "held ps x (op peak)" if "sp \<in> set spans" "fst sp + rise \<le> x" "x \<le> snd sp" for sp x
    using flash_lit [OF that] by (simp add: eq held_appendI1)
  moreover have "held ps x (op (VInt 0))"
    if "0 \<le> x" "x \<le> D" "\<forall>m \<in> set ?ms. x < fst m \<or> snd m + fall < x" for x
    using flash_dark_from [OF that, of peak rise] by (simp add: eq flash_pts_blocks)
  ultimately show ?thesis by blast
qed

theorem flash_shows_spans_witness:
  "held [(0, op (VInt 0)), (1, op (VInt 0)), (112 / 100, op (VInt 1)), (3, op (VInt 1)),
      (325 / 100, op (VInt 0)), (8, op (VInt 0))] 2 (op (VInt 1))"
proof -
  let ?K = "\<lparr>loop_D = 8, rules = [], LEGEND = [], elements = []\<rparr>"
  let ?ps = "[(0, op (VInt 0)), (1, op (VInt 0)), (112 / 100, op (VInt 1)), (3, op (VInt 1)),
      (325 / 100, op (VInt 0)), (8, op (VInt 0))]"
  have p: "padded 8 ''f'' (snd (last (rules (flash ''f'' [(1, 2), (21 / 10, 3)] (VInt 1) (12 / 100) (25 / 100) ?K)))) = Inr ?ps"
    by code_simp
  have m: "merge (12 / 100 + 25 / 100) [(1, 2), (21 / 10, 3)] = [(1, 3)]" by code_simp
  show ?thesis
    using flash_shows_spans [of "12 / 100" "[(1, 2), (21 / 10, 3)]" "25 / 100" 8 "''f''" "VInt 1" "?K" "?ps"] p
    by (auto simp: m)
qed

text \<open>C29: pulses coalesce as in a signal channel with one slot: of the trigger times, \<open>ring\<close> keeps
  some at least \<open>gap\<close> apart, every trigger falls less than \<open>gap\<close> after a kept one, and with the
  gap of a pulse or more the stored keyframes are exactly the kept pulses, in order.\<close>

theorem ring_coalesces:
  assumes "0 < gap" and "gap \<le> 9" and "\<forall>t \<in> set tms. 0 \<le> t"
  shows "\<exists>ks. set ks \<subseteq> set tms \<and> successively (\<lambda>a b. a + gap \<le> b) ks
    \<and> (\<forall>t \<in> set tms. \<exists>k \<in> set ks. k \<le> t \<and> t < k + gap)
    \<and> (6 / 10 \<le> gap \<longrightarrow> snd (last (rules (ring name tms gap K))) =
         (0, op_tr (VInt 0) ''scale(1)'') # concat (map pulse_pts ks))"
proof -
  let ?ks = "ring_kept gap (-9) (sort tms)"
  have sub: "set ?ks \<subseteq> set tms" using ring_kept_subset [of gap "-9" "sort tms"] by simp
  have sp: "successively (\<lambda>a b. a + gap \<le> b) ((-9) # ?ks)" by (rule ring_kept_spaced)
  have cov: "\<exists>k \<in> set ?ks. k \<le> t \<and> t < k + gap" if "t \<in> set tms" for t
    using ring_kept_covers [of "sort tms" t "-9" gap] that assms by force
  have "snd (last (rules (ring name tms gap K))) =
      (0, op_tr (VInt 0) ''scale(1)'') # concat (map pulse_pts ?ks)" if g: "6 / 10 \<le> gap"
  proof -
    have so: "sorted (map fst (concat (map pulse_pts ?ks)))"
      using pulses_sorted [OF _ g, of ?ks] sp by (cases ?ks) auto
    have "0 \<le> fst p" if "p \<in> set (concat (map pulse_pts ?ks))" for p
      using that sub assms(3) by (force simp: pulse_pts_def)
    with so have "sorted (map fst ((0, op_tr (VInt 0) ''scale(1)'') # concat (map pulse_pts ?ks)))"
      by auto
    from sort_key_sorted [OF this] show ?thesis by (simp only: ring_def kf_sorted ring_loop_kept) simp
  qed
  moreover have "successively (\<lambda>a b. a + gap \<le> b) ?ks" using sp by (cases ?ks) auto
  ultimately show ?thesis using sub cov by blast
qed

theorem ring_coalesces_witness:
  "\<exists>ks. set ks \<subseteq> {1, 12 / 10, 3} \<and> (\<exists>k \<in> set ks. k \<le> 12 / 10 \<and> 12 / 10 < k + (6 / 10 :: rat))"
  using ring_coalesces [of "6 / 10" "[3, 1, 12 / 10]" "''ring''"] by fastforce

text \<open>C30: \<open>bar\<close> fails exactly when a span starts before the previous one has ended, and otherwise
  reaches, at the end of every span, that span's fill fraction.\<close>

theorem bar_fails_iff_overlap:
  "(\<not> successively (\<lambda>a b. fst (snd a) \<le> fst b) (bar_spans spans) \<longrightarrow> bar name spans K = Inl AssertionError)
   \<and> (successively (\<lambda>a b. fst (snd a) \<le> fst b) (bar_spans spans) \<longrightarrow>
       (\<exists>K'. bar name spans K = Inr K' \<and>
         (\<forall>(s, e, f) \<in> set (bar_spans spans). (e, scaleX f) \<in> set (snd (last (rules K'))))))"
proof (cases "bar_loop (bar_spans spans)")
  case (Inl e)
  with bar_loop_error [OF Inl] show ?thesis using bar_loop_ok [of "bar_spans spans"] by (simp add: bar_def)
next
  case (Inr ps)
  then show ?thesis using bar_loop_ok [of "bar_spans spans"] bar_loop_ends [OF Inr]
    by (auto simp: bar_def kf_sorted set_insort_key)
qed

theorem bar_fails_iff_overlap_witness:
  "bar ''t'' [(1, 3, None), (2, 5, Some (1 / 2))] \<lparr>loop_D = 16, rules = [], LEGEND = [], elements = []\<rparr>
     = Inl AssertionError"
proof -
  have "bar_spans [(1, 3, None), (2, 5, Some (1 / 2))] = [(1, 3, 1), (2, 5, 1 / 2)]" by code_simp
  then show ?thesis
    using bar_fails_iff_overlap [of "[(1, 3, None), (2, 5, Some (1 / 2))]" "''t''"
        "\<lparr>loop_D = 16, rules = [], LEGEND = [], elements = []\<rparr>"] by simp
qed

text \<open>C26: of the \<open>n\<close> elements that \<open>states\<close> draws, once a change has faded in and until the next
  one exactly the current state's element has opacity 1 and every other has 0; the store gets one
  rule per element, in order.\<close>

theorem states_exclusive:
  assumes "states pre changes n fade K = Inr K'" and "spaced fade (sort changes)" and "0 \<le> fade"
    and "\<forall>c \<in> set changes. fst c + fade < D" and "settled fade D (sort changes) x j" and "k < n"
    and "padded D name (snd (rules K' ! (length (rules K) + k))) = Inr ps"
  shows "held ps x (op (VInt (if k = j then 1 else 0))) \<and> length (rules K') = length (rules K) + n
    \<and> fst (rules K' ! (length (rules K) + k)) = pre @ show_nat k"
proof -
  let ?cs = "sort changes"
  have ne: "?cs \<noteq> []" and zero: "fst (hd ?cs) = 0"
    and K': "K' = fold (\<lambda>k K. kf (pre @ show_nat k) (states_loop k fade None ?cs) K) [0..<n] K"
    using assms(1) by (auto simp: states_def Let_def split: if_splits)
  then have rules: "rules K' = rules K @
      map (\<lambda>k. (pre @ show_nat k, sort_key fst (states_loop k fade None ?cs))) [0..<n]"
    by (simp add: states_rules)
  obtain i cs' where cs: "?cs = (0, i) # cs'"
    using ne zero by (metis list.exhaust_sel prod.collapse)
  have D: "\<forall>c \<in> set ?cs. fst c + fade < D" using assms(4) by simp
  have "snd (rules K' ! (length (rules K) + k)) = sort_key fst (states_loop k fade None ?cs)"
    using assms(6) by (simp add: rules)
  with states_track_exclusive [OF cs assms(2,3) D assms(5), of name k ps] assms(7)
  have "held ps x (op (VInt (on_off k j)))" by simp
  then show ?thesis using assms(6) by (simp add: rules on_off_def eq_commute [of j k])
qed

theorem states_exclusive_witness:
  "held [(0, op (VInt 1)), (2, op (VInt 1)), (208 / 100, op (VInt 0)), (5, op (VInt 0)),
     (508 / 100, op (VInt 1)), (16, op (VInt 1))] 4 (op (VInt 0))"
proof -
  let ?K = "\<lparr>loop_D = 16, rules = [], LEGEND = [], elements = []\<rparr>"
  let ?ps = "[(0, op (VInt 1)), (2, op (VInt 1)), (208 / 100, op (VInt 0)), (5, op (VInt 0)),
     (508 / 100, op (VInt 1)), (16, op (VInt 1))]"
  have so: "sort [(0, 0), (2, 1), (5, 0)] = [(0, 0), (2, 1), (5 :: rat, 0 :: nat)]" by code_simp
  obtain K' where K': "states ''st'' [(0, 0), (2, 1), (5, 0)] 2 (8 / 100) ?K = Inr K'"
    by (simp only: states_def so Let_def list.simps list.sel fst_conv simp_thms if_True)
  have "rbind (states ''st'' [(0, 0), (2, 1), (5, 0)] 2 (8 / 100) ?K)
      (\<lambda>K'. padded 16 ''st0'' (snd (rules K' ! 0))) = Inr ?ps"
    by code_simp
  then have "padded 16 ''st0'' (snd (rules K' ! (length (rules ?K) + 0))) = Inr ?ps"
    by (simp only: K' rbind_simps) simp
  from states_exclusive [OF K' _ _ _ _ _ this, of 4 1] so show ?thesis by (simp add: spaced_def)
qed

end
