(* ===== verification/Walks.thy ===== *)
theory Walks
  imports Keyframes
begin

text \<open>
  Dots on edges: the class \<open>Path\<close> of \<open>kfu.py\<close> and the functions \<open>path_len\<close> / \<open>plen\<close>, \<open>travel\<close>
  and \<open>walk\<close> of the four generators. All of them move at constant speed along axis-parallel
  segments; the lemmas show that the keyframes of a path show where the dot is at each call's end,
  that the time a walk returns is its start plus length over speed, and that keyframes never go
  back in time.
\<close>

section \<open>kfu.Path\<close>

record path =
  path_t :: rat
  path_x :: rat
  path_y :: rat
  path_v :: rat
  path_pts :: "point list"
  path_op :: cssv

definition Path :: "rat \<Rightarrow> rat \<Rightarrow> rat \<Rightarrow> rat \<Rightarrow> string option \<Rightarrow> path" where
  "Path t x y speed fill =
     \<lparr>path_t = t, path_x = x, path_y = y, path_v = speed,
      path_pts = [at_pt t x y (VInt 0) fill], path_op = VInt 0\<rparr>"

definition path_to :: "rat \<Rightarrow> rat \<Rightarrow> cssv option \<Rightarrow> string option \<Rightarrow> path \<Rightarrow> path res" where
  "path_to x y opv fill p =
     (if path_v p = 0 then Inl ZeroDivisionError
      else
        let t = path_t p + (\<bar>x - path_x p\<bar> + \<bar>y - path_y p\<bar>) / path_v p;
            o1 = (case opv of None \<Rightarrow> path_op p | Some v \<Rightarrow> v)
        in Inr (p\<lparr>path_t := t, path_x := x, path_y := y, path_op := o1,
                  path_pts := path_pts p @ [at_pt t x y o1 fill]\<rparr>))"

definition path_wait :: "rat \<Rightarrow> cssv option \<Rightarrow> string option \<Rightarrow> path \<Rightarrow> path res" where
  "path_wait dt opv fill p =
     (let t = path_t p + dt; o1 = (case opv of None \<Rightarrow> path_op p | Some v \<Rightarrow> v)
      in Inr (p\<lparr>path_t := t, path_op := o1,
                path_pts := path_pts p @ [at_pt t (path_x p) (path_y p) o1 fill]\<rparr>))"

text \<open>A chain of calls, as the generators write it: \<open>Path(...).to(...).wait(...)\<close>.\<close>

datatype move = To rat rat "cssv option" "string option" | Wait rat "cssv option" "string option"

fun path_move :: "move \<Rightarrow> path \<Rightarrow> path res" where
  "path_move (To x y opv fill) p = path_to x y opv fill p"
| "path_move (Wait dt opv fill) p = path_wait dt opv fill p"

text \<open>How long the calls take at speed \<open>v\<close> from (x, y), and whether a wait goes back in time.\<close>

fun path_time :: "rat \<Rightarrow> rat \<Rightarrow> rat \<Rightarrow> move list \<Rightarrow> rat" where
  "path_time v x y [] = 0"
| "path_time v x y (To x' y' _ _ # ms) = (\<bar>x' - x\<bar> + \<bar>y' - y\<bar>) / v + path_time v x' y' ms"
| "path_time v x y (Wait dt _ _ # ms) = dt + path_time v x y ms"

definition forward :: "move \<Rightarrow> bool" where
  "forward m = (case m of Wait dt _ _ \<Rightarrow> 0 \<le> dt | _ \<Rightarrow> True)"

definition path_inv :: "path \<Rightarrow> bool" where
  "path_inv p \<longleftrightarrow> path_pts p \<noteq> [] \<and> sorted (map fst (path_pts p))
     \<and> fst (last (path_pts p)) = py_round 3 (path_t p)"

lemma fst_at_pt [simp]: "fst (at_pt t x y opv fill) = py_round 3 t"
  by (simp add: at_pt_def)

lemma sorted_snoc_last:
  "sorted xs \<Longrightarrow> xs \<noteq> [] \<Longrightarrow> last xs \<le> (z :: 'a :: linorder) \<Longrightarrow> sorted (xs @ [z])"
  using sorted_key_last [of "\<lambda>x. x" xs] by (auto simp: sorted_append intro: order_trans)

lemma path_inv_snoc:
  assumes "path_inv p" and "path_t p \<le> t" and "path_pts q = path_pts p @ [at_pt t x y opv fill]"
    and "path_t q = t"
  shows "path_inv q"
  using assms py_round_mono [OF assms(2), of 3] sorted_snoc_last [of "map fst (path_pts p)" "py_round 3 t"]
  by (simp add: path_inv_def last_map)

lemma path_move_inv:
  assumes "path_move m p = Inr q" and "path_inv p" and "0 < path_v p" and "forward m"
  shows "path_inv q \<and> path_v q = path_v p"
proof (cases m)
  case (To x y opv fill)
  let ?t = "path_t p + (\<bar>x - path_x p\<bar> + \<bar>y - path_y p\<bar>) / path_v p"
  have "path_t p \<le> ?t" using assms(3) by simp
  with To assms show ?thesis
    by (auto simp: path_to_def Let_def intro!: path_inv_snoc [OF assms(2), of ?t])
next
  case (Wait dt opv fill)
  with assms show ?thesis
    by (auto simp: path_wait_def Let_def forward_def intro!: path_inv_snoc [OF assms(2), of "path_t p + dt"])
qed

text \<open>
  What a chain of calls should do: a stop is where the dot is, when, and how opaque. A \<open>to\<close> brings it
  to the named point at the speed, a \<open>wait\<close> leaves it where it is, and both change the opacity only
  when told. A keyframe shows a stop when it has its time, place, opacity and colour.
\<close>

type_synonym stop = "rat \<times> rat \<times> rat \<times> cssv"

fun leg_ok :: "rat \<Rightarrow> move \<Rightarrow> stop \<Rightarrow> stop \<Rightarrow> bool" where
  "leg_ok v (To X Y opv _) (t, x, y, o1) (t', x', y', o') \<longleftrightarrow>
     (x', y') = (X, Y) \<and> v * (t' - t) = \<bar>X - x\<bar> + \<bar>Y - y\<bar> \<and> o' = (case opv of None \<Rightarrow> o1 | Some a \<Rightarrow> a)"
| "leg_ok v (Wait dt opv _) (t, x, y, o1) (t', x', y', o') \<longleftrightarrow>
     (x', y') = (x, y) \<and> t' - t = dt \<and> o' = (case opv of None \<Rightarrow> o1 | Some a \<Rightarrow> a)"

fun move_fill :: "move \<Rightarrow> string option" where
  "move_fill (To _ _ _ f) = f"
| "move_fill (Wait _ _ f) = f"

fun shows_stop :: "point \<Rightarrow> stop \<Rightarrow> string option \<Rightarrow> bool" where
  "shows_stop (s, ps) (t, x, y, o1) f \<longleftrightarrow> s = py_round 3 t \<and> dget ps ''opacity'' = Some o1
     \<and> dget ps ''transform'' = Some (VStr (''translate('' @ fmt_g x @ ''px, '' @ fmt_g y @ ''px)''))
     \<and> dget ps ''fill'' = (case f of None \<Rightarrow> None | Some c \<Rightarrow> if c = [] then None else Some (VStr c))"

definition path_stop :: "path \<Rightarrow> stop" where
  "path_stop p = (path_t p, path_x p, path_y p, path_op p)"

lemma shows_at_pt [simp]: "shows_stop (at_pt t x y o1 f) (t, x, y, o1) f"
  by (simp add: at_pt_def op_tr_def tr_def split: option.split)

text \<open>One call is one leg and one keyframe.\<close>

lemma path_move_step:
  assumes "path_v p \<noteq> 0"
  shows "\<exists>q. path_move m p = Inr q \<and> leg_ok (path_v p) m (path_stop p) (path_stop q) \<and> path_v q = path_v p
    \<and> path_pts q = path_pts p @ [last (path_pts q)] \<and> shows_stop (last (path_pts q)) (path_stop q) (move_fill m)
    \<and> path_t q + path_time (path_v p) (path_x q) (path_y q) ms =
        path_t p + path_time (path_v p) (path_x p) (path_y p) (m # ms)"
  using assms by (cases m) (simp_all add: path_to_def path_wait_def path_stop_def Let_def)

lemma path_run:
  assumes "0 < path_v p" and "path_inv p" and "\<forall>m \<in> set ms. forward m"
  shows "\<exists>q st ks. rfold path_move ms p = Inr q \<and> path_inv q
    \<and> path_t q = path_t p + path_time (path_v p) (path_x p) (path_y p) ms
    \<and> path_pts q = path_pts p @ ks \<and> length ks = length ms \<and> length st = length ms
    \<and> last (path_stop p # st) = path_stop q
    \<and> (\<forall>i < length ms. leg_ok (path_v p) (ms ! i) ((path_stop p # st) ! i) (st ! i)
         \<and> shows_stop (ks ! i) (st ! i) (move_fill (ms ! i)))"
  using assms
proof (induction ms arbitrary: p)
  case (Cons m ms)
  obtain p1 k where p1: "path_move m p = Inr p1" "leg_ok (path_v p) m (path_stop p) (path_stop p1)"
    "path_pts p1 = path_pts p @ [k]" "shows_stop k (path_stop p1) (move_fill m)"
    "path_t p1 + path_time (path_v p) (path_x p1) (path_y p1) ms =
      path_t p + path_time (path_v p) (path_x p) (path_y p) (m # ms)"
    using path_move_step [of p m ms] Cons.prems(1) by (metis less_irrefl)
  have inv: "path_inv p1" "path_v p1 = path_v p"
    using path_move_inv [OF p1(1) Cons.prems(2,1)] Cons.prems(3) by auto
  then obtain q st ks where q: "rfold path_move ms p1 = Inr q" "path_inv q"
    "path_t q = path_t p1 + path_time (path_v p) (path_x p1) (path_y p1) ms"
    "path_pts q = path_pts p1 @ ks" "length ks = length ms" "length st = length ms"
    "last (path_stop p1 # st) = path_stop q"
    "\<forall>i < length ms. leg_ok (path_v p) (ms ! i) ((path_stop p1 # st) ! i) (st ! i)
       \<and> shows_stop (ks ! i) (st ! i) (move_fill (ms ! i))"
    using Cons.IH [of p1] Cons.prems by auto
  have "leg_ok (path_v p) ((m # ms) ! i) ((path_stop p # path_stop p1 # st) ! i) ((path_stop p1 # st) ! i)
      \<and> shows_stop ((k # ks) ! i) ((path_stop p1 # st) ! i) (move_fill ((m # ms) ! i))"
    if "i < length (m # ms)" for i
    using q(8) p1(2,4) that by (cases i) simp_all
  then show ?case
    using q(1-7) p1(1,3,5) by (intro exI [of _ q] exI [of _ "path_stop p1 # st"] exI [of _ "k # ks"]) simp
qed simp

section \<open>The generators' walks\<close>

text \<open>\<open>gen_ack.path_len\<close>, \<open>gen_wake.plen\<close> and \<open>gen_close.plen\<close> are the same sum.\<close>

fun plen :: "(rat \<times> rat) list \<Rightarrow> rat" where
  "plen ((x0, y0) # (x1, y1) # ps) = \<bar>x1 - x0\<bar> + \<bar>y1 - y0\<bar> + plen ((x1, y1) # ps)"
| "plen ps = 0"

definition travel :: "(rat \<times> rat) list \<Rightarrow> rat \<Rightarrow> rat" where
  "travel pts v = 5 / 100 + plen pts / v"

text \<open>The loop over the legs: each leg adds its time and one visible keyframe at its end.\<close>

fun walk_legs :: "rat \<Rightarrow> rat \<Rightarrow> rat \<Rightarrow> rat \<Rightarrow> (rat \<times> rat) list \<Rightarrow> rat \<times> rat \<times> rat \<times> point list" where
  "walk_legs v t x y [] = (t, x, y, [])"
| "walk_legs v t x y ((nx, ny) # ps) =
     (let t1 = t + (\<bar>nx - x\<bar> + \<bar>ny - y\<bar>) / v; (t2, x2, y2, out) = walk_legs v t1 nx ny ps
      in (t2, x2, y2, at_pt t1 nx ny (VInt 1) None # out))"

text \<open>
  \<open>gen_ack.walk\<close>, \<open>gen_close.walk\<close> and \<open>gen_dead.walk\<close>: fade in for .05 s, walk, fade out.
  (gen_ack fixes the speed to DOT_V, gen_dead defaults it to 300.)
\<close>

definition walk :: "string \<Rightarrow> rat \<Rightarrow> (rat \<times> rat) list \<Rightarrow> rat \<Rightarrow> kfu \<Rightarrow> (rat \<times> kfu) res" where
  "walk name t pts v K =
     (case pts of [] \<Rightarrow> Inl IndexError
      | (x, y) # ps \<Rightarrow>
        if v = 0 \<and> ps \<noteq> [] then Inl ZeroDivisionError
        else
          let (t2, x2, y2, out) = walk_legs v (t + 5 / 100) x y ps
          in Inr (t2, kf name ([at_pt t x y (VInt 0) None, at_pt (t + 5 / 100) x y (VInt 1) None] @ out
                               @ [at_pt (t2 + 5 / 100) x2 y2 (VInt 0) None]) K))"

text \<open>\<open>gen_wake.walk\<close>: fade in for .04 s, an optional hold at the end, and the final opacity.\<close>

definition walk_wake :: "string \<Rightarrow> rat \<Rightarrow> (rat \<times> rat) list \<Rightarrow> rat \<Rightarrow> cssv \<Rightarrow> rat \<Rightarrow> kfu \<Rightarrow> (rat \<times> kfu) res" where
  "walk_wake name t pts v end_op hold K =
     (case pts of [] \<Rightarrow> Inl IndexError
      | (x, y) # ps \<Rightarrow>
        if v = 0 \<and> ps \<noteq> [] then Inl ZeroDivisionError
        else
          let (t2, x2, y2, out) = walk_legs v (t + 4 / 100) x y ps;
              held = (if hold = 0 then [] else [at_pt (t2 + hold) x2 y2 (VInt 1) None])
          in Inr (t2, kf name ([at_pt t x y (VInt 0) None, at_pt (t + 4 / 100) x y (VInt 1) None] @ out
                               @ held @ [at_pt (t2 + hold + 12 / 100) x2 y2 end_op None]) K))"

lemma plen_nonneg [simp]: "0 \<le> plen ps"
  by (induction ps rule: plen.induct) auto

lemma walk_legs_time:
  "walk_legs v t x y ps = (t2, x2, y2, out) \<Longrightarrow>
     t2 = t + plen ((x, y) # ps) / v \<and> (x2, y2) = last ((x, y) # ps) \<and> length out = length ps"
proof (induction ps arbitrary: t x y t2 x2 y2 out)
  case (Cons n ps)
  obtain nx ny where n: "n = (nx, ny)" by force
  let ?t1 = "t + (\<bar>nx - x\<bar> + \<bar>ny - y\<bar>) / v"
  obtain out1 where w: "walk_legs v ?t1 nx ny ps = (t2, x2, y2, out1)"
    and out: "out = at_pt ?t1 nx ny (VInt 1) None # out1"
    using Cons.prems n by (auto simp: Let_def split: prod.splits)
  have "t2 = ?t1 + plen ((nx, ny) # ps) / v" and "(x2, y2) = last ((nx, ny) # ps)"
    and "length out1 = length ps"
    using Cons.IH [OF w] by blast+
  then show ?case by (simp add: n out add_divide_distrib)
qed simp

lemma walk_legs_sorted:
  assumes "0 < v" and "walk_legs v t x y ps = (t2, x2, y2, out)"
  shows "sorted (map fst out) \<and> (\<forall>p \<in> set out. py_round 3 t \<le> fst p \<and> fst p \<le> py_round 3 t2) \<and> t \<le> t2"
  using assms(2)
proof (induction ps arbitrary: t x y t2 x2 y2 out)
  case (Cons n ps)
  obtain nx ny where n: "n = (nx, ny)" by force
  let ?t1 = "t + (\<bar>nx - x\<bar> + \<bar>ny - y\<bar>) / v"
  obtain out1 where w: "walk_legs v ?t1 nx ny ps = (t2, x2, y2, out1)"
    and out: "out = at_pt ?t1 nx ny (VInt 1) None # out1"
    using Cons.prems n by (auto simp: Let_def split: prod.splits)
  have "t \<le> ?t1" using assms(1) by simp
  moreover from this have "py_round 3 t \<le> py_round 3 ?t1" by (rule py_round_mono)
  moreover have "py_round 3 ?t1 \<le> py_round 3 t2" using Cons.IH [OF w] by (intro py_round_mono) simp
  ultimately show ?case using Cons.IH [OF w] out by (auto intro: order_trans)
qed simp

section \<open>Properties\<close>

text \<open>C32: a chain of \<open>Path\<close> calls moves at constant speed and never fails: there is a stop for the start and
  one for every call, each leg to its point taking the distance over the speed and each wait its time
  at the point reached, and the keyframes show exactly these stops, in order: their times, places,
  opacities and colours. The clock ends at the last stop, the start plus all the travel and waiting,
  and the keyframes never go back in time.\<close>

theorem path_constant_speed:
  assumes "0 < speed" and "\<forall>m \<in> set ms. forward m"
  shows "\<exists>q st. rfold path_move ms (Path t x y speed fill) = Inr q
    \<and> length st = Suc (length ms) \<and> st ! 0 = (t, x, y, VInt 0) \<and> last st = (path_t q, path_x q, path_y q, path_op q)
    \<and> (\<forall>i < length ms. leg_ok speed (ms ! i) (st ! i) (st ! Suc i))
    \<and> (\<forall>i < Suc (length ms). shows_stop (path_pts q ! i) (st ! i) ((fill # map move_fill ms) ! i))
    \<and> path_t q = t + path_time speed x y ms \<and> length (path_pts q) = Suc (length ms)
    \<and> sorted (map fst (path_pts q)) \<and> fst (last (path_pts q)) = py_round 3 (path_t q)"
proof -
  let ?p = "Path t x y speed fill" and ?k = "at_pt t x y (VInt 0) fill"
  have p: "path_v ?p = speed" "path_inv ?p" "path_pts ?p = [?k]" "path_stop ?p = (t, x, y, VInt 0)"
    "path_t ?p = t" "path_x ?p = x" "path_y ?p = y"
    by (simp_all add: Path_def path_inv_def path_stop_def)
  from path_run [of ?p ms, OF _ p(2) assms(2), unfolded p append_Cons append_Nil, OF assms(1)]
  obtain q st ks where q: "rfold path_move ms ?p = Inr q" "path_inv q"
    "path_t q = t + path_time speed x y ms" "path_pts q = ?k # ks" "length ks = length ms" "length st = length ms"
    "last ((t, x, y, VInt 0) # st) = path_stop q"
    and leg: "\<forall>i < length ms. leg_ok speed (ms ! i) (((t, x, y, VInt 0) # st) ! i) (st ! i)
         \<and> shows_stop (ks ! i) (st ! i) (move_fill (ms ! i))"
    by blast
  have "shows_stop (path_pts q ! i) (((t, x, y, VInt 0) # st) ! i) ((fill # map move_fill ms) ! i)"
    if "i < Suc (length ms)" for i
    using leg that by (cases i) (simp_all add: q(4))
  with q leg show ?thesis
    by (intro exI [of _ q] exI [of _ "(t, x, y, VInt 0) # st"]) (simp add: path_inv_def path_stop_def)
qed

theorem path_constant_speed_witness:
  "\<exists>q. rfold path_move [To 10 0 (Some (VInt 1)) None, To 10 5 None None] (Path 0 0 0 10 None) = Inr q
    \<and> path_t q = 3 / 2 \<and> path_x q = 10 \<and> path_y q = 5 \<and> path_op q = VInt 1
    \<and> fst (path_pts q ! 1) = 1 \<and> dget (snd (path_pts q ! 1)) ''transform'' = Some (VStr ''translate(10px, 0px)'')"
proof -
  let ?ms = "[To 10 0 (Some (VInt 1)) None, To 10 5 None None]"
  have "path_time 10 0 0 ?ms = 3 / 2" by simp
  with path_constant_speed [of 10 ?ms 0 0 0 None] obtain q st where q: "rfold path_move ?ms (Path 0 0 0 10 None) = Inr q"
    "length st = 3" "st ! 0 = (0, 0, 0, VInt 0)" "last st = (path_t q, path_x q, path_y q, path_op q)"
    "\<forall>i < 2. leg_ok 10 (?ms ! i) (st ! i) (st ! Suc i)"
    "\<forall>i < 3. shows_stop (path_pts q ! i) (st ! i) ((None # map move_fill ?ms) ! i)" "path_t q = 3 / 2"
    by (auto simp: forward_def numeral_3_eq_3 simp del: rfold.simps)
  have l: "leg_ok 10 (?ms ! 0) (st ! 0) (st ! 1)" "leg_ok 10 (?ms ! 1) (st ! 1) (st ! 2)"
    "shows_stop (path_pts q ! 1) (st ! 1) None"
    using q(5) [rule_format, of 0] q(5) [rule_format, of 1] q(6) [rule_format, of 1] by (simp_all add: numeral_2_eq_2)
  from l(1) q(3) have s1: "st ! 1 = (1, 10, 0, VInt 1)" by (cases "st ! 1") simp
  from l(2) s1 have s2: "st ! 2 = (3 / 2, 10, 5, VInt 1)" by (cases "st ! 2") simp
  have "last st = st ! 2" using q(2) by (subst last_conv_nth) auto
  with s2 q(4) have "path_x q = 10" "path_y q = 5" "path_op q = VInt 1" by simp_all
  moreover have tr: "''translate('' @ fmt_g 10 @ ''px, '' @ fmt_g 0 @ ''px)'' = ''translate(10px, 0px)''" by code_simp
  have "py_round 3 1 = 1" using py_round_of_int [of 3 1] by simp
  with l(3) s1 have "fst (path_pts q ! 1) = 1"
      "dget (snd (path_pts q ! 1)) ''transform'' = Some (VStr ''translate(10px, 0px)'')"
    unfolding tr [symmetric] by (cases "path_pts q ! 1"; simp)+
  ultimately show ?thesis using q(1,7) by (intro exI [of _ q] conjI)
qed

text \<open>C31: the arrival time a generator's \<open>walk\<close> returns, on which its invariants rest, is the start
  plus \<open>travel\<close>, the fade-in plus the length over the speed, and the keyframes it stores never go
  back in time and end .05 s after the arrival.\<close>

theorem walk_arrives:
  assumes "0 < v" and "pts \<noteq> []"
  shows "\<exists>ps K'. walk name t pts v K = Inr (t + travel pts v, K')
    \<and> rules K' = rules K @ [(name, ps)] \<and> sorted (map fst ps) \<and> length ps = length pts + 2
    \<and> fst (hd ps) = py_round 3 t \<and> fst (last ps) = py_round 3 (t + travel pts v + 5 / 100)"
proof -
  obtain x y qs where pts: "pts = (x, y) # qs" using assms(2) by (cases pts) auto
  obtain t2 x2 y2 out where w: "walk_legs v (t + 5 / 100) x y qs = (t2, x2, y2, out)"
    by (metis prod.exhaust)
  let ?ps = "[at_pt t x y (VInt 0) None, at_pt (t + 5 / 100) x y (VInt 1) None] @ out
      @ [at_pt (t2 + 5 / 100) x2 y2 (VInt 0) None]"
  have so: "sorted (map fst out)" "t + 5 / 100 \<le> t2"
    and bd: "\<forall>p \<in> set out. py_round 3 (t + 5 / 100) \<le> fst p \<and> fst p \<le> py_round 3 t2"
    using walk_legs_sorted [OF assms(1) w] by auto
  have r: "py_round 3 t \<le> py_round 3 (t + 5 / 100)" "py_round 3 t2 \<le> py_round 3 (t2 + 5 / 100)"
    "py_round 3 (t + 5 / 100) \<le> py_round 3 t2"
    using so(2) by (simp_all add: py_round_mono)
  have "sorted (map fst ?ps)"
    using so(1) bd r by (fastforce simp: sorted_append)
  then have "sort_key fst ?ps = ?ps" by (rule sort_key_sorted)
  then have "walk name t pts v K = Inr (t2, K\<lparr>rules := rules K @ [(name, ?ps)]\<rparr>)"
    using assms(1) by (simp only: walk_def pts list.case prod.case w Let_def kf_def) simp
  moreover have "t2 = t + travel pts v" "length out = length qs"
    using walk_legs_time [OF w] by (simp_all add: travel_def pts)
  moreover note \<open>sorted (map fst ?ps)\<close>
  ultimately show ?thesis
    by (intro exI [of _ "?ps"] exI [of _ "K\<lparr>rules := rules K @ [(name, ?ps)]\<rparr>"]) (simp add: pts)
qed

theorem walk_arrives_witness:
  "\<exists>K'. walk ''gd0'' 1 [(470, 165), (740, 165)] 540 \<lparr>loop_D = 16, rules = [], LEGEND = [], elements = []\<rparr> =
     Inr (155 / 100, K')"
proof -
  have "1 + travel [(470, 165), (740, 165)] 540 = 155 / 100" by (simp add: travel_def)
  then show ?thesis
    using walk_arrives [of 540 "[(470, 165), (740, 165)]" "''gd0''" 1
        "\<lparr>loop_D = 16, rules = [], LEGEND = [], elements = []\<rparr>"] by auto
qed

end
