(* ===== verification/Heapq.thy ===== *)
theory Heapq
  imports Prelude
begin

text \<open>
  The event queue of the simulations. The generators push tuples \<open>(time, number, kind, args)\<close> with
  \<open>heapq.heappush\<close> and take the least with \<open>heapq.heappop\<close>; the number comes from a counter, so
  two entries never compare equal and events of one instant come in the order they were pushed.
  The locale \<open>event_queue\<close> is what the simulation loops rely on; the model of \<open>heapq\<close> is the list
  of entries in order, which interprets it.
\<close>

section \<open>The key of an entry\<close>

datatype 't stamp = Stamp (stime: 't) (snum: nat)

instantiation stamp :: (linorder) linorder
begin

definition less_eq_stamp :: "'a stamp \<Rightarrow> 'a stamp \<Rightarrow> bool" where
  "less_eq_stamp a b \<longleftrightarrow> stime a < stime b \<or> (stime a = stime b \<and> snum a \<le> snum b)"

definition less_stamp :: "'a stamp \<Rightarrow> 'a stamp \<Rightarrow> bool" where
  "less_stamp a b \<longleftrightarrow> stime a < stime b \<or> (stime a = stime b \<and> snum a < snum b)"

instance
  by standard (auto simp: less_eq_stamp_def less_stamp_def stamp.expand)

end

lemma stamp_le_time: "a \<le> b \<Longrightarrow> stime a \<le> stime b"
  by (auto simp: less_eq_stamp_def)

section \<open>The interface\<close>

locale event_queue =
  fixes push :: "('k :: linorder) \<times> 'e \<Rightarrow> 'q \<Rightarrow> 'q"
    and pop :: "'q \<Rightarrow> (('k \<times> 'e) \<times> 'q) option"
    and entries :: "'q \<Rightarrow> ('k \<times> 'e) multiset"
    and ok :: "'q \<Rightarrow> bool"
  assumes ok_push: "ok q \<Longrightarrow> ok (push x q)"
    and entries_push: "entries (push x q) = add_mset x (entries q)"
    and pop_None: "ok q \<Longrightarrow> pop q = None \<longleftrightarrow> entries q = {#}"
    and ok_pop: "ok q \<Longrightarrow> pop q = Some (x, q') \<Longrightarrow> ok q'"
    and entries_pop: "ok q \<Longrightarrow> pop q = Some (x, q') \<Longrightarrow> entries q = add_mset x (entries q')"
    and pop_least: "ok q \<Longrightarrow> pop q = Some (x, q') \<Longrightarrow> y \<in># entries q \<Longrightarrow> fst x \<le> fst y"

text \<open>Taking everything out, and pushing a list of entries.\<close>

fun drain :: "('q \<Rightarrow> ('x \<times> 'q) option) \<Rightarrow> nat \<Rightarrow> 'q \<Rightarrow> 'x list" where
  "drain pop 0 q = []"
| "drain pop (Suc n) q = (case pop q of None \<Rightarrow> [] | Some (x, q') \<Rightarrow> x # drain pop n q')"

context event_queue
begin

lemma pop_enough: "ok q \<Longrightarrow> entries q \<noteq> {#} \<Longrightarrow> \<exists>x q'. pop q = Some (x, q')"
  using pop_None by fastforce

lemma entries_fold_push: "entries (fold push xs q) = mset xs + entries q"
  by (induction xs arbitrary: q) (auto simp: entries_push)

lemma ok_fold_push: "ok q \<Longrightarrow> ok (fold push xs q)"
  by (induction xs arbitrary: q) (auto simp: ok_push)

text \<open>What comes out later was in the queue, or was pushed since: never earlier than what came out.\<close>

lemma pop_rest:
  assumes "ok q" and "pop q = Some (x, q')" and "y \<in># entries q'"
  shows "fst x \<le> fst y"
proof (rule pop_least [OF assms(1,2)])
  show "y \<in># entries q" using entries_pop [OF assms(1,2)] assms(3) by simp
qed

lemma drain_from: "ok q \<Longrightarrow> x \<in> set (drain pop n q) \<Longrightarrow> x \<in># entries q"
proof (induction n arbitrary: q)
  case (Suc n)
  then obtain y q' where y: "pop q = Some (y, q')" by (cases "pop q") auto
  with Suc.prems have "x = y \<or> x \<in> set (drain pop n q')" by auto
  with Suc.IH [of q'] ok_pop [OF Suc.prems(1) y] entries_pop [OF Suc.prems(1) y] show ?case by auto
qed simp

lemma drain_sorted: "ok q \<Longrightarrow> sorted (map fst (drain pop n q))"
proof (induction n arbitrary: q)
  case (Suc n)
  show ?case
  proof (cases "pop q")
    case (Some yq)
    then obtain y q' where y: "pop q = Some (y, q')" by (cases yq) auto
    have q': "ok q'" by (rule ok_pop [OF Suc.prems y])
    have "fst y \<le> fst x" if "x \<in> set (drain pop n q')" for x
      using pop_rest [OF Suc.prems y] drain_from [OF q' that] by simp
    with y Suc.IH [OF q'] show ?thesis by simp
  qed simp
qed simp

lemma drain_all: "ok q \<Longrightarrow> size (entries q) \<le> n \<Longrightarrow> mset (drain pop n q) = entries q"
proof (induction n arbitrary: q)
  case (Suc n)
  show ?case
  proof (cases "pop q")
    case None
    with pop_None [OF Suc.prems(1)] have "entries q = {#}" by simp
    with None show ?thesis by simp
  next
    case (Some xq)
    then obtain x q' where x: "pop q = Some (x, q')" by (cases xq) auto
    have e: "entries q = add_mset x (entries q')" by (rule entries_pop [OF Suc.prems(1) x])
    then have "size (entries q') \<le> n" using Suc.prems(2) by simp
    with Suc.IH [OF ok_pop [OF Suc.prems(1) x]] x e show ?thesis by simp
  qed
qed simp

end

section \<open>heapq\<close>

type_synonym ('t, 'e) heap = "('t stamp \<times> 'e) list"

definition heappush :: "('t :: linorder) stamp \<times> 'e \<Rightarrow> ('t, 'e) heap \<Rightarrow> ('t, 'e) heap" where
  "heappush x h = insort_key fst x h"

definition heappop :: "('t, 'e) heap \<Rightarrow> (('t stamp \<times> 'e) \<times> ('t, 'e) heap) option" where
  "heappop h = (case h of [] \<Rightarrow> None | x # h' \<Rightarrow> Some (x, h'))"

definition heap_ok :: "('t :: linorder, 'e) heap \<Rightarrow> bool" where
  "heap_ok h = sorted (map fst h)"

interpretation hq: event_queue heappush heappop mset heap_ok
proof (unfold_locales, goal_cases)
  case (1 q x) then show ?case by (simp add: heap_ok_def heappush_def sorted_insort_key)
next
  case (2 x q) show ?case by (simp add: heappush_def)
next
  case (3 q) then show ?case by (simp add: heappop_def split: list.splits)
next
  case (4 q x q') then show ?case by (auto simp: heap_ok_def heappop_def split: list.splits)
next
  case (5 q x q') then show ?case by (auto simp: heappop_def split: list.splits)
next
  case (6 q x q' y) then show ?case by (auto simp: heap_ok_def heappop_def split: list.splits)
qed

section \<open>A simulation's scheduler\<close>

text \<open>
  What the three simulations share: the heap, the counter of pushes, and the loop that takes the
  least event and hands it to its handler until the heap is empty (or the event is past the
  horizon, where there is one). \<open>sched\<close> is extended by each simulation with its own state. The
  fuel bounds the number of events; running out of it is the value None.
\<close>

record ('t, 'e) sched =
  ev :: "('t, 'e) heap"
  seqno :: nat

definition push_ev :: "'t :: linorder \<Rightarrow> 'e \<Rightarrow> ('t, 'e, 'z) sched_scheme \<Rightarrow> ('t, 'e, 'z) sched_scheme" where
  "push_ev t e s = s\<lparr>ev := heappush (Stamp t (seqno s), e) (ev s), seqno := Suc (seqno s)\<rparr>"

fun run_events ::
  "('t \<Rightarrow> bool) \<Rightarrow> ('t :: linorder \<Rightarrow> 'e \<Rightarrow> ('t, 'e, 'z) sched_scheme \<Rightarrow> ('t, 'e, 'z) sched_scheme res)
   \<Rightarrow> nat \<Rightarrow> ('t, 'e, 'z) sched_scheme \<Rightarrow> ('t, 'e, 'z) sched_scheme res option" where
  "run_events stop handle 0 s = (if ev s = [] then Some (Inr s) else None)"
| "run_events stop handle (Suc n) s =
     (case heappop (ev s) of
        None \<Rightarrow> Some (Inr s)
      | Some ((k, e), h) \<Rightarrow>
          if stop (stime k) then Some (Inr (s\<lparr>ev := h\<rparr>))
          else (case handle (stime k) e (s\<lparr>ev := h\<rparr>) of
                  Inl x \<Rightarrow> Some (Inl x)
                | Inr s' \<Rightarrow> run_events stop handle n s'))"

lemma push_ev_simps [simp]:
  "seqno (push_ev t e s) = Suc (seqno s)"
  "mset (ev (push_ev t e s)) = add_mset (Stamp t (seqno s), e) (mset (ev s))"
  "set (ev (push_ev t e s)) = insert (Stamp t (seqno s), e) (set (ev s))"
  "ev (push_ev t e s) \<noteq> []"
  by (auto simp: push_ev_def hq.entries_push heappush_def set_insort_key insort_not_Nil)

lemma push_ev_ok: "heap_ok (ev s) \<Longrightarrow> heap_ok (ev (push_ev t e s))"
  by (simp add: push_ev_def hq.ok_push)

text \<open>
  An invariant of the handler, for events not before the current time, holds where the run ends, up
  to the event past the horizon that the loop took out of the heap before it stopped.
\<close>

lemma run_events_last:
  assumes "run_events stop handle n s = Some (Inr s')" and "I s"
    and "\<And>k e h s s'. I s \<Longrightarrow> ev s = (k, e) # h \<Longrightarrow> \<not> stop (stime k)
          \<Longrightarrow> handle (stime k) e (s\<lparr>ev := h\<rparr>) = Inr s' \<Longrightarrow> I s'"
  shows "I s' \<or> (\<exists>s0 k e h. I s0 \<and> ev s0 = (k, e) # h \<and> stop (stime k) \<and> s' = s0\<lparr>ev := h\<rparr>)"
  using assms(1,2)
proof (induction n arbitrary: s)
  case 0
  then show ?case by (simp split: if_splits)
next
  case (Suc n)
  show ?case
  proof (cases "ev s")
    case Nil
    with Suc.prems show ?thesis by (auto simp: heappop_def)
  next
    case (Cons x h)
    then obtain k e where x: "ev s = (k, e) # h" by (cases x) auto
    show ?thesis
    proof (cases "stop (stime k)")
      case True
      with Suc.prems(1) x have "s' = s\<lparr>ev := h\<rparr>" by (simp add: heappop_def)
      with Suc.prems(2) x True show ?thesis by blast
    next
      case False
      with Suc.prems(1) x obtain s1 where "handle (stime k) e (s\<lparr>ev := h\<rparr>) = Inr s1"
        and "run_events stop handle n s1 = Some (Inr s')"
        by (auto simp: heappop_def split: sum.splits)
      with Suc.IH assms(3) [OF Suc.prems(2) x False] show ?thesis by blast
    qed
  qed
qed

lemma run_events_invariant:
  assumes "run_events stop handle n s = Some (Inr s')" and "I s"
    and "\<And>k e h s s'. I s \<Longrightarrow> ev s = (k, e) # h \<Longrightarrow> \<not> stop (stime k)
          \<Longrightarrow> handle (stime k) e (s\<lparr>ev := h\<rparr>) = Inr s' \<Longrightarrow> I s'"
    and "\<And>k e h s. I s \<Longrightarrow> ev s = (k, e) # h \<Longrightarrow> stop (stime k) \<Longrightarrow> I (s\<lparr>ev := h\<rparr>)"
  shows "I s'"
proof -
  have "I s' \<or> (\<exists>s0 k e h. I s0 \<and> ev s0 = (k, e) # h \<and> stop (stime k) \<and> s' = s0\<lparr>ev := h\<rparr>)"
    by (rule run_events_last [where I = I, OF assms(1,2)]) (rule assms(3))
  then show ?thesis using assms(4) by blast
qed

text \<open>More fuel does not change the result.\<close>

lemma run_events_mono:
  "run_events stop handle n s = Some r \<Longrightarrow> n \<le> m \<Longrightarrow> run_events stop handle m s = Some r"
proof (induction n arbitrary: s m)
  case 0
  then show ?case by (cases m) (auto simp: heappop_def split: if_splits)
next
  case (Suc n)
  then obtain m' where "m = Suc m'" "n \<le> m'" by (cases m) auto
  with Suc show ?case by (auto split: option.splits sum.splits if_splits)
qed

end
