(* ===== verification/Pool.thy ===== *)
theory Pool
  imports Keyframes
begin

text \<open>
  The class \<open>Pool\<close> of \<open>kfu.py\<close>: workers spawned on demand up to a limit, idle ones reused last in
  first out, retired when told. The locale \<open>allocator\<close> is the contract of anything that hands out
  one of finitely many numbered places (a worker of a pool here, a worker slot of a consumer in
  \<open>Close_Sim\<close>): a place is never handed out twice, and a request is refused only when all are taken.
\<close>

section \<open>The interface of an allocator\<close>

text \<open>Every request and every release comes with data of its own (for a pool: when, and what for).\<close>

datatype ('g, 'd) alloc_op = Grab 'g | Drop 'd nat

text \<open>Runs a sequence of requests; the list of places handed out is kept, newest first.\<close>

fun alloc_run ::
  "('g \<Rightarrow> 'p \<Rightarrow> (nat \<times> 'p) option) \<Rightarrow> ('d \<Rightarrow> nat \<Rightarrow> 'p \<Rightarrow> 'p) \<Rightarrow> ('g, 'd) alloc_op list \<Rightarrow> 'p \<times> nat list \<Rightarrow> ('p \<times> nat list) option" where
  "alloc_run grab give [] s = Some s"
| "alloc_run grab give (Grab g # ops) (p, out) =
     (case grab g p of None \<Rightarrow> None | Some (w, p') \<Rightarrow> alloc_run grab give ops (p', w # out))"
| "alloc_run grab give (Drop d w # ops) (p, out) =
     (if w \<in> set out then alloc_run grab give ops (give d w p, remove1 w out) else None)"

locale allocator =
  fixes grab :: "'g \<Rightarrow> 'p \<Rightarrow> (nat \<times> 'p) option"
    and give :: "'d \<Rightarrow> nat \<Rightarrow> 'p \<Rightarrow> 'p"
    and taken :: "'p \<Rightarrow> nat set"
    and cap :: "'p \<Rightarrow> nat"
    and ok :: "'p \<Rightarrow> bool"
  assumes taken_bound: "ok p \<Longrightarrow> taken p \<subseteq> {..<cap p}"
    and grab_ok: "ok p \<Longrightarrow> grab g p = Some (w, p') \<Longrightarrow> ok p' \<and> cap p' = cap p"
    and grab_taken: "ok p \<Longrightarrow> grab g p = Some (w, p') \<Longrightarrow> w \<notin> taken p \<and> taken p' = insert w (taken p)"
    and grab_None: "ok p \<Longrightarrow> grab g p = None \<longleftrightarrow> taken p = {..<cap p}"
    and drop_ok: "ok p \<Longrightarrow> w \<in> taken p \<Longrightarrow> ok (give d w p) \<and> cap (give d w p) = cap p"
    and drop_taken: "ok p \<Longrightarrow> w \<in> taken p \<Longrightarrow> taken (give d w p) = taken p - {w}"
begin

text \<open>The places out are exactly the taken ones, each once, and never more than there are.\<close>

lemma run_distinct:
  assumes "alloc_run grab give ops (p, out) = Some (p', out')"
    and "ok p" and "distinct out" and "set out = taken p"
  shows "ok p' \<and> distinct out' \<and> set out' = taken p' \<and> cap p' = cap p"
  using assms
proof (induction ops arbitrary: p out)
  case (Cons x ops)
  show ?case
  proof (cases x)
    case (Grab y)
    then obtain w p1 where g: "grab y p = Some (w, p1)"
      and r: "alloc_run grab give ops (p1, w # out) = Some (p', out')"
      using Cons.prems(1) by (auto split: option.splits)
    show ?thesis
      using Cons.IH [OF r] grab_ok [OF Cons.prems(2) g] grab_taken [OF Cons.prems(2) g] Cons.prems(3,4)
      by auto
  next
    case (Drop d w)
    then have w: "w \<in> taken p" and r: "alloc_run grab give ops (give d w p, remove1 w out) = Some (p', out')"
      using Cons.prems(1,4) by (auto split: if_splits)
    show ?thesis
      using Cons.IH [OF r] drop_ok [OF Cons.prems(2) w] drop_taken [OF Cons.prems(2) w] Cons.prems(3,4)
      by (auto simp: distinct_remove1)
  qed
qed simp

text \<open>A further request is refused exactly when as many places are out as there are.\<close>

lemma run_capacity:
  assumes "alloc_run grab give ops (p, out) = Some (p', out')"
    and "ok p" and "distinct out" and "set out = taken p"
  shows "length out' \<le> cap p \<and> (grab g p' = None \<longleftrightarrow> length out' = cap p)"
proof -
  have inv: "ok p' \<and> distinct out' \<and> set out' = taken p' \<and> cap p' = cap p"
    using run_distinct [OF assms] .
  then have sub: "set out' \<subseteq> {..<cap p}" using taken_bound by metis
  then have "card (set out') \<le> cap p" using card_mono [of "{..<cap p}"] by fastforce
  moreover have "grab g p' = None \<longleftrightarrow> set out' = {..<cap p}" using grab_None [of p' g] inv by simp
  moreover have "set out' = {..<cap p} \<longleftrightarrow> card (set out') = cap p"
    using card_subset_eq [OF finite_lessThan sub] card_lessThan [of "cap p"] by metis
  moreover have "card (set out') = length out'" by (rule distinct_card) (use inv in blast)
  ultimately show ?thesis by (simp only: simp_thms)
qed

end

section \<open>kfu.Pool\<close>

type_synonym life = "rat \<times> rat option"

record pool =
  pool_limit :: nat
  pool_idle :: "nat list"
  pool_alive :: "(nat, life list) dict"

definition Pool :: "nat \<Rightarrow> nat \<Rightarrow> pool" where
  "Pool limit idle =
     \<lparr>pool_limit = limit, pool_idle = [0..<idle],
      pool_alive = map (\<lambda>w. (w, if w < idle then [(0, None)] else [])) [0..<limit]\<rparr>"

text \<open>The generator expression of \<open>take\<close>: the first worker with no life, or whose last one ended.\<close>

fun next_free :: "(nat, life list) dict \<Rightarrow> nat list \<Rightarrow> nat option res" where
  "next_free alive [] = Inr None"
| "next_free alive (w # ws) =
     (case dget alive w of None \<Rightarrow> Inl KeyError
      | Some ls \<Rightarrow> if ls = [] \<or> snd (last ls) \<noteq> None then Inr (Some w) else next_free alive ws)"

definition pool_take :: "rat \<Rightarrow> pool \<Rightarrow> (nat \<times> pool) res" where
  "pool_take t p =
     (if pool_idle p \<noteq> [] then Inr (last (pool_idle p), p\<lparr>pool_idle := butlast (pool_idle p)\<rparr>)
      else rbind (next_free (pool_alive p) [0..<pool_limit p]) (\<lambda>r.
        case r of None \<Rightarrow> Inl AssertionError
        | Some w \<Rightarrow>
            (case dget (pool_alive p) w of None \<Rightarrow> Inl KeyError
             | Some ls \<Rightarrow> Inr (w, p\<lparr>pool_alive := dset w (ls @ [(t, None)]) (pool_alive p)\<rparr>))))"

definition pool_release :: "nat \<Rightarrow> rat \<Rightarrow> bool \<Rightarrow> rat \<Rightarrow> pool \<Rightarrow> pool res" where
  "pool_release w t keep exit_in p =
     (if keep then Inr (p\<lparr>pool_idle := pool_idle p @ [w]\<rparr>)
      else case dget (pool_alive p) w of None \<Rightarrow> Inl KeyError
        | Some ls \<Rightarrow>
            if ls = [] then Inl IndexError
            else Inr (p\<lparr>pool_alive :=
              dset w (butlast ls @ [(fst (last ls), Some (t + exit_in))]) (pool_alive p)\<rparr>))"

text \<open>\<open>name.format(v)\<close> for a name with one pair of braces.\<close>

fun format1 :: "string \<Rightarrow> string \<Rightarrow> string" where
  "format1 (c # d # s) v = (if c = CHR ''{'' \<and> d = CHR ''}'' then v @ s else c # format1 (d # s) v)"
| "format1 s v = s"

definition rows_pts :: "cssv \<Rightarrow> life list \<Rightarrow> point list" where
  "rows_pts ghost ls =
     (0, op (if ls \<noteq> [] \<and> fst (hd ls) = 0 then VInt 1 else ghost)) #
     concat (map (\<lambda>(s, e).
       (if 0 < s then [(s - 1 / 10, op ghost), (s + 2 / 10, op (VInt 1))] else []) @
       (case e of None \<Rightarrow> [] | Some x \<Rightarrow> if x = 0 then [] else [(x, op (VInt 1)), (x + 4 / 10, op ghost)])) ls)"

definition pool_rows :: "string \<Rightarrow> cssv \<Rightarrow> pool \<Rightarrow> kfu \<Rightarrow> kfu res" where
  "pool_rows name ghost p K =
     rfold (\<lambda>w K. case dget (pool_alive p) w of None \<Rightarrow> Inl KeyError
       | Some ls \<Rightarrow> Inr (kf (format1 name (show_nat (w + 1))) (rows_pts ghost ls) K)) [0..<pool_limit p] K"

section \<open>Invariant\<close>

definition lives :: "pool \<Rightarrow> nat \<Rightarrow> life list" where
  "lives p w = dget_or [] (pool_alive p) w"

definition running :: "pool \<Rightarrow> nat \<Rightarrow> bool" where
  "running p w \<longleftrightarrow> lives p w \<noteq> [] \<and> snd (last (lives p w)) = None"

definition pool_busy :: "pool \<Rightarrow> nat set" where
  "pool_busy p = {w. w < pool_limit p \<and> running p w} - set (pool_idle p)"

definition pool_ok :: "pool \<Rightarrow> bool" where
  "pool_ok p \<longleftrightarrow> set (dkeys (pool_alive p)) = {..<pool_limit p} \<and> distinct (pool_idle p)
     \<and> (\<forall>w \<in> set (pool_idle p). w < pool_limit p \<and> running p w)"

lemma dget_lives: "pool_ok p \<Longrightarrow> w < pool_limit p \<Longrightarrow> dget (pool_alive p) w = Some (lives p w)"
  by (cases "dget (pool_alive p) w") (auto simp: pool_ok_def lives_def dget_or_def map_of_eq_None_iff)

lemma Pool_ok: "idle \<le> limit \<Longrightarrow> pool_ok (Pool limit idle) \<and> pool_busy (Pool limit idle) = {}"
  by (auto simp: pool_ok_def pool_busy_def Pool_def running_def lives_def dget_or_def map_of_map_restrict
      restrict_map_def o_def split: option.splits if_splits)

lemma next_free_Some:
  assumes "pool_ok p" and "set ws \<subseteq> {..<pool_limit p}"
  shows "\<exists>r. next_free (pool_alive p) ws = Inr r
    \<and> (case r of None \<Rightarrow> \<forall>w \<in> set ws. running p w | Some w \<Rightarrow> w \<in> set ws \<and> \<not> running p w)"
  using assms(2)
proof (induction ws)
  case (Cons w ws)
  then have "dget (pool_alive p) w = Some (lives p w)" using assms(1) by (simp add: dget_lives)
  with Cons show ?case by (auto simp: running_def split: option.splits)
qed simp

lemma take_cases:
  assumes "pool_ok p"
  shows "(pool_idle p \<noteq> [] \<and> pool_take t p =
        Inr (last (pool_idle p), p\<lparr>pool_idle := butlast (pool_idle p)\<rparr>))
    \<or> (\<exists>w < pool_limit p. pool_idle p = [] \<and> \<not> running p w \<and> pool_take t p =
        Inr (w, p\<lparr>pool_alive := dset w (lives p w @ [(t, None)]) (pool_alive p)\<rparr>))
    \<or> (pool_idle p = [] \<and> pool_take t p = Inl AssertionError \<and> (\<forall>w < pool_limit p. running p w))"
proof (cases "pool_idle p = []")
  case True
  obtain r where r: "next_free (pool_alive p) [0..<pool_limit p] = Inr r"
    and c: "case r of None \<Rightarrow> \<forall>w \<in> set [0..<pool_limit p]. running p w
      | Some w \<Rightarrow> w \<in> set [0..<pool_limit p] \<and> \<not> running p w"
    using next_free_Some [OF assms, of "[0..<pool_limit p]"] atLeast0LessThan by fastforce
  show ?thesis
  proof (cases r)
    case None
    with True r c show ?thesis by (auto simp: pool_take_def)
  next
    case (Some w)
    with c have "w < pool_limit p" "\<not> running p w" by auto
    with True r Some show ?thesis by (auto simp: pool_take_def dget_lives [OF assms])
  qed
qed (simp add: pool_take_def)

lemma lives_dset [simp]:
  "lives (p\<lparr>pool_alive := dset w ls (pool_alive p)\<rparr>) v = (if v = w then ls else lives p v)"
  "lives (p\<lparr>pool_idle := ws\<rparr>) v = lives p v"
  by (simp_all add: lives_def dget_or_def update_conv')

lemma running_simps [simp]:
  "running (p\<lparr>pool_alive := dset w ls (pool_alive p)\<rparr>) v =
     (if v = w then ls \<noteq> [] \<and> snd (last ls) = None else running p v)"
  "running (p\<lparr>pool_idle := ws\<rparr>) v = running p v"
  by (simp_all add: running_def)

text \<open>A successful \<open>take\<close> hands out a place that was not busy, and only that becomes busy.\<close>

lemma take_ok:
  assumes "pool_ok p" and "pool_take t p = Inr (w, p')"
  shows "pool_ok p' \<and> pool_limit p' = pool_limit p \<and> w \<notin> pool_busy p
    \<and> pool_busy p' = insert w (pool_busy p)"
  using take_cases [OF assms(1), of t]
proof (elim disjE exE conjE)
  assume ne: "pool_idle p \<noteq> []"
    and "pool_take t p = Inr (last (pool_idle p), p\<lparr>pool_idle := butlast (pool_idle p)\<rparr>)"
  with assms(2) have w: "w = last (pool_idle p)" and p': "p' = p\<lparr>pool_idle := butlast (pool_idle p)\<rparr>"
    by auto
  obtain ws where ws: "pool_idle p = ws @ [w]" using ne w by (metis append_butlast_last_id)
  with assms(1) show ?thesis by (auto simp: pool_ok_def pool_busy_def p')
next
  fix v assume v: "v < pool_limit p" "pool_idle p = []" "\<not> running p v"
    and "pool_take t p = Inr (v, p\<lparr>pool_alive := dset v (lives p v @ [(t, None)]) (pool_alive p)\<rparr>)"
  with assms(2) have "w = v" "p' = p\<lparr>pool_alive := dset v (lives p v @ [(t, None)]) (pool_alive p)\<rparr>"
    by auto
  with v assms(1) show ?thesis by (auto simp: pool_ok_def pool_busy_def)
qed (use assms(2) in auto)

lemma release_ok:
  assumes "pool_ok p" and "w \<in> pool_busy p"
  shows "\<exists>p'. pool_release w t keep exit_in p = Inr p' \<and> pool_ok p' \<and> pool_limit p' = pool_limit p
    \<and> pool_busy p' = pool_busy p - {w}"
proof -
  have w: "w < pool_limit p" "lives p w \<noteq> []" "w \<notin> set (pool_idle p)" "running p w"
    using assms(2) by (auto simp: pool_busy_def running_def)
  with assms(1) dget_lives [OF assms(1) w(1)] show ?thesis
    by (auto simp: pool_release_def pool_ok_def pool_busy_def)
qed

lemma take_None:
  assumes "pool_ok p"
  shows "(\<exists>e. pool_take t p = Inl e) \<longleftrightarrow> pool_busy p = {..<pool_limit p}"
  using take_cases [OF assms, of t]
proof (elim disjE exE conjE)
  assume ne: "pool_idle p \<noteq> []"
    and "pool_take t p = Inr (last (pool_idle p), p\<lparr>pool_idle := butlast (pool_idle p)\<rparr>)"
  moreover from ne have "last (pool_idle p) \<in> set (pool_idle p)" by simp
  then have "last (pool_idle p) < pool_limit p" "last (pool_idle p) \<notin> pool_busy p"
    using assms by (simp_all add: pool_ok_def pool_busy_def)
  ultimately show ?thesis by auto
next
  fix v assume "v < pool_limit p" "\<not> running p v"
    and "pool_take t p = Inr (v, p\<lparr>pool_alive := dset v (lives p v @ [(t, None)]) (pool_alive p)\<rparr>)"
  then show ?thesis by (auto simp: pool_busy_def)
qed (auto simp: pool_busy_def)

section \<open>The pool as an allocator\<close>

text \<open>
  A request is made at a time; a release comes with its time, whether the worker is kept idle, and
  how long a retired one takes to leave. None of them matters for which places are taken.
\<close>

definition pool_grab :: "rat \<Rightarrow> pool \<Rightarrow> (nat \<times> pool) option" where
  "pool_grab t p = (case pool_take t p of Inl _ \<Rightarrow> None | Inr wp \<Rightarrow> Some wp)"

fun pool_give :: "rat \<times> bool \<times> rat \<Rightarrow> nat \<Rightarrow> pool \<Rightarrow> pool" where
  "pool_give (t, keep, exit_in) w p = (case pool_release w t keep exit_in p of Inl _ \<Rightarrow> p | Inr p' \<Rightarrow> p')"

interpretation pool_alloc: allocator pool_grab pool_give pool_busy pool_limit pool_ok
proof (unfold_locales, goal_cases)
  case (1 p) then show ?case by (auto simp: pool_busy_def)
next
  case (2 p t w p')
  then have "pool_take t p = Inr (w, p')" by (simp add: pool_grab_def split: sum.splits)
  from take_ok [OF 2(1) this] show ?case by simp
next
  case (3 p t w p')
  then have "pool_take t p = Inr (w, p')" by (simp add: pool_grab_def split: sum.splits)
  from take_ok [OF 3(1) this] show ?case by simp
next
  case (4 p t)
  have "pool_grab t p = None \<longleftrightarrow> (\<exists>e. pool_take t p = Inl e)"
    by (cases "pool_take t p") (simp_all add: pool_grab_def)
  then show ?case by (simp only: take_None [OF 4])
next
  case (5 p w d)
  obtain t keep exit_in where d: "d = (t, keep, exit_in)" by (cases d)
  from 5 obtain p' where r: "pool_release w t keep exit_in p = Inr p'" "pool_ok p'" "pool_limit p' = pool_limit p"
    using release_ok [of p w t keep exit_in] by blast
  then show ?case by (simp add: d)
next
  case (6 p w d)
  obtain t keep exit_in where d: "d = (t, keep, exit_in)" by (cases d)
  from 6 obtain p' where r: "pool_release w t keep exit_in p = Inr p'" "pool_busy p' = pool_busy p - {w}"
    using release_ok [of p w t keep exit_in] by blast
  then show ?case by (simp add: d)
qed

section \<open>Properties\<close>

text \<open>\<open>Pool.take\<close> on a well-formed pool reuses the worker that became idle last and spawns
  none, or else spawns into a slot that is not running, or fails; it fails exactly when every
  worker up to the limit is busy. A worker it returns was not busy, and is the only one that
  becomes busy.\<close>

lemma take_lifo_or_spawn:
  assumes "pool_ok p"
  shows "(pool_take t p = Inl AssertionError \<longleftrightarrow> pool_busy p = {..<pool_limit p})
    \<and> (\<forall>w p'. pool_take t p = Inr (w, p') \<longrightarrow>
         w \<notin> pool_busy p \<and> pool_busy p' = insert w (pool_busy p) \<and> pool_ok p'
         \<and> (pool_idle p \<noteq> [] \<longrightarrow> w = last (pool_idle p) \<and> pool_alive p' = pool_alive p)
         \<and> (pool_idle p = [] \<longrightarrow> \<not> running p w \<and> lives p' w = lives p w @ [(t, None)]))"
proof -
  have "pool_take t p = Inl AssertionError \<longleftrightarrow> (\<exists>e. pool_take t p = Inl e)"
    using take_cases [OF assms, of t] by (elim disjE exE conjE) simp_all
  then have full: "pool_take t p = Inl AssertionError \<longleftrightarrow> pool_busy p = {..<pool_limit p}"
    by (simp only: take_None [OF assms])
  have "w \<notin> pool_busy p \<and> pool_busy p' = insert w (pool_busy p) \<and> pool_ok p'
      \<and> (pool_idle p \<noteq> [] \<longrightarrow> w = last (pool_idle p) \<and> pool_alive p' = pool_alive p)
      \<and> (pool_idle p = [] \<longrightarrow> \<not> running p w \<and> lives p' w = lives p w @ [(t, None)])"
    if w: "pool_take t p = Inr (w, p')" for w p'
    using take_ok [OF assms w] take_cases [OF assms, of t] w by (elim disjE exE conjE) auto
  with full show ?thesis by blast
qed

text \<open>C24: over any sequence of takes and releases from a fresh pool, each take at a time of its own, each
  release of a worker that is out, at its own time and keeping or retiring it as it says, no worker
  is out twice, never more than the limit are out, one more take fails exactly when the limit
  is reached, and no release of a worker that is out fails.\<close>

theorem pool_never_double_books:
  assumes "idle \<le> limit"
    and "alloc_run pool_grab pool_give ops (Pool limit idle, []) = Some (p', out)"
  shows "distinct out \<and> length out \<le> limit \<and> set out = pool_busy p'
    \<and> (\<forall>t. (\<exists>e. pool_take t p' = Inl e) \<longleftrightarrow> length out = limit)
    \<and> (\<forall>w \<in> set out. \<forall>t keep exit_in. \<exists>q. pool_release w t keep exit_in p' = Inr q)"
proof -
  have lim: "pool_limit (Pool limit idle) = limit" by (simp add: Pool_def)
  have "(\<exists>e. pool_take t p' = Inl e) \<longleftrightarrow> pool_grab t p' = None" for t
    by (cases "pool_take t p'") (simp_all add: pool_grab_def)
  moreover have run: "pool_ok p'" "distinct out" "set out = pool_busy p'"
    using pool_alloc.run_distinct [OF assms(2)] Pool_ok [OF assms(1)] by auto
  moreover have "\<exists>q. pool_release w t keep exit_in p' = Inr q" if "w \<in> set out" for w t keep exit_in
    using release_ok [OF run(1)] that run(3) by blast
  ultimately show ?thesis
    using lim pool_alloc.run_capacity [OF assms(2)] Pool_ok [OF assms(1)] by simp
qed

theorem pool_never_double_books_witness:
  "\<exists>p'. alloc_run pool_grab pool_give
      [Grab 1, Grab (14 / 10), Grab (18 / 10), Drop (3, True, 35 / 100) 1, Drop (35 / 10, True, 35 / 100) 2,
       Drop (4, False, 35 / 100) 0, Grab 5] (Pool 3 1, []) = Some (p', [2])
     \<and> pool_busy p' = {2} \<and> (\<exists>x. pool_take 6 p' = Inr x)"
proof -
  let ?ops = "[Grab 1, Grab (14 / 10), Grab (18 / 10), Drop (3, True, 35 / 100) 1, Drop (35 / 10, True, 35 / 100) 2,
       Drop (4, False, 35 / 100) 0, Grab 5]"
  have "map_option snd (alloc_run pool_grab pool_give ?ops (Pool 3 1, [])) = Some [2]" by code_simp
  then obtain p' where r: "alloc_run pool_grab pool_give ?ops (Pool 3 1, []) = Some (p', [2])" by auto
  have "\<not> (\<exists>e. pool_take 6 p' = Inl e)" "pool_busy p' = {2}"
    using pool_never_double_books [OF _ r] by auto
  with r show ?thesis by (cases "pool_take 6 p'") auto
qed

end
