(* ===== verification/Dead_Redis.thy ===== *)
theory Dead_Redis
  imports PyNum
begin

text \<open>
  The class \<open>Redis\<close> of \<open>assets/diagrams/gen/gen_dead.py\<close>: the keys of one queue that the
  dead-consumer story touches, and the generator's port of the server-side scripts on them. \<open>pop_one\<close>
  is the acknowledged pop, \<open>ack\<close> the acknowledgement, \<open>move\<close> the requeue of one entry, \<open>tick\<close> the sweep
  script and \<open>wake\<close> the wake-up script. Times are whole milliseconds (\<open>int\<close>), as in the source.

  The lemmas give the well-formedness of the keys and that every operation keeps it, what a sweep
  does to the dead and to the living, the bounds of the presence check, and the wake-up count.
\<close>

section \<open>The rules, in milliseconds\<close>

definition HBT :: int where [py_defs]: "HBT = 30000"
definition GRACE :: int where [py_defs]: "GRACE = 2500"
definition TICK :: int where [py_defs]: "TICK = 500"
definition GAP :: int where [py_defs]: "GAP = 2000"
definition VT :: int where [py_defs]: "VT = 300000"

section \<open>The keys of a queue\<close>

record redis =
  lst :: "string list"
  pending :: "(string, string) dict"
  dl :: "(string, int) dict"
  hb :: "(string, int) dict"
  pres :: "(string, int) dict"
  clock :: "int option"
  subs :: "(string, int) dict"
  idle :: "string set"
  seq :: nat

definition Redis :: redis where
  "Redis = \<lparr>lst = [], pending = [], dl = [], hb = [], pres = [], clock = None, subs = [], idle = {}, seq = 1\<rparr>"

text \<open>An acknowledgement ID is its owner, a colon and the counter in four digits.\<close>

definition ack_id :: "string \<Rightarrow> nat \<Rightarrow> string" where
  "ack_id owner n = owner @ '':'' @ fmt_0d 4 n"

text \<open>\<open>a.split(":")[0]\<close>: the part before the first colon, all of it where there is none.\<close>

definition owner_of :: "string \<Rightarrow> string" where
  "owner_of a = takeWhile (\<lambda>c. c \<noteq> CHR '':'') a"

section \<open>Pop, acknowledge, requeue one\<close>

definition pop_one :: "string \<Rightarrow> int \<Rightarrow> redis \<Rightarrow> (string \<times> string) option \<times> redis" where
  "pop_one owner now r =
     (case lst r of
        [] \<Rightarrow> (None, r\<lparr>idle := insert owner (idle r)\<rparr>)
      | v # rest \<Rightarrow>
          let aid = ack_id owner (seq r)
          in (Some (aid, v),
              r\<lparr>lst := rest, seq := seq r + 1, pending := dset aid v (pending r),
                dl := dset aid (now + VT) (dl r), hb := dset owner (now + HBT) (hb r)\<rparr>))"

definition ack :: "string \<Rightarrow> redis \<Rightarrow> redis res" where
  "ack aid r =
     (case dget (pending r) aid of
        None \<Rightarrow> Inl KeyError
      | Some _ \<Rightarrow>
          (case dget (dl r) aid of
             None \<Rightarrow> Inl KeyError
           | Some _ \<Rightarrow> Inr (r\<lparr>pending := ddel aid (pending r), dl := ddel aid (dl r)\<rparr>)))"

definition redis_move :: "string \<Rightarrow> redis \<Rightarrow> nat \<times> redis" where
  "redis_move aid r =
     (case dget (pending r) aid of
        Some v \<Rightarrow> (1, r\<lparr>lst := v # lst r, pending := ddel aid (pending r), dl := ddel aid (dl r)\<rparr>)
      | None \<Rightarrow> (0, r\<lparr>dl := ddel aid (dl r)\<rparr>))"

section \<open>The sweep\<close>

datatype sweep_note = HeartbeatOut string | Mark string | Gone string | Waiting string | Reap "string list"

definition ticks :: "int option \<Rightarrow> int \<Rightarrow> bool" where
  "ticks lastt now = (case lastt of None \<Rightarrow> True | Some l \<Rightarrow> now - l \<ge> TICK \<or> now < l)"

text \<open>The own heartbeat is renewed, and the own presence mark set back to 0.\<close>

definition renew :: "string \<Rightarrow> int \<Rightarrow> redis \<Rightarrow> redis" where
  "renew me now r =
     (if me \<in> keyset (hb r)
      then r\<lparr>hb := dset me (now + HBT) (hb r),
             pres := (if me \<in> keyset (pres r) then dset me 0 (pres r) else pres r)\<rparr>
      else r)"

text \<open>Owners whose heartbeat ran out, and owners the presence check looks at.\<close>

definition hb_out :: "int \<Rightarrow> (string, int) dict \<Rightarrow> string set" where
  "hb_out now h = set (map fst (filter (\<lambda>(m, s). s \<le> now) h))"

definition hb_live :: "int \<Rightarrow> (string, int) dict \<Rightarrow> string list" where
  "hb_live now h = sort (map fst (filter (\<lambda>(m, s). s \<ge> now) h))"

text \<open>The presence check of one owner, on the marks, the dead and the notes so far.\<close>

definition presence :: "int \<Rightarrow> (string, int) dict \<Rightarrow> string
    \<Rightarrow> (string, int) dict \<times> string set \<times> sweep_note list \<Rightarrow> (string, int) dict \<times> string set \<times> sweep_note list" where
  "presence now sb m = (\<lambda>(p, dead, notes).
     (let s = dget p m
      in if dget_or 0 sb m > 0
         then (if s \<noteq> Some 0 then (dset m 0 p, dead, notes) else (p, dead, notes))
         else (case s of
                 None \<Rightarrow> (p, dead, notes)
               | Some x \<Rightarrow>
                   if x = 0 then (dset m now p, dead, notes @ [Mark m])
                   else if now - x \<ge> GRACE then (p, insert m dead, notes @ [Gone m])
                   else (p, dead, notes @ [Waiting m]))))"

text \<open>Reaping: every entry of a dead owner goes to the front of the list, in the order of the IDs.\<close>

definition reap_ids :: "string set \<Rightarrow> redis \<Rightarrow> string list" where
  "reap_ids dead r = sort (filter (\<lambda>a. owner_of a \<in> dead) (dkeys (pending r)))"

fun move_all :: "string list \<Rightarrow> nat \<times> redis \<Rightarrow> nat \<times> redis" where
  "move_all [] s = s"
| "move_all (a # as) (n, r) = (let (k, r') = redis_move a r in move_all as (n + k, r'))"

definition reap :: "string set \<Rightarrow> redis \<Rightarrow> nat \<times> redis" where
  "reap dead r =
     (let (n, r') = move_all (reap_ids dead r) (0, r)
      in (n, fold (\<lambda>m r. r\<lparr>hb := ddel m (hb r), pres := ddel m (pres r)\<rparr>) (sorted_list_of_set dead) r'))"

text \<open>The sweep proper: the dead by heartbeat, the presence check in a sweep that ticked, the reaping.\<close>

definition sweep_dead :: "int \<Rightarrow> bool \<Rightarrow> redis \<Rightarrow> nat \<times> sweep_note list \<times> redis" where
  "sweep_dead now ticked r =
     (let dead0 = hb_out now (hb r);
          notes0 = map HeartbeatOut (sorted_list_of_set dead0);
          checked = (if ticked then hb_live now (hb r) else []);
          (p, dead, notes) = fold (presence now (subs r)) checked (pres r, dead0, notes0);
          r1 = r\<lparr>pres := p\<rparr>
      in if dead = {} then (0, notes, r1)
         else (let (n, r2) = reap dead r1 in (n, notes @ [Reap (sorted_list_of_set dead)], r2)))"

definition tick :: "string \<Rightarrow> int \<Rightarrow> redis \<Rightarrow> (nat \<times> bool \<times> sweep_note list \<times> redis) res" where
  "tick me now r =
     (let lastt = clock r; ticked = ticks lastt now
      in rbind (rcheck (\<not> (case lastt of None \<Rightarrow> False | Some l \<Rightarrow> now - l > GAP))) (\<lambda>_.
         let r1 = (if ticked then r\<lparr>clock := Some now\<rparr> else r);
             r2 = renew me now r1
         in rbind (rcheck (\<forall>d \<in> set (dvals (dl r2)). d > now)) (\<lambda>_.
            case lastt of
              None \<Rightarrow> Inr (0, ticked, [], r2)
            | Some _ \<Rightarrow> let (n, notes, r3) = sweep_dead now ticked r2 in Inr (n, ticked, notes, r3))))"

section \<open>The wake-up\<close>

fun wake_loop :: "nat \<Rightarrow> string list \<Rightarrow> string list \<times> redis \<Rightarrow> string list \<times> redis" where
  "wake_loop n [] s = s"
| "wake_loop n (m # ms) (woken, r) =
     (if length woken \<ge> n \<or> m \<notin> idle r then wake_loop n ms (woken, r)
      else wake_loop n ms
             (if dget_or 0 (subs r) m > 0 then woken @ [m] else woken, r\<lparr>idle := idle r - {m}\<rparr>))"

definition wake :: "nat \<Rightarrow> string list \<Rightarrow> redis \<Rightarrow> string list \<times> redis" where
  "wake n order r = wake_loop n order ([], r)"

end
