(* ===== verification/Dead_Jobs.thy ===== *)
theory Dead_Jobs
  imports Dead_Redis
begin

text \<open>
  What the operations of \<open>gen_dead.Redis\<close> keep: the keys stay well formed, a held job's owner always
  has a heartbeat (so a later sweep can find it dead), and no job is lost or doubled.
\<close>

section \<open>Acknowledgement IDs\<close>

definition owner_ok :: "string \<Rightarrow> bool" where
  "owner_ok o1 \<longleftrightarrow> CHR '':'' \<notin> set o1"

lemma owner_of_ack_id [simp]: "owner_ok w \<Longrightarrow> owner_of (ack_id w n) = w"
  by (induction w) (auto simp: owner_of_def ack_id_def owner_ok_def)

lemma fmt_0d_inj: "fmt_0d k m = fmt_0d k n \<Longrightarrow> m = n"
  unfolding fmt_0d_def by (metis read_nat_zpad read_show_nat)

lemma ack_id_inj:
  assumes "ack_id w m = ack_id w' n" and "owner_ok w" and "owner_ok w'"
  shows "w = w' \<and> m = n"
proof
  show "w = w'" using assms owner_of_ack_id by metis
  with assms(1) show "m = n" by (simp add: ack_id_def fmt_0d_inj)
qed

section \<open>Well-formed keys\<close>

text \<open>The ID is one handed out before, to an owner that has a heartbeat.\<close>

definition id_ok :: "redis \<Rightarrow> string \<Rightarrow> bool" where
  "id_ok r a \<longleftrightarrow> (\<exists>w n. a = ack_id w n \<and> n < seq r \<and> owner_ok w \<and> w \<in> keyset (hb r))"

definition redis_ok :: "redis \<Rightarrow> bool" where
  "redis_ok r \<longleftrightarrow> dict_ok (pending r) \<and> dict_ok (dl r) \<and> dict_ok (hb r) \<and> dict_ok (pres r)
     \<and> keyset (dl r) = keyset (pending r)
     \<and> (\<forall>a \<in> keyset (pending r). id_ok r a)
     \<and> keyset (pres r) \<subseteq> keyset (hb r)"

definition jobs :: "redis \<Rightarrow> string multiset" where
  "jobs r = mset (lst r) + mset (dvals (pending r))"

lemma redis_okI:
  "dict_ok (pending r) \<Longrightarrow> dict_ok (dl r) \<Longrightarrow> dict_ok (hb r) \<Longrightarrow> dict_ok (pres r)
   \<Longrightarrow> keyset (dl r) = keyset (pending r)
   \<Longrightarrow> (\<And>a. a \<in> keyset (pending r) \<Longrightarrow> id_ok r a)
   \<Longrightarrow> keyset (pres r) \<subseteq> keyset (hb r) \<Longrightarrow> redis_ok r"
  by (simp add: redis_ok_def)

lemma redis_okD:
  assumes "redis_ok r"
  shows "dict_ok (pending r)" and "dict_ok (dl r)" and "dict_ok (hb r)" and "dict_ok (pres r)"
    and "keyset (dl r) = keyset (pending r)"
    and "a \<in> keyset (pending r) \<Longrightarrow> id_ok r a"
    and "m \<in> keyset (pres r) \<Longrightarrow> m \<in> keyset (hb r)"
  using assms by (auto simp: redis_ok_def)

lemma id_ok_mono:
  "id_ok r a \<Longrightarrow> seq r \<le> seq r' \<Longrightarrow> keyset (hb r) \<subseteq> keyset (hb r') \<Longrightarrow> id_ok r' a"
  unfolding id_ok_def by (metis less_le_trans subsetD)

lemma id_ok_owner: "id_ok r a \<Longrightarrow> owner_of a \<in> keyset (hb r)"
  unfolding id_ok_def by auto

text \<open>Every job that is held has an owner with a heartbeat.\<close>

lemma held_owner:
  assumes "redis_ok r" and "a \<in> keyset (pending r)"
  shows "owner_of a \<in> keyset (hb r)"
  using redis_okD(6) [OF assms] by (rule id_ok_owner)

lemma fresh_id:
  assumes "redis_ok r" and "owner_ok w" and "seq r \<le> n"
  shows "ack_id w n \<notin> keyset (pending r)"
proof
  assume "ack_id w n \<in> keyset (pending r)"
  then have "id_ok r (ack_id w n)" by (rule redis_okD(6) [OF assms(1)])
  then obtain w' n' where "ack_id w n = ack_id w' n'" "n' < seq r" "owner_ok w'"
    by (auto simp: id_ok_def)
  with ack_id_inj [OF this(1) assms(2) this(3)] assms(3) show False by simp
qed

section \<open>Pop, acknowledge, requeue\<close>

lemma redis_ok_idle [simp]: "redis_ok (r\<lparr>idle := i\<rparr>) = redis_ok r"
  by (simp add: redis_ok_def id_ok_def)

lemma redis_ok_clock [simp]: "redis_ok (r\<lparr>clock := c\<rparr>) = redis_ok r"
  by (simp add: redis_ok_def id_ok_def)

lemma jobs_simps [simp]:
  "jobs (r\<lparr>idle := i\<rparr>) = jobs r" "jobs (r\<lparr>clock := c\<rparr>) = jobs r" "jobs (r\<lparr>hb := h\<rparr>) = jobs r"
  "jobs (r\<lparr>pres := p\<rparr>) = jobs r"
  by (simp_all add: jobs_def)

lemma pop_one_keeps:
  assumes "redis_ok r" and "owner_ok w" and "pop_one w now r = (res, r')"
  shows "redis_ok r' \<and> jobs r' = jobs r"
proof (cases "lst r")
  case Nil
  with assms(1,3) have "r' = r\<lparr>idle := insert w (idle r)\<rparr>" by (simp add: pop_one_def)
  with assms(1) show ?thesis by (simp only: redis_ok_idle jobs_simps simp_thms)
next
  case (Cons v rest)
  let ?a = "ack_id w (seq r)"
  from Cons assms(3) have r': "r' = r\<lparr>lst := rest, seq := seq r + 1, pending := dset ?a v (pending r),
      dl := dset ?a (now + VT) (dl r), hb := dset w (now + HBT) (hb r)\<rparr>"
    by (auto simp: pop_one_def Let_def)
  have new: "?a \<notin> keyset (pending r)" by (rule fresh_id [OF assms(1,2)]) simp
  note ok = redis_okD [OF assms(1)]
  have "id_ok r' b" if b: "b \<in> keyset (pending r')" for b
  proof (cases "b = ?a")
    case True
    with assms(2) show ?thesis unfolding r' id_ok_def by (intro exI [of _ w] exI [of _ "seq r"]) simp
  next
    case False
    with b have "b \<in> keyset (pending r)" by (auto simp: r')
    from ok(6) [OF this] show ?thesis by (rule id_ok_mono) (auto simp: r')
  qed
  then have "redis_ok r'" using ok(1-5,7) by (intro redis_okI) (auto simp: r')
  moreover have "jobs r' = jobs r" using new Cons by (simp add: jobs_def r' dkeys_dset_new keyset_def)
  ultimately show ?thesis ..
qed

lemma ack_keeps:
  assumes "redis_ok r" and "ack a r = Inr r'"
  shows "redis_ok r' \<and> (\<exists>v. dget (pending r) a = Some v \<and> jobs r = add_mset v (jobs r'))"
proof -
  note ok = redis_okD [OF assms(1)]
  obtain v where v: "dget (pending r) a = Some v"
    and r': "r' = r\<lparr>pending := ddel a (pending r), dl := ddel a (dl r)\<rparr>"
    using assms(2) by (auto simp: ack_def split: option.splits)
  have "redis_ok r'"
    using ok by (intro redis_okI) (auto simp: r' id_ok_def)
  moreover have "jobs r = add_mset v (jobs r')"
    using mset_dvals_ddel [OF ok(1) v] by (simp add: jobs_def r')
  ultimately show ?thesis using v by blast
qed

text \<open>In well-formed keys an acknowledgement fails exactly when nothing is held under the ID.\<close>

lemma ack_fails:
  assumes "redis_ok r"
  shows "ack a r = Inl e \<longleftrightarrow> e = KeyError \<and> a \<notin> keyset (pending r)"
proof (cases "dget (pending r) a")
  case None
  then show ?thesis using dget_keyset [of "pending r" a] by (auto simp: ack_def)
next
  case (Some v)
  then have a: "a \<in> keyset (pending r)" by (rule dget_keyset_Some)
  then obtain x where "dget (dl r) a = Some x"
    using redis_okD(5) [OF assms] keyset_dget [of a "dl r"] by auto
  with Some a show ?thesis by (simp add: ack_def)
qed

lemma move_state:
  assumes "redis_move a r = (n, r')"
  shows "n = (if a \<in> keyset (pending r) then 1 else 0)
     \<and> r' = r\<lparr>lst := (case dget (pending r) a of None \<Rightarrow> [] | Some v \<Rightarrow> [v]) @ lst r,
             pending := ddel a (pending r), dl := ddel a (dl r)\<rparr>"
proof (cases "dget (pending r) a")
  case None
  then have "a \<notin> keyset (pending r)" by (simp add: dget_keyset)
  with None assms show ?thesis by (auto simp: redis_move_def)
next
  case (Some v)
  then have "a \<in> keyset (pending r)" by (rule dget_keyset_Some)
  with Some assms show ?thesis by (auto simp: redis_move_def)
qed

lemma move_keeps:
  assumes "redis_ok r" and "redis_move a r = (n, r')"
  shows "redis_ok r' \<and> jobs r' = jobs r"
proof -
  note ok = redis_okD [OF assms(1)]
  note r' = move_state [OF assms(2)]
  have "redis_ok r'" using ok r' by (intro redis_okI) (auto simp: id_ok_def)
  moreover have "jobs r' = jobs r"
  proof (cases "dget (pending r) a")
    case None
    with r' dget_keyset [of "pending r" a] show ?thesis by (simp add: jobs_def)
  next
    case (Some v)
    from mset_dvals_ddel [OF ok(1) Some] r' Some show ?thesis by (simp add: jobs_def)
  qed
  ultimately show ?thesis ..
qed

end
