(* ===== verification/Dead_Sweep.thy ===== *)
theory Dead_Sweep
  imports Dead_Jobs
begin

text \<open>
  The sweep of \<open>gen_dead.Redis\<close>: which owners it takes for dead, what it does to their jobs and
  their keys, and what it leaves alone. The specification is on the state before the sweep
  (\<open>dead_at\<close>, \<open>mark_after\<close>); the model of \<open>tick\<close>, with its loops and its order of updates, is proved
  to be that.
\<close>

section \<open>Specification\<close>

text \<open>The presence mark of an owner after a check, and whether the check takes it for gone.\<close>

definition new_mark :: "int \<Rightarrow> (string, int) dict \<Rightarrow> (string, int) dict \<Rightarrow> string \<Rightarrow> int option" where
  "new_mark now sb p m =
     (if dget_or 0 sb m > 0 then Some 0
      else if dget p m = Some 0 then Some now else dget p m)"

definition gone :: "int \<Rightarrow> (string, int) dict \<Rightarrow> (string, int) dict \<Rightarrow> string \<Rightarrow> bool" where
  "gone now sb p m \<longleftrightarrow> dget_or 0 sb m \<le> 0
     \<and> (case dget p m of None \<Rightarrow> False | Some x \<Rightarrow> x \<noteq> 0 \<and> now - x \<ge> GRACE)"

text \<open>
  Dead, for a sweep of \<open>me\<close> at \<open>now\<close>: another owner with a heartbeat that has run out, or, in a sweep
  that moves the clock, with no subscriber now and none for the grace period.
\<close>

definition dead_at :: "string \<Rightarrow> int \<Rightarrow> redis \<Rightarrow> string set" where
  "dead_at me now r = {m \<in> keyset (hb r). m \<noteq> me \<and>
     (the (dget (hb r) m) \<le> now \<or> ticks (clock r) now \<and> gone now (subs r) (pres r) m)}"

section \<open>The presence check\<close>

lemma presence_step:
  assumes "presence now sb m (p, dead, ns) = (p', dead', ns')"
  shows "(\<forall>k. dget p' k = (if k = m then new_mark now sb p m else dget p k))
    \<and> dead' = (if gone now sb p m then insert m dead else dead)
    \<and> (dict_ok p \<longrightarrow> dict_ok p') \<and> keyset p' \<subseteq> insert m (keyset p)"
  using assms unfolding presence_def new_mark_def gone_def
  by (auto simp: Let_def update_conv' split: if_splits option.splits)

lemma presence_fold:
  assumes "fold (presence now sb) ms (p, dead, ns) = (p', dead', ns')" and "distinct ms"
  shows "(\<forall>k. dget p' k = (if k \<in> set ms then new_mark now sb p k else dget p k))
    \<and> dead' = dead \<union> {m \<in> set ms. gone now sb p m}
    \<and> (dict_ok p \<longrightarrow> dict_ok p') \<and> keyset p' \<subseteq> set ms \<union> keyset p"
  using assms
proof (induction ms arbitrary: p dead ns)
  case (Cons m ms)
  obtain p1 dead1 ns1 where 1: "presence now sb m (p, dead, ns) = (p1, dead1, ns1)"
    using prod_cases3 by blast
  note s = presence_step [OF 1]
  have 2: "fold (presence now sb) ms (p1, dead1, ns1) = (p', dead', ns')"
    using Cons.prems(1) 1 by simp
  note ih = Cons.IH [OF 2]
  have same: "dget p1 k = dget p k" if "k \<in> set ms" for k
    using s that Cons.prems(2) by auto
  then have "new_mark now sb p1 k = new_mark now sb p k" "gone now sb p1 k = gone now sb p k"
    if "k \<in> set ms" for k
    using that by (simp_all add: new_mark_def gone_def)
  with ih s Cons.prems(2) show ?case by auto
qed simp

section \<open>Reaping\<close>

lemma reap_ids_set: "set (reap_ids dead r) = {a \<in> keyset (pending r). owner_of a \<in> dead}"
  by (auto simp: reap_ids_def keyset_def)

lemma reap_ids_distinct: "redis_ok r \<Longrightarrow> distinct (reap_ids dead r)"
  using redis_okD(1) [of r] by (simp add: reap_ids_def dict_ok_def)

lemma move_all_spec:
  assumes "distinct ids" and "set ids \<subseteq> keyset (pending r)"
  shows "move_all ids (n, r) =
    (n + length ids,
     r\<lparr>lst := rev (map (\<lambda>a. the (dget (pending r) a)) ids) @ lst r,
       pending := fold ddel ids (pending r), dl := fold ddel ids (dl r)\<rparr>)"
  using assms
proof (induction ids arbitrary: n r)
  case (Cons a ids)
  obtain v where v: "dget (pending r) a = Some v" using Cons.prems(2) keyset_dget [of a "pending r"] by auto
  let ?r = "r\<lparr>lst := v # lst r, pending := ddel a (pending r), dl := ddel a (dl r)\<rparr>"
  have m: "redis_move a r = (1, ?r)" using v by (simp add: redis_move_def)
  have items: "map (\<lambda>b. the (dget (pending ?r) b)) ids = map (\<lambda>b. the (dget (pending r) b)) ids"
    using Cons.prems(1) by (auto simp: delete_conv')
  have "set ids \<subseteq> keyset (pending ?r)" using Cons.prems by auto
  with Cons.IH [of ?r "n + 1"] Cons.prems(1) have "move_all ids (n + 1, ?r) = (n + 1 + length ids,
     ?r\<lparr>lst := rev (map (\<lambda>b. the (dget (pending ?r) b)) ids) @ lst ?r,
       pending := fold ddel ids (pending ?r), dl := fold ddel ids (dl ?r)\<rparr>)"
    by simp
  with m v show ?case unfolding items by simp
qed simp

lemma drop_owners:
  "fold (\<lambda>m r. r\<lparr>hb := ddel m (hb r), pres := ddel m (pres r)\<rparr>) ms r
   = r\<lparr>hb := fold ddel ms (hb r), pres := fold ddel ms (pres r)\<rparr>"
  by (induction ms arbitrary: r) simp_all

definition items_of :: "string list \<Rightarrow> redis \<Rightarrow> string list" where
  "items_of ids r = map (\<lambda>a. the (dget (pending r) a)) ids"

lemma reap_spec:
  assumes "redis_ok r" and "finite dead"
  shows "reap dead r =
    (length (reap_ids dead r),
     r\<lparr>lst := rev (items_of (reap_ids dead r) r) @ lst r,
       pending := without (set (reap_ids dead r)) (pending r), dl := without (set (reap_ids dead r)) (dl r),
       hb := without dead (hb r), pres := without dead (pres r)\<rparr>)"
  using move_all_spec [OF reap_ids_distinct [OF assms(1)], of dead r 0] assms(2)
  by (simp add: reap_def reap_ids_set drop_owners fold_ddel items_of_def Collect_mono_iff subset_iff)

lemma mset_reap:
  assumes "dict_ok d" and "distinct ids" and "set ids \<subseteq> keyset d"
  shows "mset (dvals d) = mset (map (\<lambda>a. the (dget d a)) ids) + mset (dvals (without (set ids) d))"
  using assms
proof (induction ids arbitrary: d)
  case (Cons a ids)
  obtain v where v: "dget d a = Some v" using Cons.prems(3) keyset_dget [of a d] by auto
  have w: "without (set ids) (ddel a d) = without (set (a # ids)) d"
    by (auto simp: without_def AList.delete_eq filter_filter intro!: filter_cong)
  have "map (\<lambda>b. the (dget (ddel a d) b)) ids = map (\<lambda>b. the (dget d b)) ids"
    using Cons.prems(2) by (auto simp: delete_conv')
  with Cons.IH [of "ddel a d"] Cons.prems mset_dvals_ddel [OF Cons.prems(1) v] v w show ?case by auto
qed simp

lemma reap_keeps:
  assumes "redis_ok r" and "finite dead" and "reap dead r = (n, r')"
  shows "redis_ok r' \<and> jobs r' = jobs r"
proof -
  let ?ids = "reap_ids dead r"
  have r': "r' = r\<lparr>lst := rev (items_of ?ids r) @ lst r,
       pending := without (set ?ids) (pending r), dl := without (set ?ids) (dl r),
       hb := without dead (hb r), pres := without dead (pres r)\<rparr>"
    using reap_spec [OF assms(1,2)] assms(3) by simp
  note ok = redis_okD [OF assms(1)]
  have "id_ok r' a" if "a \<in> keyset (pending r')" for a
  proof -
    have a: "a \<in> keyset (pending r)" "owner_of a \<notin> dead"
      using that by (auto simp: r' reap_ids_set)
    obtain w n where "a = ack_id w n" "n < seq r" "owner_ok w" "w \<in> keyset (hb r)"
      using ok(6) [OF a(1)] by (auto simp: id_ok_def)
    with a(2) show ?thesis unfolding id_ok_def by (intro exI [of _ w] exI [of _ n]) (simp add: r')
  qed
  then have "redis_ok r'" using ok(1-5,7) by (intro redis_okI) (auto simp: r')
  moreover have "jobs r' = jobs r"
    using mset_reap [OF ok(1) reap_ids_distinct [OF assms(1)], of dead] unfolding r'
    by (simp add: jobs_def items_of_def reap_ids_set Collect_mono_iff subset_iff)
  ultimately show ?thesis ..
qed


section \<open>One sweep\<close>

lemma renew_spec:
  "renew me now r = r\<lparr>hb := (if me \<in> keyset (hb r) then dset me (now + HBT) (hb r) else hb r),
     pres := (if me \<in> keyset (hb r) \<and> me \<in> keyset (pres r) then dset me 0 (pres r) else pres r)\<rparr>"
  by (simp add: renew_def)

lemma renew_keeps: "redis_ok r \<Longrightarrow> redis_ok (renew me now r) \<and> jobs (renew me now r) = jobs r"
proof -
  assume "redis_ok r"
  note ok = redis_okD [OF this]
  have "id_ok (renew me now r) a" if "a \<in> keyset (pending r)" for a
    using ok(6) [OF that] by (rule id_ok_mono) (auto simp: renew_def)
  then have "redis_ok (renew me now r)"
    using ok(1-5,7) by (intro redis_okI) (auto simp: renew_def)
  then show ?thesis by (simp add: renew_def jobs_def)
qed

lemma hb_out_mem: "dict_ok h \<Longrightarrow> m \<in> hb_out now h \<longleftrightarrow> m \<in> keyset h \<and> the (dget h m) \<le> now"
  by (force simp: hb_out_def dict_ok_def keyset_def dest: dget_keyset_Some)

lemma hb_live_mem: "dict_ok h \<Longrightarrow> m \<in> set (hb_live now h) \<longleftrightarrow> m \<in> keyset h \<and> the (dget h m) \<ge> now"
  by (force simp: hb_live_def dict_ok_def keyset_def dest: dget_keyset_Some)

lemma hb_live_distinct: "dict_ok h \<Longrightarrow> distinct (hb_live now h)"
  by (simp add: hb_live_def dict_ok_def distinct_map_filter)

lemma reap_none: "redis_ok r \<Longrightarrow> reap {} r = (0, r)"
  using reap_spec [of r "{}"] by (simp add: reap_ids_def items_of_def)

text \<open>The state a sweep reaps from, and the owners it reaps.\<close>

definition swept :: "string \<Rightarrow> int \<Rightarrow> redis \<Rightarrow> redis" where
  "swept me now r = renew me now (if ticks (clock r) now then r\<lparr>clock := Some now\<rparr> else r)"

lemma swept_keeps: "redis_ok r \<Longrightarrow> redis_ok (swept me now r) \<and> jobs (swept me now r) = jobs r"
  using renew_keeps [of "if ticks (clock r) now then r\<lparr>clock := Some now\<rparr> else r" me now]
  by (auto simp: swept_def)

lemma swept_simps [simp]:
  "lst (swept me now r) = lst r" "pending (swept me now r) = pending r" "dl (swept me now r) = dl r"
  "subs (swept me now r) = subs r" "idle (swept me now r) = idle r" "seq (swept me now r) = seq r"
  "clock (swept me now r) = (if ticks (clock r) now then Some now else clock r)"
  "keyset (hb (swept me now r)) = keyset (hb r)" "keyset (pres (swept me now r)) = keyset (pres r)"
  by (auto simp: swept_def renew_def)

lemma dget_hb_swept:
  "dget (hb (swept me now r)) m = (if m = me \<and> me \<in> keyset (hb r) then Some (now + HBT) else dget (hb r) m)"
  by (auto simp: swept_def renew_def update_conv')

lemma dget_pres_swept:
  "dget (pres (swept me now r)) m
   = (if m = me \<and> me \<in> keyset (hb r) \<and> me \<in> keyset (pres r) then Some 0 else dget (pres r) m)"
  by (auto simp: swept_def renew_def update_conv')

lemma tick_alt:
  "tick me now r =
     (if (case clock r of None \<Rightarrow> False | Some l \<Rightarrow> now - l > GAP) \<or> (\<exists>d \<in> set (dvals (dl r)). d \<le> now)
      then Inl AssertionError
      else case clock r of
        None \<Rightarrow> Inr (0, ticks (clock r) now, [], swept me now r)
      | Some _ \<Rightarrow>
          (case sweep_dead now (ticks (clock r) now) (swept me now r) of
             (n, ns, r') \<Rightarrow> Inr (n, ticks (clock r) now, ns, r')))"
proof -
  have d: "dl (renew me now (if ticks (clock r) now then r\<lparr>clock := Some now\<rparr> else r)) = dl r"
    by (simp add: renew_def)
  have "(\<forall>d \<in> set (dvals (dl r)). d > now) \<longleftrightarrow> \<not> (\<exists>d \<in> set (dvals (dl r)). d \<le> now)"
    by (auto simp: not_le)
  then show ?thesis
    unfolding tick_def Let_def d swept_def by (auto simp: rcheck_def split: option.splits)
qed

text \<open>What \<open>sweep_dead\<close> leaves, with the dead as a set.\<close>

lemma sweep_dead_spec:
  assumes "redis_ok r" and "sweep_dead now ticked r = (n, ns, r')"
  obtains p dead where "dead = {m \<in> keyset (hb r). the (dget (hb r) m) \<le> now
        \<or> ticked \<and> the (dget (hb r) m) \<ge> now \<and> gone now (subs r) (pres r) m}"
    and "\<forall>k. dget p k = (if ticked \<and> k \<in> keyset (hb r) \<and> the (dget (hb r) k) \<ge> now
           then new_mark now (subs r) (pres r) k else dget (pres r) k)"
    and "redis_ok (r\<lparr>pres := p\<rparr>)" and "reap dead (r\<lparr>pres := p\<rparr>) = (n, r')"
proof -
  let ?ms = "if ticked then hb_live now (hb r) else []"
  note ok = redis_okD [OF assms(1)]
  obtain p dead ns1 where f: "fold (presence now (subs r)) ?ms (pres r, hb_out now (hb r),
      map HeartbeatOut (sorted_list_of_set (hb_out now (hb r)))) = (p, dead, ns1)"
    using prod_cases3 by blast
  have "distinct ?ms" using hb_live_distinct [OF ok(3)] by simp
  note pf = presence_fold [OF f this]
  have ms: "k \<in> set ?ms \<longleftrightarrow> ticked \<and> k \<in> keyset (hb r) \<and> the (dget (hb r) k) \<ge> now" for k
    using hb_live_mem [OF ok(3)] by simp
  have "set ?ms \<subseteq> keyset (hb r)" using ms by blast
  with pf ok have ok': "redis_ok (r\<lparr>pres := p\<rparr>)" by (intro redis_okI) (auto simp: id_ok_def)
  show thesis
  proof (rule that)
    show "dead = {m \<in> keyset (hb r). the (dget (hb r) m) \<le> now
        \<or> ticked \<and> the (dget (hb r) m) \<ge> now \<and> gone now (subs r) (pres r) m}"
      using pf ms hb_out_mem [OF ok(3)] by blast
    show "\<forall>k. dget p k = (if ticked \<and> k \<in> keyset (hb r) \<and> the (dget (hb r) k) \<ge> now
           then new_mark now (subs r) (pres r) k else dget (pres r) k)"
      using pf ms by simp
    show "reap dead (r\<lparr>pres := p\<rparr>) = (n, r')"
      using assms(2) unfolding sweep_dead_def Let_def f
      by (auto simp: reap_none [OF ok'] split: if_splits prod.splits)
  qed (rule ok')
qed

lemma tick_keeps:
  assumes "tick me now r = Inr (n, ticked, ns, r')" and "redis_ok r"
  shows "redis_ok r' \<and> jobs r' = jobs r"
proof (cases "clock r")
  case None
  then show ?thesis using assms swept_keeps [OF assms(2)] by (auto simp: tick_alt split: if_splits)
next
  case (Some l)
  have ok: "redis_ok (swept me now r)" and jo: "jobs (swept me now r) = jobs r"
    using swept_keeps [OF assms(2)] by auto
  from Some assms(1) have "sweep_dead now (ticks (clock r) now) (swept me now r) = (n, ns, r')"
    by (simp add: tick_alt split: if_splits prod.splits)
  then obtain p dead where d: "dead = {m \<in> keyset (hb (swept me now r)).
        the (dget (hb (swept me now r)) m) \<le> now \<or> ticks (clock r) now \<and> the (dget (hb (swept me now r)) m) \<ge> now
        \<and> gone now (subs (swept me now r)) (pres (swept me now r)) m}"
    and ok': "redis_ok ((swept me now r)\<lparr>pres := p\<rparr>)" and re: "reap dead ((swept me now r)\<lparr>pres := p\<rparr>) = (n, r')"
    by (rule sweep_dead_spec [OF ok])
  have "finite dead" unfolding d by simp
  from reap_keeps [OF ok' this re] jo show ?thesis by simp
qed

lemma dead_at_finite [simp]: "finite (dead_at me now r)"
  by (simp add: dead_at_def)

lemma dead_swept:
  assumes "redis_ok r"
  shows "{m \<in> keyset (hb (swept me now r)). the (dget (hb (swept me now r)) m) \<le> now
      \<or> ticks (clock r) now \<and> the (dget (hb (swept me now r)) m) \<ge> now
        \<and> gone now (subs (swept me now r)) (pres (swept me now r)) m} = dead_at me now r"
proof -
  have "\<not> gone now (subs r) (pres (swept me now r)) me" if "me \<in> keyset (hb r)"
    using that dget_keyset [of "pres r" me] by (auto simp: gone_def dget_pres_swept split: option.splits)
  moreover have "gone now (subs r) (pres (swept me now r)) m = gone now (subs r) (pres r) m" if "m \<noteq> me" for m
    using that by (simp add: gone_def dget_pres_swept)
  moreover have "the (dget (hb (swept me now r)) me) > now" if "me \<in> keyset (hb r)"
    using that by (simp add: dget_hb_swept HBT_def)
  moreover have "dget (hb (swept me now r)) m = dget (hb r) m" if "m \<noteq> me" for m
    using that by (simp add: dget_hb_swept)
  ultimately have "(the (dget (hb (swept me now r)) m) \<le> now \<or> ticks (clock r) now
        \<and> the (dget (hb (swept me now r)) m) \<ge> now \<and> gone now (subs r) (pres (swept me now r)) m)
      \<longleftrightarrow> m \<noteq> me \<and> (the (dget (hb r) m) \<le> now \<or> ticks (clock r) now \<and> gone now (subs r) (pres r) m)"
    if "m \<in> keyset (hb r)" for m
    using that by (cases "m = me") (simp_all add: not_le, force)
  then show ?thesis by (simp add: dead_at_def Collect_conj_eq cong: conj_cong)
qed

lemma tick_spec:
  assumes "tick me now r = Inr (n, ticked, ns, r')" and "redis_ok r" and "clock r = Some l"
  shows "ticked = ticks (clock r) now"
    and "n = length (reap_ids (dead_at me now r) r)"
    and "lst r' = rev (items_of (reap_ids (dead_at me now r) r) r) @ lst r"
    and "pending r' = without {a. owner_of a \<in> dead_at me now r} (pending r)"
    and "keyset (hb r') = keyset (hb r) - dead_at me now r"
    and "m \<in> keyset (hb r) - dead_at me now r \<Longrightarrow>
      dget (hb r') m = (if m = me then Some (now + HBT) else dget (hb r) m)"
    and "m \<in> keyset (hb r) - dead_at me now r \<Longrightarrow> m \<noteq> me \<Longrightarrow>
      dget (pres r') m = (if ticked then new_mark now (subs r) (pres r) m else dget (pres r) m)"
    and "clock r' = (if ticked then Some now else clock r)"
    and "subs r' = subs r \<and> idle r' = idle r \<and> seq r' = seq r"
    and "dl r' = without {a. a \<in> keyset (pending r) \<and> owner_of a \<in> dead_at me now r} (dl r)"
proof -
  let ?D = "dead_at me now r" and ?s = "swept me now r"
  let ?ids = "reap_ids ?D r"
  have ok: "redis_ok ?s" using swept_keeps [OF assms(2)] by simp
  have tk: "ticked = ticks (clock r) now" and sw: "sweep_dead now (ticks (clock r) now) ?s = (n, ns, r')"
    using assms(1,3) by (simp_all add: tick_alt split: if_splits prod.splits)
  obtain p dead where d: "dead = {m \<in> keyset (hb ?s). the (dget (hb ?s) m) \<le> now
        \<or> ticks (clock r) now \<and> the (dget (hb ?s) m) \<ge> now \<and> gone now (subs ?s) (pres ?s) m}"
    and p: "\<forall>k. dget p k = (if ticks (clock r) now \<and> k \<in> keyset (hb ?s) \<and> the (dget (hb ?s) k) \<ge> now
           then new_mark now (subs ?s) (pres ?s) k else dget (pres ?s) k)"
    and ok': "redis_ok (?s\<lparr>pres := p\<rparr>)" and re0: "reap dead (?s\<lparr>pres := p\<rparr>) = (n, r')"
    by (rule sweep_dead_spec [OF ok sw])
  have re: "reap ?D (?s\<lparr>pres := p\<rparr>) = (n, r')"
    using re0 unfolding d dead_swept [OF assms(2)] .
  have ids: "reap_ids ?D (?s\<lparr>pres := p\<rparr>) = ?ids" "items_of ?ids (?s\<lparr>pres := p\<rparr>) = items_of ?ids r"
    by (simp_all add: reap_ids_def items_of_def)
  have r': "n = length ?ids"
    "r' = ?s\<lparr>lst := rev (items_of ?ids r) @ lst r, pending := without (set ?ids) (pending r),
       dl := without (set ?ids) (dl r), hb := without ?D (hb ?s), pres := without ?D p\<rparr>"
    using reap_spec [OF ok' dead_at_finite, of me now r] re unfolding ids by auto
  show "ticked = ticks (clock r) now" by (rule tk)
  show "n = length ?ids" by (rule r')
  show "lst r' = rev (items_of ?ids r) @ lst r" by (simp add: r')
  show "pending r' = without {a. owner_of a \<in> ?D} (pending r)"
    by (auto simp: r' reap_ids_set without_def keyset_def intro!: filter_cong)
  show "keyset (hb r') = keyset (hb r) - ?D" by (simp add: r')
  show "clock r' = (if ticked then Some now else clock r)" by (simp add: r' tk)
  show "subs r' = subs r \<and> idle r' = idle r \<and> seq r' = seq r" by (simp add: r')
  show "dl r' = without {a. a \<in> keyset (pending r) \<and> owner_of a \<in> ?D} (dl r)"
    by (simp add: r' reap_ids_set)
  assume m: "m \<in> keyset (hb r) - ?D"
  then show "dget (hb r') m = (if m = me then Some (now + HBT) else dget (hb r) m)"
    by (auto simp: r' dget_without dget_hb_swept)
  assume me: "m \<noteq> me"
  with m have "the (dget (hb r) m) > now" by (auto simp: dead_at_def)
  with m me show "dget (pres r') m = (if ticked then new_mark now (subs r) (pres r) m else dget (pres r) m)"
    by (simp add: r' dget_without p dget_hb_swept dget_pres_swept new_mark_def tk)
qed

lemma tick_fails:
  "tick me now r = Inl e \<longleftrightarrow> e = AssertionError
     \<and> ((\<exists>l. clock r = Some l \<and> now - l > GAP) \<or> (\<exists>d \<in> set (dvals (dl r)). d \<le> now))"
  by (auto simp: tick_alt split: option.splits prod.splits)

end
