(* ===== verification/Job_Store.thy ===== *)
theory Job_Store
  imports Prelude
begin

text \<open>
  The contract the queue models share: a store of jobs whose steps put jobs in and finish jobs, and
  otherwise only move them. Inside the locale that is lifted to whole runs: no job is lost, none is
  doubled, whatever the steps.
\<close>

fun store_run :: "('op \<Rightarrow> 's \<Rightarrow> ('s \<times> 'j list \<times> 'j list) res) \<Rightarrow> 'op list \<Rightarrow> 's
    \<Rightarrow> ('s \<times> 'j list \<times> 'j list) res" where
  "store_run step [] s = Inr (s, [], [])"
| "store_run step (x # xs) s =
     rbind (step x s) (\<lambda>(s1, a1, f1).
     rbind (store_run step xs s1) (\<lambda>(s2, a2, f2). Inr (s2, a1 @ a2, f1 @ f2)))"

locale job_store =
  fixes step :: "'op \<Rightarrow> 's \<Rightarrow> ('s \<times> 'j list \<times> 'j list) res"
    and held :: "'s \<Rightarrow> 'j multiset"
    and ok :: "'s \<Rightarrow> bool"
    and legal :: "'op \<Rightarrow> bool"
  assumes step_ok: "ok s \<Longrightarrow> legal x \<Longrightarrow> step x s = Inr (s', a, f) \<Longrightarrow> ok s'"
    and step_jobs: "ok s \<Longrightarrow> legal x \<Longrightarrow> step x s = Inr (s', a, f) \<Longrightarrow> held s + mset a = held s' + mset f"

context job_store
begin

lemma run_keeps:
  assumes "ok s" and "list_all legal xs" and "store_run step xs s = Inr (s', a, f)"
  shows "ok s' \<and> held s + mset a = held s' + mset f"
  using assms
proof (induction xs arbitrary: s a f)
  case (Cons x xs)
  obtain s1 a1 f1 a2 f2 where 1: "step x s = Inr (s1, a1, f1)"
    and 2: "store_run step xs s1 = Inr (s', a2, f2)" and af: "a = a1 @ a2" "f = f1 @ f2"
    using Cons.prems(3) by auto
  have x: "legal x" "list_all legal xs" using Cons.prems(2) by simp_all
  have s1: "ok s1" by (rule step_ok [OF Cons.prems(1) x(1) 1])
  have "held s + mset a1 = held s1 + mset f1" by (rule step_jobs [OF Cons.prems(1) x(1) 1])
  moreover from Cons.IH [OF s1 x(2) 2] have "ok s'" "held s1 + mset a2 = held s' + mset f2" by auto
  ultimately show ?case by (simp add: af) (metis (no_types, lifting) ab_semigroup_add_class.add_ac(1) add.commute)
qed simp

text \<open>A job that was there or came in is there still or finished; what is in once stays once.\<close>

lemma run_no_loss:
  assumes "ok s" and "list_all legal xs" and "store_run step xs s = Inr (s', a, f)"
    and "j \<in># held s \<or> j \<in> set a"
  shows "j \<in># held s' \<or> j \<in> set f"
proof -
  have "held s + mset a = held s' + mset f" using run_keeps [OF assms(1-3)] by simp
  then have "j \<in># held s' + mset f" using assms(4) by (metis set_mset_mset union_iff)
  then show ?thesis by simp
qed

lemma run_no_double:
  assumes "ok s" and "list_all legal xs" and "store_run step xs s = Inr (s', a, f)"
    and "\<And>j. count (held s + mset a) j \<le> 1"
  shows "count (held s') j \<le> 1 \<and> distinct f \<and> (j \<in> set f \<longrightarrow> j \<notin># held s')"
proof -
  have e: "held s + mset a = held s' + mset f" using run_keeps [OF assms(1-3)] by simp
  have c: "count (held s') i + count_list f i \<le> 1" for i
    using assms(4) [of i] unfolding e by (simp add: count_mset)
  have "distinct f"
    using c by (metis add_leE count_mset distinct_count_atmost_1 le_neq_implies_less less_one not_gr_zero count_mset_0_iff)
  moreover have "j \<in> set f \<Longrightarrow> j \<notin># held s'"
    using c [of j] count_list_0_iff [of f j] by (auto simp: not_in_iff)
  ultimately show ?thesis using c [of j] by auto
qed

end

end
