(* ===== verification/Dead_Story.thy ===== *)
theory Dead_Story
  imports Dead_Sweep Job_Store
begin

text \<open>
  The properties of \<open>gen_dead.Redis\<close>: job conservation over any sequence of operations (as an
  instance of \<open>job_store\<close>), what a sweep does, who is safe from it, how long a lost consumer's jobs
  stay out, the order they come back in, and the wake-up.
\<close>

section \<open>Any sequence of operations\<close>

datatype rop = RPop string int | RAck string | RMove string | RTick string int | RWake nat "string list"

text \<open>One operation: the new state, the jobs it put in (none) and the jobs it finished.\<close>

fun redis_step :: "rop \<Rightarrow> redis \<Rightarrow> (redis \<times> string list \<times> string list) res" where
  "redis_step (RPop w now) r = Inr (snd (pop_one w now r), [], [])"
| "redis_step (RAck a) r = rbind (ack a r) (\<lambda>r'. Inr (r', [], [the (dget (pending r) a)]))"
| "redis_step (RMove a) r = Inr (snd (redis_move a r), [], [])"
| "redis_step (RTick me now) r = rbind (tick me now r) (\<lambda>(n, ticked, ns, r'). Inr (r', [], []))"
| "redis_step (RWake n order) r = Inr (snd (wake n order r), [], [])"

fun rop_ok :: "rop \<Rightarrow> bool" where
  "rop_ok (RPop w now) = owner_ok w"
| "rop_ok _ = True"

lemma wake_loop_state:
  "\<exists>i. snd (wake_loop n ms (w, r)) = r\<lparr>idle := i\<rparr>"
proof (induction ms arbitrary: w r)
  case Nil
  then show ?case by (simp add: exI [of _ "idle r"])
next
  case (Cons m ms)
  show ?case
    using Cons.IH [of w r]
      Cons.IH [of "if dget_or 0 (subs r) m > 0 then w @ [m] else w" "r\<lparr>idle := idle r - {m}\<rparr>"] by auto
qed

lemma wake_keeps: "redis_ok r \<Longrightarrow> redis_ok (snd (wake n ms r)) \<and> jobs (snd (wake n ms r)) = jobs r"
  using wake_loop_state [of n ms "[]" r] by (auto simp: wake_def)

lemma redis_step_keeps:
  assumes "redis_ok r" and "rop_ok x" and "redis_step x r = Inr (r', a, f)"
  shows "redis_ok r' \<and> jobs r + mset a = jobs r' + mset f"
proof (cases x)
  case (RPop w now)
  with assms pop_one_keeps [OF assms(1), of w now "fst (pop_one w now r)" r'] show ?thesis by auto
next
  case (RAck b)
  with assms(3) have "ack b r = Inr r'" "a = []" "f = [the (dget (pending r) b)]" by auto
  with ack_keeps [OF assms(1)] show ?thesis by fastforce
next
  case (RMove b)
  with assms(3) move_keeps [OF assms(1), of b "fst (redis_move b r)" r'] show ?thesis by auto
next
  case (RTick me now)
  with assms(3) tick_keeps [OF _ assms(1)] show ?thesis by fastforce
next
  case (RWake n ms)
  with assms(3) wake_keeps [OF assms(1)] show ?thesis by auto
qed

interpretation redis_store: job_store redis_step jobs redis_ok rop_ok
  by unfold_locales (use redis_step_keeps in blast)+

section \<open>A lost consumer\<close>

text \<open>
  \<open>m\<close> holds a heartbeat and has no subscriber; its mark is \<open>x\<close> and the clock was moved at \<open>c\<close>;
  neither its heartbeat nor a deadline runs out by \<open>e\<close>.
\<close>

definition lost :: "string \<Rightarrow> int \<Rightarrow> int \<Rightarrow> int \<Rightarrow> redis \<Rightarrow> bool" where
  "lost m x c e r \<longleftrightarrow> redis_ok r \<and> m \<in> keyset (hb r) \<and> dget_or 0 (subs r) m \<le> 0
     \<and> dget (pres r) m = Some x \<and> clock r = Some c \<and> the (dget (hb r) m) > e
     \<and> (\<forall>d \<in> set (dvals (dl r)). d > e)"

lemma without_dvals: "set (dvals (without S d)) \<subseteq> set (dvals d)"
  by (auto simp: without_def)

lemma tick_runs:
  assumes "lost m x c e r" and "t - c \<le> GAP" and "t \<le> e"
  obtains n ticked ns r' where "tick me t r = Inr (n, ticked, ns, r')"
proof (cases "tick me t r")
  case (Inl err)
  with assms have False by (fastforce simp: tick_fails lost_def)
  then show ?thesis ..
next
  case (Inr z)
  then show ?thesis using that by (cases z) auto
qed

lemma lost_waits:
  assumes "lost m x c e r" and "m \<noteq> me" and "c \<le> t" and "t - c \<le> GAP" and "t \<le> e"
    and "t - c < TICK \<or> x = 0 \<or> t - x < GRACE"
  obtains n ticked ns r' where "tick me t r = Inr (n, ticked, ns, r')"
    and "lost m (if TICK \<le> t - c \<and> x = 0 then t else x) (if TICK \<le> t - c then t else c) e r'"
proof -
  obtain n ticked ns r' where t: "tick me t r = Inr (n, ticked, ns, r')"
    by (rule tick_runs [OF assms(1,4,5)])
  note L = assms(1) [unfolded lost_def]
  have ok: "redis_ok r" and cl: "clock r = Some c" using L by auto
  note s = tick_spec [OF t ok cl]
  have tk: "ticked = (TICK \<le> t - c)" using s(1) cl assms(3) by (auto simp: ticks_def)
  have "m \<notin> dead_at me t r"
    using L assms(3,5,6) by (auto simp: dead_at_def gone_def ticks_def)
  then have m: "m \<in> keyset (hb r) - dead_at me t r" using L by simp
  have "lost m (if TICK \<le> t - c \<and> x = 0 then t else x) (if TICK \<le> t - c then t else c) e r'"
    unfolding lost_def
  proof (intro conjI)
    show "redis_ok r'" using tick_keeps [OF t ok] by simp
    show "m \<in> keyset (hb r')" using m s(5) by simp
    show "dget_or 0 (subs r') m \<le> 0" using L s(9) by simp
    show "dget (pres r') m = Some (if TICK \<le> t - c \<and> x = 0 then t else x)"
      using s(7) [OF m assms(2)] L tk by (auto simp: new_mark_def)
    show "clock r' = Some (if TICK \<le> t - c then t else c)" using s(8) tk cl by simp
    show "the (dget (hb r') m) > e" using s(6) [OF m] assms(2) L by simp
    show "\<forall>d \<in> set (dvals (dl r')). d > e" using s(10) L without_dvals by fastforce
  qed
  with t that show thesis by blast
qed

lemma lost_reaped:
  assumes "lost m x c e r" and "m \<noteq> me" and "TICK \<le> t - c" and "t - c \<le> GAP" and "t \<le> e"
    and "x \<noteq> 0" and "GRACE \<le> t - x"
  obtains n ns r' where "tick me t r = Inr (n, True, ns, r')" and "m \<in> dead_at me t r"
    and "m \<notin> keyset (hb r')" and "\<forall>a \<in> keyset (pending r'). owner_of a \<noteq> m"
proof -
  obtain n ticked ns r' where t: "tick me t r = Inr (n, ticked, ns, r')"
    by (rule tick_runs [OF assms(1,4,5)])
  note L = assms(1) [unfolded lost_def]
  have ok: "redis_ok r" and cl: "clock r = Some c" using L by auto
  note s = tick_spec [OF t ok cl]
  have tk: ticked using s(1) cl assms(3) by (auto simp: ticks_def)
  have d: "m \<in> dead_at me t r"
    using L assms by (auto simp: dead_at_def gone_def ticks_def)
  show thesis
  proof (rule that)
    show "tick me t r = Inr (n, True, ns, r')" using t tk by simp
    show "m \<notin> keyset (hb r')" using s(5) d by simp
    show "\<forall>a \<in> keyset (pending r'). owner_of a \<noteq> m" using s(4) d by auto
  qed (rule d)
qed

text \<open>Sweeps of \<open>me\<close>, one a second from \<open>t\<close> on.\<close>

fun sweep_run :: "string \<Rightarrow> int \<Rightarrow> nat \<Rightarrow> redis \<Rightarrow> redis res" where
  "sweep_run me t 0 r = Inr r"
| "sweep_run me t (Suc k) r = rbind (tick me t r) (\<lambda>(n, ticked, ns, r'). sweep_run me (t + 1000) k r')"

text \<open>From a sweep that moves the clock and finds the mark 0, it is the third sweep after it that reaps.\<close>

lemma lost_marked_run:
  assumes "lost m 0 c e r" and "m \<noteq> me" and "TICK \<le> t - c" and "t - c \<le> GAP" and "t + 3000 \<le> e" and "0 < t"
  obtains r1 r2 where "sweep_run me t 3 r = Inr r1" and "m \<in> keyset (hb r1)"
    and "sweep_run me t 4 r = Inr r2" and "m \<in> dead_at me (t + 3000) r1"
    and "m \<notin> keyset (hb r2)" and "\<forall>a \<in> keyset (pending r2). owner_of a \<noteq> m"
proof -
  note rules = TICK_def GAP_def GRACE_def
  obtain n0 k0 s0 r0 where 0: "tick me t r = Inr (n0, k0, s0, r0)" and l0: "lost m t t e r0"
    by (rule lost_waits [OF assms(1,2), of t]) (use assms in \<open>auto simp: rules\<close>)
  obtain n1 k1 s1 r1 where 1: "tick me (t + 1000) r0 = Inr (n1, k1, s1, r1)" and l1: "lost m t (t + 1000) e r1"
    by (rule lost_waits [OF l0 assms(2), of "t + 1000"]) (use assms in \<open>auto simp: rules\<close>)
  obtain n2 k2 s2 r2 where 2: "tick me (t + 2000) r1 = Inr (n2, k2, s2, r2)" and l2: "lost m t (t + 2000) e r2"
    by (rule lost_waits [OF l1 assms(2), of "t + 2000"]) (use assms in \<open>auto simp: rules\<close>)
  obtain n3 s3 r3 where 3: "tick me (t + 3000) r2 = Inr (n3, True, s3, r3)" "m \<in> dead_at me (t + 3000) r2"
      "m \<notin> keyset (hb r3)" "\<forall>a \<in> keyset (pending r3). owner_of a \<noteq> m"
    by (rule lost_reaped [OF l2 assms(2), of "t + 3000"]) (use assms in \<open>auto simp: rules\<close>)
  have "sweep_run me t 3 r = Inr r2" using 0 1 2 by (simp add: eval_nat_numeral add.commute)
  moreover have "sweep_run me t 4 r = Inr r3" using 0 1 2 3 by (simp add: eval_nat_numeral add.commute)
  ultimately show thesis using that [of r2 r3] l2 3 by (simp add: lost_def)
qed

lemma lost_run:
  assumes "lost m 0 c e r" and "m \<noteq> me" and "c \<le> t" and "t - c \<le> 1000" and "t + 4000 \<le> e" and "0 < t"
  obtains k r1 r2 where "k = (if TICK \<le> t - c then 3 else 4)" and "sweep_run me t k r = Inr r1"
    and "m \<in> keyset (hb r1)" and "sweep_run me t (Suc k) r = Inr r2"
    and "m \<in> dead_at me (t + 1000 * int k) r1"
    and "m \<notin> keyset (hb r2)" and "\<forall>a \<in> keyset (pending r2). owner_of a \<noteq> m"
proof (cases "TICK \<le> t - c")
  case True
  obtain r1 r2 where "sweep_run me t 3 r = Inr r1" "m \<in> keyset (hb r1)"
      "sweep_run me t 4 r = Inr r2" "m \<in> dead_at me (t + 3000) r1"
      "m \<notin> keyset (hb r2)" "\<forall>a \<in> keyset (pending r2). owner_of a \<noteq> m"
    by (rule lost_marked_run [OF assms(1,2) True]) (use assms in \<open>auto simp: GAP_def\<close>)
  with True show thesis using that [of 3 r1 r2] by simp
next
  case False
  obtain n0 k0 s0 r0 where 0: "tick me t r = Inr (n0, k0, s0, r0)" and l0: "lost m 0 c e r0"
    by (rule lost_waits [OF assms(1,2,3)]) (use assms False in \<open>auto simp: GAP_def\<close>)
  obtain r1 r2 where A: "sweep_run me (t + 1000) 3 r0 = Inr r1" "m \<in> keyset (hb r1)"
    and B: "sweep_run me (t + 1000) 4 r0 = Inr r2" "m \<in> dead_at me (t + 1000 + 3000) r1"
    and C: "m \<notin> keyset (hb r2)" "\<forall>a \<in> keyset (pending r2). owner_of a \<noteq> m"
    by (rule lost_marked_run [OF l0 assms(2), of "t + 1000"]) (use assms False in \<open>auto simp: GAP_def TICK_def\<close>)
  have S: "sweep_run me t (Suc j) r = sweep_run me (t + 1000) j r0" for j
    using 0 by simp
  have "sweep_run me t 4 r = Inr r1" using S [of 3] A(1) by (simp del: sweep_run.simps)
  moreover have "sweep_run me t (Suc 4) r = Inr r2" using S [of 4] B(1) by (simp del: sweep_run.simps)
  ultimately show thesis using False that [of 4 r1 r2] A(2) B(2) C by (simp add: add.commute)
qed

section \<open>The order of acknowledgement IDs\<close>

lemma append_less_iff: "xs @ ys < xs @ zs \<longleftrightarrow> (ys :: string) < zs"
  by (induction xs) simp_all

lemma digit_less: "a < b \<Longrightarrow> b < 10 \<Longrightarrow> digit a < digit b"
  by (simp add: less_char_def digit_def)

lemma read_nat_Cons: "read_nat (c # s) = digit_val c * 10 ^ length s + read_nat s"
  using read_nat_append [of "[c]" s] by (simp add: read_nat_def)

lemma read_nat_bound: "set s \<subseteq> digit ` {..<10} \<Longrightarrow> read_nat s < 10 ^ length s"
proof (induction s)
  case (Cons c s)
  then obtain d where d: "c = digit d" "d < 10" by auto
  from Cons have "read_nat s < 10 ^ length s" by simp
  moreover have "d * 10 ^ length s \<le> 9 * 10 ^ length s" using d by (intro mult_le_mono1) simp
  ultimately have "d * 10 ^ length s + read_nat s < 10 * 10 ^ length s" by linarith
  with d show ?case by (simp add: read_nat_Cons)
qed simp

lemma digits_less:
  "length s = length t \<Longrightarrow> set s \<subseteq> digit ` {..<10} \<Longrightarrow> set t \<subseteq> digit ` {..<10}
   \<Longrightarrow> read_nat s < read_nat t \<Longrightarrow> s < t"
proof (induction s t rule: list_induct2)
  case (Cons c s d t)
  obtain i j where ij: "c = digit i" "d = digit j" "i < 10" "j < 10" using Cons.prems by auto
  have bs: "read_nat s < 10 ^ length s" and bt: "read_nat t < 10 ^ length t"
    using Cons.prems by (auto intro: read_nat_bound)
  have le: "i * 10 ^ length s + read_nat s < j * 10 ^ length s + read_nat t"
    using Cons.prems(3) Cons.hyps ij by (simp add: read_nat_Cons)
  show ?case
  proof (cases "i = j")
    case True
    with le ij Cons show ?thesis by simp
  next
    case False
    have "i < j"
    proof (rule ccontr)
      assume "\<not> i < j"
      with False have "j + 1 \<le> i" by simp
      then have "(j + 1) * 10 ^ length s \<le> i * 10 ^ length s" by (rule mult_le_mono1)
      with le bt Cons.hyps show False by simp
    qed
    with ij digit_less show ?thesis by simp
  qed
qed simp

lemma ack_id_less:
  assumes "m < n" and "n < 10000"
  shows "ack_id w m < ack_id w n"
proof -
  have len: "length (fmt_0d 4 k) = 4" if "k < 10000" for k
    using length_show_nat_le [of k 4] that by (simp add: fmt_0d_def)
  have dig: "set (fmt_0d 4 k) \<subseteq> digit ` {..<10}" for k
    unfolding fmt_0d_def by (rule zpad_digits [OF show_nat_digits])
  have "fmt_0d 4 m < fmt_0d 4 n"
    using len assms dig by (intro digits_less) (simp_all add: fmt_0d_def)
  then show ?thesis unfolding ack_id_def using append_less_iff [of "w @ '':''"] by simp
qed

definition new_ids :: "string \<Rightarrow> nat \<Rightarrow> nat \<Rightarrow> string list" where
  "new_ids w i n = map (ack_id w) [i..<i + n]"

lemma new_ids_sorted: "i + n \<le> 10000 \<Longrightarrow> sorted (new_ids w i n)"
  unfolding new_ids_def
  by (rule sorted_wrt_mono_rel [where P = "(<)" for P, THEN sorted_wrt_map [THEN iffD2]])
     (auto intro!: sorted_wrt_upt less_imp_le ack_id_less)

section \<open>Popped in order, put back in reverse\<close>

fun pops :: "string \<Rightarrow> int \<Rightarrow> nat \<Rightarrow> redis \<Rightarrow> redis" where
  "pops w now 0 r = r"
| "pops w now (Suc k) r = pops w now k (snd (pop_one w now r))"

lemma new_ids_Suc: "new_ids w i (Suc n) = ack_id w i # new_ids w (Suc i) n"
  by (simp add: new_ids_def upt_rec)

lemma pops_spec:
  assumes "redis_ok r" and "owner_ok w" and "lst r = vs @ rest"
  shows "redis_ok (pops w now (length vs) r) \<and> lst (pops w now (length vs) r) = rest
    \<and> pending (pops w now (length vs) r) = pending r @ zip (new_ids w (seq r) (length vs)) vs"
  using assms
proof (induction vs arbitrary: r)
  case Nil
  then show ?case by (simp add: new_ids_def)
next
  case (Cons v vs)
  let ?r = "snd (pop_one w now r)"
  have r: "?r = r\<lparr>lst := vs @ rest, seq := seq r + 1, pending := dset (ack_id w (seq r)) v (pending r),
      dl := dset (ack_id w (seq r)) (now + VT) (dl r), hb := dset w (now + HBT) (hb r)\<rparr>"
    using Cons.prems(3) by (simp add: pop_one_def Let_def)
  have new: "ack_id w (seq r) \<notin> keyset (pending r)" by (rule fresh_id [OF Cons.prems(1,2)]) simp
  have "redis_ok ?r"
    using pop_one_keeps [OF Cons.prems(1,2), of now "fst (pop_one w now r)" ?r] by simp
  from Cons.IH [OF this Cons.prems(2)] new show ?case
    unfolding length_Cons pops.simps by (simp add: r new_ids_Suc dkeys_dset_new keyset_def)
qed

lemma reap_ids_popped:
  assumes "\<forall>a \<in> keyset d. owner_of a \<noteq> w" and "owner_ok w" and "i + length vs \<le> 10000"
    and "pending r = d @ zip (new_ids w i (length vs)) vs"
  shows "reap_ids {w} r = new_ids w i (length vs)"
proof -
  have len: "length (new_ids w i (length vs)) = length vs" by (simp add: new_ids_def)
  have "filter (\<lambda>a. owner_of a \<in> {w}) (dkeys d) = []"
    using assms(1) by (auto simp: filter_empty_conv keyset_def)
  moreover have "filter (\<lambda>a. owner_of a \<in> {w}) (new_ids w i (length vs)) = new_ids w i (length vs)"
    using assms(2) by (auto simp: filter_id_conv new_ids_def)
  ultimately have "filter (\<lambda>a. owner_of a \<in> {w}) (dkeys (pending r)) = new_ids w i (length vs)"
    using len by (simp add: assms(4))
  with new_ids_sorted [OF assms(3), of w] show ?thesis by (simp add: reap_ids_def sort_key_sorted)
qed

lemma map_of_new_ids:
  assumes "dict_ok (d @ zip ids vs)" and "length ids = length vs"
  shows "map (\<lambda>a. the (dget (d @ zip ids vs) a)) ids = vs"
proof (rule nth_equalityI)
  fix i assume "i < length (map (\<lambda>a. the (dget (d @ zip ids vs) a)) ids)"
  then have i: "i < length ids" by simp
  then have "(ids ! i, vs ! i) \<in> set (d @ zip ids vs)" using assms(2) by (auto simp: in_set_zip)
  then have "dget (d @ zip ids vs) (ids ! i) = Some (vs ! i)"
    using assms(1) by (simp only: dict_ok_def map_of_eq_Some_iff)
  with i show "map (\<lambda>a. the (dget (d @ zip ids vs) a)) ids ! i = vs ! i" by simp
qed (use assms in simp)

section \<open>The wake-up\<close>

text \<open>Members of the idle set with a subscriber are woken in the order picked, until the count is reached.\<close>

abbreviation has_sub :: "redis \<Rightarrow> string \<Rightarrow> bool" where
  "has_sub r m \<equiv> dget_or 0 (subs r) m > 0"

lemma wake_full: "n \<le> length w \<Longrightarrow> wake_loop n ms (w, r) = (w, r)"
  by (induction ms) simp_all

lemma wake_loop_spec:
  assumes "wake_loop n ms (w, r) = (w', r')" and "distinct ms" and "set ms \<subseteq> idle r" and "length w \<le> n"
  shows "w' = w @ take (n - length w) (filter (has_sub r) ms) \<and> idle r' \<subseteq> idle r
    \<and> set (take (n - length w) (filter (has_sub r) ms)) \<inter> idle r' = {}
    \<and> (\<forall>m \<in> idle r. has_sub r m \<and> m \<notin> set (take (n - length w) (filter (has_sub r) ms)) \<longrightarrow> m \<in> idle r')"
  using assms
proof (induction ms arbitrary: w r)
  case (Cons k ms)
  show ?case
  proof (cases "length w < n")
    case False
    with Cons.prems wake_full [of n w "k # ms" r] show ?thesis by simp
  next
    case True
    define w1 r1 where "w1 = (if has_sub r k then w @ [k] else w)" and "r1 = r\<lparr>idle := idle r - {k}\<rparr>"
    have 1: "wake_loop n ms (w1, r1) = (w', r')"
      using Cons.prems(1,3) True by (simp add: w1_def r1_def split: if_splits)
    have "set ms \<subseteq> idle r1" using Cons.prems(2,3) by (auto simp: r1_def)
    moreover have "length w1 \<le> n" using True by (simp add: w1_def)
    moreover have sub: "has_sub r1 = has_sub r" by (simp add: r1_def)
    ultimately have ih: "w' = w1 @ take (n - length w1) (filter (has_sub r) ms)" "idle r' \<subseteq> idle r - {k}"
      "set (take (n - length w1) (filter (has_sub r) ms)) \<inter> idle r' = {}"
      "\<forall>m \<in> idle r - {k}. has_sub r m \<and> m \<notin> set (take (n - length w1) (filter (has_sub r) ms)) \<longrightarrow> m \<in> idle r'"
      using Cons.IH [OF 1] Cons.prems(2) by (simp_all add: r1_def)
    show ?thesis
    proof (cases "has_sub r k")
      case True
      with \<open>length w < n\<close> have "take (n - length w) (filter (has_sub r) (k # ms))
          = k # take (n - length w1) (filter (has_sub r) ms)" and "w1 = w @ [k]"
        by (simp_all add: w1_def take_Cons' )
      with ih show ?thesis by auto
    next
      case False
      then have "w1 = w" by (simp add: w1_def)
      with ih False show ?thesis by auto
    qed
  qed
qed simp

end
