(* ===== verification/Dead_Claims.thy ===== *)
theory Dead_Claims
  imports Dead_Story
begin

text \<open>
  The properties of the dead-consumer model \<open>gen_dead.Redis\<close>, with their instances: \<open>killed\<close> is the
  state of the story's row A just after C2 was killed holding J1 and J2.
\<close>

definition killed :: redis where
  "killed = \<lparr>lst = [], pending = [(''C2:0001'', ''J1''), (''C2:0002'', ''J2'')],
     dl = [(''C2:0001'', 295000), (''C2:0002'', 295000)], hb = [(''C2'', 30000)], pres = [(''C2'', 0)],
     clock = Some 0, subs = [(''C1'', 1), (''C2'', 0)], idle = {''C1''}, seq = 3\<rparr>"

lemma story_ids: "ack_id ''C2'' 1 = ''C2:0001''" "ack_id ''C2'' 2 = ''C2:0002''"
  by code_simp+

lemma killed_ok: "redis_ok killed"
proof (rule redis_okI)
  fix a assume "a \<in> keyset (pending killed)"
  then have "a = ack_id ''C2'' 1 \<or> a = ack_id ''C2'' 2" by (simp only: story_ids) (auto simp: killed_def)
  then show "id_ok killed a" unfolding id_ok_def by (auto simp: killed_def owner_ok_def)
qed (auto simp: killed_def dict_ok_def)

section \<open>No job is lost\<close>

lemma store_run_adds: "store_run redis_step ops r = Inr (r', a, f) \<Longrightarrow> a = []"
proof (induction ops arbitrary: r a f)
  case (Cons x ops)
  have "redis_step x r = Inr (s, b, g) \<Longrightarrow> b = []" for s b g by (cases x) auto
  with Cons show ?case by fastforce
qed simp

text \<open>C1: over any sequence of pops, acknowledgements, requeues, sweeps and wake-ups from well-formed keys,
  the jobs in the list and in pending and the acknowledged ones are together exactly the jobs there
  were, the keys stay well formed, and every job still held has an owner with a heartbeat, so that a
  later sweep can find it.\<close>

theorem no_job_lost:
  assumes "redis_ok r" and "list_all rop_ok ops" and "store_run redis_step ops r = Inr (r', a, f)"
  shows "jobs r = jobs r' + mset f \<and> redis_ok r'
    \<and> (\<forall>i \<in> keyset (pending r'). owner_of i \<in> keyset (hb r') \<and> i \<in> keyset (dl r'))"
proof -
  have "redis_ok r'" and "jobs r + mset a = jobs r' + mset f"
    using redis_store.run_keeps [OF assms] by auto
  with store_run_adds [OF assms(3)] held_owner [of r'] redis_okD(5) [of r'] show ?thesis by simp
qed

theorem no_job_lost_witness:
  "\<exists>r'. store_run redis_step [RTick ''C1'' 1300, RTick ''C1'' 2300, RTick ''C1'' 3300, RTick ''C1'' 4300,
       RPop ''C1'' 4310, RAck ''C1:0003''] killed = Inr (r', [], [''J2'']) \<and> jobs killed = jobs r' + {#''J2''#}"
proof -
  let ?ops = "[RTick ''C1'' 1300, RTick ''C1'' 2300, RTick ''C1'' 3300, RTick ''C1'' 4300,
       RPop ''C1'' 4310, RAck ''C1:0003'']"
  have "case store_run redis_step ?ops killed of Inl e \<Rightarrow> False | Inr (r', a, f) \<Rightarrow> a = [] \<and> f = [''J2'']"
    by code_simp
  then obtain r' where r': "store_run redis_step ?ops killed = Inr (r', [], [''J2''])"
    by (auto split: sum.splits prod.splits)
  have "list_all rop_ok ?ops" by (simp add: owner_ok_def)
  from no_job_lost [OF killed_ok this r'] have "jobs killed = jobs r' + {#''J2''#}" by simp
  with r' show ?thesis by blast
qed

section \<open>The sweep\<close>

text \<open>C3: a sweep fails exactly when the shared clock stood still for more than \<open>GAP\<close> or a visibility
  deadline has passed. Otherwise it moves the clock by its rule, puts the jobs of exactly the dead
  owners at the front of the list in the reverse order of their IDs, takes them out of pending with
  their deadlines, drops the dead owners' heartbeats, and keeps everyone else's job and heartbeat,
  its own renewed; an owner that stays gets its presence mark by the rule of the check.\<close>

theorem sweep_result:
  assumes "redis_ok r" and "clock r = Some l"
  shows "(\<forall>e. tick me now r = Inl e \<longleftrightarrow> e = AssertionError \<and> (now - l > GAP \<or> (\<exists>d \<in> set (dvals (dl r)). d \<le> now)))
    \<and> (\<forall>n ticked ns r'. tick me now r = Inr (n, ticked, ns, r') \<longrightarrow>
        ticked = (now - l \<ge> TICK \<or> now < l) \<and> clock r' = Some (if ticked then now else l)
        \<and> n = length (reap_ids (dead_at me now r) r)
        \<and> lst r' = rev (map (\<lambda>i. the (dget (pending r) i)) (reap_ids (dead_at me now r) r)) @ lst r
        \<and> pending r' = filter (\<lambda>p. owner_of (fst p) \<notin> dead_at me now r) (pending r)
        \<and> keyset (dl r') = keyset (pending r') \<and> keyset (hb r') = keyset (hb r) - dead_at me now r
        \<and> (\<forall>m \<in> keyset (hb r'). dget (hb r') m = (if m = me then Some (now + HBT) else dget (hb r) m)
             \<and> (m \<noteq> me \<longrightarrow> dget (pres r') m
                  = (if ticked then new_mark now (subs r) (pres r) m else dget (pres r) m))))"
proof (intro conjI allI impI, goal_cases)
  case (1 e)
  show ?case using assms(2) by (auto simp: tick_fails)
next
  case t: (2 n ticked ns r')
  note s = tick_spec [OF t assms]
  show ?case using s(1) assms(2) by (auto simp: ticks_def)
next
  case t: (3 n ticked ns r')
  show ?case using tick_spec(1,8) [OF t assms] assms(2) by simp
next
  case t: (4 n ticked ns r')
  show ?case by (rule tick_spec(2) [OF t assms])
next
  case t: (5 n ticked ns r')
  show ?case using tick_spec(3) [OF t assms] by (simp add: items_of_def)
next
  case t: (6 n ticked ns r')
  show ?case using tick_spec(4) [OF t assms] by (simp add: without_def)
next
  case t: (7 n ticked ns r')
  show ?case using tick_keeps [OF t assms(1)] redis_okD(5) by simp
next
  case t: (8 n ticked ns r')
  show ?case by (rule tick_spec(5) [OF t assms])
next
  case t: (9 n ticked ns r')
  note s = tick_spec [OF t assms]
  show ?case using s(5-7) by simp
qed

theorem sweep_result_witness:
  "dead_at ''C1'' 30300 (killed\<lparr>clock := Some 29300\<rparr>) = {''C2''} \<and>
   (\<exists>n ticked ns r'. tick ''C1'' 30300 (killed\<lparr>clock := Some 29300\<rparr>) = Inr (n, ticked, ns, r')
     \<and> lst r' = [''J2'', ''J1''] \<and> pending r' = [])"
proof -
  let ?r = "killed\<lparr>clock := Some 29300\<rparr>"
  have d: "dead_at ''C1'' 30300 ?r = {''C2''}"
    by (auto simp: dead_at_def killed_def)
  have ids: "reap_ids {''C2''} ?r = [''C2:0001'', ''C2:0002'']" by code_simp
  have o2: "owner_of ''C2:0001'' = ''C2''" "owner_of ''C2:0002'' = ''C2''" by code_simp+
  have ok: "redis_ok ?r" using killed_ok by simp
  note S = sweep_result [OF ok, of 29300 "''C1''" 30300, unfolded d ids]
  have "tick ''C1'' 30300 ?r \<noteq> Inl e" for e
    using S by (auto simp: killed_def GAP_def)
  then obtain n ticked ns r' where t: "tick ''C1'' 30300 ?r = Inr (n, ticked, ns, r')"
    by (metis prod_cases4 sumE)
  with S have "lst r' = [''J2'', ''J1''] \<and> pending r' = []" by (simp add: killed_def o2)
  with t d show ?thesis by blast
qed

text \<open>C15: a sweep never takes its own Queue object for dead, nor an owner whose heartbeat has not run out
  and that has a subscriber, or no presence mark yet, or one younger than the grace period: they
  keep their heartbeat and everything they hold.\<close>

theorem sweep_spares_the_living:
  assumes "redis_ok r" and "tick me now r = Inr (n, ticked, ns, r')" and "m \<in> keyset (hb r)"
    and "m = me \<or> the (dget (hb r) m) > now \<and>
      (has_sub r m \<or> (case dget (pres r) m of None \<Rightarrow> True | Some x \<Rightarrow> x = 0 \<or> now - x < GRACE))"
  shows "m \<in> keyset (hb r')
    \<and> filter (\<lambda>p. owner_of (fst p) = m) (pending r') = filter (\<lambda>p. owner_of (fst p) = m) (pending r)"
proof (cases "clock r")
  case None
  with assms(2,3) show ?thesis by (auto simp: tick_alt split: if_splits)
next
  case (Some l)
  have m: "m \<notin> dead_at me now r"
    using assms(4) by (auto simp: dead_at_def gone_def split: option.splits)
  note s = tick_spec(4,5) [OF assms(2,1) Some]
  have "filter (\<lambda>p. owner_of (fst p) = m) (pending r') = filter (\<lambda>p. owner_of (fst p) = m) (pending r)"
    unfolding s without_def filter_filter by (rule filter_cong) (use m in auto)
  with s m assms(3) show ?thesis by simp
qed

theorem sweep_spares_the_living_witness:
  "\<exists>n ticked ns r'. tick ''C2'' 1000 killed = Inr (n, ticked, ns, r') \<and> ''C2'' \<in> keyset (hb r')"
proof -
  obtain n ticked ns r' where t: "tick ''C2'' 1000 killed = Inr (n, ticked, ns, r')"
    by (cases "tick ''C2'' 1000 killed") (auto simp: tick_fails killed_def GAP_def)
  have "''C2'' \<in> keyset (hb killed)" by (simp add: killed_def)
  from sweep_spares_the_living [OF killed_ok t this] t show ?thesis by blast
qed

section \<open>How long a lost consumer's jobs stay out\<close>

text \<open>C7: a consumer that loses its subscriber at \<open>kill\<close>, last seen subscribed, with a heartbeat and
  deadlines that last long enough, is found by another object that sweeps once a second from at
  most a second later, whatever its phase against the clock's last move: the consumer keeps its jobs
  before, and the sweep that reaps it runs at least 3 s and at most 4.5 s after the kill, inside
  the 2.5 to 5 s the diagram claims. After it, none of its jobs is pending.\<close>

theorem lost_consumer_detected:
  assumes "redis_ok r" and "m \<in> keyset (hb r)" and "m \<noteq> me" and "\<not> has_sub r m"
    and "dget (pres r) m = Some 0" and "clock r = Some c" and "0 \<le> c" and "c \<le> kill"
    and "kill < t" and "t \<le> kill + 1000" and "t \<le> c + 1000"
    and "the (dget (hb r) m) > kill + 5000" and "\<forall>d \<in> set (dvals (dl r)). d > kill + 5000"
  shows "\<exists>k r1 r2. sweep_run me t k r = Inr r1 \<and> m \<in> keyset (hb r1)
    \<and> sweep_run me t (Suc k) r = Inr r2 \<and> m \<notin> keyset (hb r2)
    \<and> (\<forall>i \<in> keyset (pending r2). owner_of i \<noteq> m)
    \<and> kill + 3000 < t + 1000 * int k \<and> t + 1000 * int k \<le> kill + 4500
    \<and> kill + GRACE \<le> t + 1000 * int k \<and> t + 1000 * int k \<le> kill + 5000"
proof -
  have l: "lost m 0 c (kill + 5000) r" using assms by (auto simp: lost_def)
  have e: "t + 4000 \<le> kill + 5000" using assms by simp
  obtain k r1 r2 where k: "k = (if TICK \<le> t - c then 3 else 4)" and "sweep_run me t k r = Inr r1"
    and "m \<in> keyset (hb r1)" and "sweep_run me t (Suc k) r = Inr r2"
    and "m \<notin> keyset (hb r2)" and "\<forall>a \<in> keyset (pending r2). owner_of a \<noteq> m"
    by (rule lost_run [OF l assms(3)  _ _ e]) (use assms in auto)
  moreover have "kill + 3000 < t + 1000 * int k" and "t + 1000 * int k \<le> kill + 4500"
    using k assms(8-11) by (auto simp: TICK_def split: if_splits)
  moreover have "kill + GRACE \<le> t + 1000 * int k" and "t + 1000 * int k \<le> kill + 5000"
    using k assms(8-11) by (auto simp: TICK_def GRACE_def split: if_splits)
  ultimately show ?thesis by blast
qed

theorem lost_consumer_detected_witness:
  "\<exists>k r2. sweep_run ''C1'' 300 (Suc k) killed = Inr r2 \<and> ''C2'' \<notin> keyset (hb r2) \<and> k \<le> 4"
proof -
  have "\<exists>k r1 r2. sweep_run ''C1'' 300 k killed = Inr r1 \<and> ''C2'' \<in> keyset (hb r1)
    \<and> sweep_run ''C1'' 300 (Suc k) killed = Inr r2 \<and> ''C2'' \<notin> keyset (hb r2)
    \<and> (\<forall>i \<in> keyset (pending r2). owner_of i \<noteq> ''C2'')
    \<and> 100 + 3000 < 300 + 1000 * int k \<and> 300 + 1000 * int k \<le> 100 + 4500
    \<and> 100 + GRACE \<le> 300 + 1000 * int k \<and> 300 + 1000 * int k \<le> 100 + 5000"
    by (rule lost_consumer_detected [OF killed_ok, of "''C2''" "''C1''" 0 100 300])
       (auto simp: killed_def dget_or_def)
  then obtain k r2 where k: "sweep_run ''C1'' 300 (Suc k) killed = Inr r2" "''C2'' \<notin> keyset (hb r2)"
    "300 + 1000 * int k \<le> 100 + 4500" by blast
  from k(3) have "k \<le> 4" by simp
  with k show ?thesis by blast
qed

section \<open>The order the jobs come back in\<close>

text \<open>C10: the jobs a consumer popped one by one, when a sweep finds it and only it dead, are all back at
  the front of the list in the reverse of the order they were popped in (LPUSH in ID order, which is
  pop order below 10000 reservations), and pending is as it was before the pops.\<close>

theorem reaped_in_reverse:
  assumes "redis_ok r" and "owner_ok w" and "lst r = vs @ rest"
    and "\<forall>i \<in> keyset (pending r). owner_of i \<noteq> w" and "seq r + length vs \<le> 10000"
    and "clock (pops w t0 (length vs) r) = Some l"
    and "tick me now (pops w t0 (length vs) r) = Inr (n, ticked, ns, r')"
    and "dead_at me now (pops w t0 (length vs) r) = {w}"
  shows "lst r' = rev vs @ rest \<and> n = length vs \<and> pending r' = pending r"
proof -
  let ?r = "pops w t0 (length vs) r" and ?ids = "new_ids w (seq r) (length vs)"
  have ok: "redis_ok ?r" and li: "lst ?r = rest" and pe: "pending ?r = pending r @ zip ?ids vs"
    using pops_spec [OF assms(1-3)] by auto
  have len: "length ?ids = length vs" by (simp add: new_ids_def)
  have ids: "reap_ids {w} ?r = ?ids" by (rule reap_ids_popped [OF assms(4,2,5) pe])
  have items: "items_of ?ids ?r = vs"
    using map_of_new_ids [OF _ len] redis_okD(1) [OF ok] unfolding items_of_def pe by blast
  note s = tick_spec [OF assms(7) ok assms(6), unfolded assms(8)]
  have "filter (\<lambda>p. owner_of (fst p) \<noteq> w) (zip ?ids vs) = []"
    using assms(2) by (auto simp: filter_empty_conv new_ids_def dest!: set_zip_leftD)
  moreover have "filter (\<lambda>p. owner_of (fst p) \<noteq> w) (pending r) = pending r"
    using assms(4) by (auto simp: filter_id_conv keyset_def)
  ultimately have "pending r' = pending r" using s(4) by (simp add: without_def pe)
  with s(2,3) ids items li len show ?thesis by simp
qed

theorem reaped_in_reverse_witness:
  "\<exists>n ticked ns r'. tick ''C1'' 25300 (pops ''C2'' (-5000) 2
      (Redis\<lparr>lst := [''J1'', ''J2''], clock := Some 24300\<rparr>)) = Inr (n, ticked, ns, r')
    \<and> lst r' = [''J2'', ''J1'']"
proof -
  let ?r = "Redis\<lparr>lst := [''J1'', ''J2''], clock := Some 24300\<rparr>"
  define p where "p = pops ''C2'' (-5000) (length [''J1'', ''J2'']) ?r"
  have ok: "redis_ok ?r" by (intro redis_okI) (simp_all add: Redis_def)
  have c: "clock p = Some 24300" and h: "hb p = [(''C2'', 25000)]"
    by (simp_all add: p_def pop_one_def Redis_def HBT_def Let_def)
  have d: "dead_at ''C1'' 25300 p = {''C2''}" by (auto simp: dead_at_def h)
  have "set (dvals (dl p)) \<subseteq> {295000}"
    by (auto simp: p_def pop_one_def Redis_def Let_def VT_def update_Some_unfold)
  then obtain n ticked ns r' where t: "tick ''C1'' 25300 p = Inr (n, ticked, ns, r')"
    by (cases "tick ''C1'' 25300 p") (auto simp: tick_fails GAP_def c)
  have "lst r' = rev [''J1'', ''J2''] @ [] \<and> n = length [''J1'', ''J2''] \<and> pending r' = pending ?r"
    by (rule reaped_in_reverse [OF ok _ _ _ _ c [unfolded p_def] t [unfolded p_def] d [unfolded p_def]])
       (simp_all add: Redis_def owner_ok_def)
  with t show ?thesis by (auto simp: p_def numeral_2_eq_2)
qed

section \<open>The wake-up\<close>

text \<open>C14: a wake-up for \<open>n\<close> wakes exactly as many idle members as have a subscriber, up to \<open>n\<close>, whatever
  order SPOP picks them in; those it wakes leave the idle set, and no member with a subscriber leaves
  it without being woken.\<close>

theorem wake_count:
  assumes "distinct order" and "set order = idle r" and "wake n order r = (woken, r')"
  shows "length woken = min n (card {m \<in> idle r. has_sub r m}) \<and> distinct woken
    \<and> set woken \<subseteq> {m \<in> idle r. has_sub r m}
    \<and> idle r' \<inter> {m \<in> idle r. has_sub r m} = {m \<in> idle r. has_sub r m} - set woken \<and> idle r' \<subseteq> idle r"
proof -
  let ?f = "filter (has_sub r) order"
  have L: "wake_loop n order ([], r) = (woken, r')" using assms(3) by (simp add: wake_def)
  have s: "woken = take n ?f" "idle r' \<subseteq> idle r" "set (take n ?f) \<inter> idle r' = {}"
      "\<forall>m \<in> idle r. has_sub r m \<and> m \<notin> set (take n ?f) \<longrightarrow> m \<in> idle r'"
    using wake_loop_spec [OF L assms(1)] assms(2) by auto
  have f: "set ?f = {m \<in> idle r. has_sub r m}" using assms(2) by auto
  have "length ?f = card (set ?f)" using distinct_card [of ?f] assms(1) by simp
  then have "length woken = min n (card {m \<in> idle r. has_sub r m})" unfolding f s(1) by simp
  moreover have "set woken \<subseteq> set ?f" unfolding s(1) by (rule set_take_subset)
  moreover have "distinct woken" using assms(1) by (simp add: s(1))
  ultimately show ?thesis using s(2-4) unfolding s(1) [symmetric] f by blast
qed

theorem wake_count_witness:
  "length (fst (wake 2 [''C2'', ''C1''] (killed\<lparr>idle := {''C1'', ''C2''}\<rparr>))) = 1"
proof -
  let ?r = "killed\<lparr>idle := {''C1'', ''C2''}\<rparr>"
  have "{m \<in> idle ?r. has_sub ?r m} = {''C1''}" by (auto simp: killed_def dget_or_def)
  with wake_count [of "[''C2'', ''C1'']" ?r 2 "fst (wake 2 [''C2'', ''C1''] ?r)" "snd (wake 2 [''C2'', ''C1''] ?r)"]
  show ?thesis by auto
qed

end
