(* ===== verification/Dead_Sim.thy ===== *)
theory Dead_Sim
  imports Dead_Redis Heapq
begin

text \<open>
  \<open>gen_dead.simulate\<close>, the event loop of the dead-consumer story over the model of the keys, and
  \<open>gen_dead.facts\<close>, which pulls the drawn moments out of its log and asserts the storyboard's
  invariants on it. Every assertion, missing key and empty \<open>next\<close> or \<open>min\<close> is an error value.
\<close>

section \<open>The story's constants\<close>

definition T0 :: int where [py_defs]: "T0 = -5000"
definition KILL :: int where [py_defs]: "KILL = 100"
definition END :: int where [py_defs]: "END = 34600"
definition WORK :: int where [py_defs]: "WORK = 2000"
definition CONC :: int where [py_defs]: "CONC = 2"
definition WAKE_MS :: int where [py_defs]: "WAKE_MS = 5"
definition POP_MS :: int where [py_defs]: "POP_MS = 5"
definition C2_PHASE :: int where [py_defs]: "C2_PHASE = 0"
definition C1_PHASE :: int where [py_defs]: "C1_PHASE = 300"

datatype story_row = RowA | RowB

section \<open>Events, log and state\<close>

datatype dead_ev = EvSweep string | EvKill string | EvWake nat | EvPop string | EvAck string

text \<open>A sweep's entry: who, whether it moved the clock, its notes, C2's mark and heartbeat, the list.\<close>

record sweep_entry =
  sw_who :: string
  sw_ticked :: bool
  sw_notes :: "sweep_note list"
  sw_mark :: "int option"
  sw_hb :: "int option"
  sw_lst :: "string list"

datatype dead_log =
    LKill
  | LSweep sweep_entry
  | LWake nat "string list" "string list"
  | LPop string string
  | LAck string

record snapshot =
  sn_hb :: "(string, int) dict"
  sn_pres :: "(string, int) dict"
  sn_clock :: "int option"
  sn_lst :: "string list"
  sn_pending :: "(string, string) dict"

record dead_sim = "(int, dead_ev) sched" +
  ds_r :: redis
  ds_alive :: "string set"
  ds_busy :: "(string, string) dict"
  ds_log :: "(int \<times> dead_log) list"
  ds_start :: "snapshot option"
  ds_where :: "(string, (int \<times> string) list) dict"

section \<open>Handlers\<close>

fun perms :: "'a list \<Rightarrow> 'a list list" where
  "perms xs =
     (if xs = [] then [[]]
      else concat (map (\<lambda>i. map (\<lambda>p. xs ! i # p) (perms (take i xs @ drop (Suc i) xs))) [0..<length xs]))"

declare perms.simps [simp del]

definition redis_copy :: "redis \<Rightarrow> redis" where
  "redis_copy r = Redis\<lparr>idle := idle r, subs := subs r\<rparr>"

definition snapshot_of :: "redis \<Rightarrow> snapshot" where
  "snapshot_of r = \<lparr>sn_hb = hb r, sn_pres = pres r, sn_clock = clock r, sn_lst = lst r, sn_pending = pending r\<rparr>"

text \<open>\<open>where[v].append((t, p))\<close>.\<close>

definition place :: "int \<Rightarrow> string \<Rightarrow> string \<Rightarrow> dead_sim \<Rightarrow> dead_sim res" where
  "place t p v s =
     (case dget (ds_where s) v of None \<Rightarrow> Inl KeyError
      | Some w \<Rightarrow> Inr (s\<lparr>ds_where := dset v (w @ [(t, p)]) (ds_where s)\<rparr>))"

definition add_log :: "int \<Rightarrow> dead_log \<Rightarrow> dead_sim \<Rightarrow> dead_sim" where
  "add_log t e s = s\<lparr>ds_log := ds_log s @ [(t, e)]\<rparr>"

definition on_kill :: "story_row \<Rightarrow> int \<Rightarrow> dead_sim \<Rightarrow> dead_sim" where
  "on_kill row t s =
     (let s1 = s\<lparr>ds_start := Some (snapshot_of (ds_r s)), ds_alive := ds_alive s - {''C2''}\<rparr>;
          s2 = (if row = RowA then s1\<lparr>ds_r := (ds_r s1)\<lparr>subs := dset ''C2'' 0 (subs (ds_r s1))\<rparr>\<rparr> else s1)
      in add_log t LKill s2)"

fun is_reap :: "sweep_note \<Rightarrow> bool" where
  "is_reap (Reap _) = True"
| "is_reap _ = False"

definition on_sweep :: "int \<Rightarrow> string \<Rightarrow> dead_sim \<Rightarrow> dead_sim res" where
  "on_sweep t who s =
     (if who \<notin> ds_alive s then Inr s
      else rbind (tick who t (ds_r s)) (\<lambda>(n, ticked, notes, r).
        let s1 = add_log t (LSweep \<lparr>sw_who = who, sw_ticked = ticked, sw_notes = notes,
              sw_mark = dget (pres r) ''C2'', sw_hb = dget (hb r) ''C2'', sw_lst = lst r\<rparr>) (s\<lparr>ds_r := r\<rparr>)
        in rbind (if list_ex is_reap notes then rfold (place t ''list'') (lst r) s1 else Inr s1) (\<lambda>s2.
           Inr (if n \<noteq> 0 \<and> who = ''C1'' then push_ev (t + WAKE_MS) (EvWake n) s2 else s2))))"

definition on_wake :: "int \<Rightarrow> nat \<Rightarrow> dead_sim \<Rightarrow> dead_sim res" where
  "on_wake t n s =
     (let members = sorted_list_of_set (idle (ds_r s));
          outcomes = map (\<lambda>o1. fst (wake n o1 (redis_copy (ds_r s)))) (perms members)
      in rbind (rcheck (\<forall>w \<in> set outcomes. ''C1'' \<in> set w)) (\<lambda>_.
         let (woken, r) = wake n members (ds_r s);
             s1 = add_log t (LWake n woken members) (s\<lparr>ds_r := r\<rparr>);
             free = CONC - int (length (ds_busy s1))
         in Inr (fold (\<lambda>i s. push_ev (t + POP_MS * (int i + 1)) (EvPop ''C1'') s)
                   [0..<nat (min free (int (length (lst r))))] s1)))"

definition on_pop :: "int \<Rightarrow> string \<Rightarrow> dead_sim \<Rightarrow> dead_sim res" where
  "on_pop t who s =
     (case pop_one who t (ds_r s) of
        (None, r) \<Rightarrow> Inl TypeError
      | (Some (aid, v), r) \<Rightarrow>
          let s1 = s\<lparr>ds_r := r, ds_busy := dset aid v (ds_busy s)\<rparr>
          in rbind (place t ''pending:C1'' v s1) (\<lambda>s2.
             Inr (push_ev (t + WORK) (EvAck aid) (add_log t (LPop v aid) s2))))"

definition on_ack :: "int \<Rightarrow> string \<Rightarrow> dead_sim \<Rightarrow> dead_sim res" where
  "on_ack t aid s =
     (case dget (ds_busy s) aid of
        None \<Rightarrow> Inl KeyError
      | Some v \<Rightarrow>
          rbind (ack aid (ds_r s)) (\<lambda>r.
          rbind (place t ''done'' v (s\<lparr>ds_busy := ddel aid (ds_busy s), ds_r := r\<rparr>)) (\<lambda>s1.
          Inr (add_log t (LAck v) s1))))"

fun dead_handle :: "story_row \<Rightarrow> int \<Rightarrow> dead_ev \<Rightarrow> dead_sim \<Rightarrow> dead_sim res" where
  "dead_handle row t (EvKill _) s = Inr (on_kill row t s)"
| "dead_handle row t (EvSweep who) s = on_sweep t who s"
| "dead_handle row t (EvWake n) s = on_wake t n s"
| "dead_handle row t (EvPop who) s = on_pop t who s"
| "dead_handle row t (EvAck aid) s = on_ack t aid s"

section \<open>The run\<close>

definition dead_redis0 :: redis where
  "dead_redis0 =
     (let r = Redis\<lparr>subs := [(''C1'', 1), (''C2'', 1)], idle := {''C1''}, lst := [''J1'', ''J2'']\<rparr>
      in snd (pop_one ''C2'' T0 (snd (pop_one ''C2'' T0 r))))"

definition sweep_times :: "(int \<times> string) list" where
  "sweep_times =
     filter (\<lambda>(t, _). T0 < t \<and> t \<le> END)
       (concat (map (\<lambda>k. [(k * 1000 + C2_PHASE, ''C2''), (k * 1000 + C1_PHASE, ''C1'')])
          [T0 div 1000..END div 1000]))"

definition dead_init :: dead_sim where
  "dead_init =
     (let s0 = \<lparr>ev = [], seqno = 0, ds_r = dead_redis0, ds_alive = {''C1'', ''C2''}, ds_busy = [], ds_log = [],
          ds_start = None, ds_where = [(''J1'', [(T0, ''pending:C2'')]), (''J2'', [(T0, ''pending:C2'')])]\<rparr>
      in push_ev KILL (EvKill ''C2'') (fold (\<lambda>(t, who). push_ev t (EvSweep who)) sweep_times s0))"

definition simulate_dead :: "nat \<Rightarrow> story_row \<Rightarrow> dead_sim res option" where
  "simulate_dead fuel row = run_events (\<lambda>_. False) (dead_handle row) fuel dead_init"

end
