(* ===== verification/Dead_Facts.thy ===== *)
theory Dead_Facts
  imports Dead_Sim
begin

text \<open>
  \<open>gen_dead.facts\<close> and the real-to-drawn time map: \<open>facts\<close> takes a row's final keys, snapshot, log and
  places, asserts the storyboard's invariants and returns the drawn moments in seconds; \<open>TimeMap\<close>
  and \<open>build_map\<close> turn real seconds into drawn seconds.
\<close>

section \<open>Searching the log\<close>

definition next_where :: "('a \<Rightarrow> bool) \<Rightarrow> 'a list \<Rightarrow> 'a res" where
  "next_where P xs = (case List.find P xs of None \<Rightarrow> Inl StopIteration | Some x \<Rightarrow> Inr x)"

definition max_of :: "int list \<Rightarrow> int res" where
  "max_of xs = (if xs = [] then Inl ValueError else Inr (Max (set xs)))"

definition min_of :: "int list \<Rightarrow> int res" where
  "min_of xs = (if xs = [] then Inl ValueError else Inr (Min (set xs)))"

fun sweeps_of :: "(int \<times> dead_log) list \<Rightarrow> (int \<times> sweep_entry) list" where
  "sweeps_of [] = []"
| "sweeps_of ((t, LSweep e) # l) = (t, e) # sweeps_of l"
| "sweeps_of (_ # l) = sweeps_of l"

fun wakes_of :: "(int \<times> dead_log) list \<Rightarrow> (int \<times> nat \<times> string list) list" where
  "wakes_of [] = []"
| "wakes_of ((t, LWake n woken _) # l) = (t, n, woken) # wakes_of l"
| "wakes_of (_ # l) = wakes_of l"

fun pops_of :: "(int \<times> dead_log) list \<Rightarrow> (int \<times> string) list" where
  "pops_of [] = []"
| "pops_of ((t, LPop v _) # l) = (t, v) # pops_of l"
| "pops_of (_ # l) = pops_of l"

fun acks_of :: "(int \<times> dead_log) list \<Rightarrow> (int \<times> string) list" where
  "acks_of [] = []"
| "acks_of ((t, LAck v) # l) = (t, v) # acks_of l"
| "acks_of (_ # l) = acks_of l"

definition by_who :: "string \<Rightarrow> (int \<times> sweep_entry) list \<Rightarrow> (int \<times> sweep_entry) list" where
  "by_who who sw = filter (\<lambda>(t, e). sw_who e = who) sw"

section \<open>The asserted facts\<close>

text \<open>The start state, just before C2 stops.\<close>

definition start_facts :: "snapshot \<Rightarrow> int \<Rightarrow> bool" where
  "start_facts st c2_last \<longleftrightarrow> c2_last = 0 \<and> sn_clock st = Some 0
     \<and> sn_hb st = [(''C2'', HBT)] \<and> sn_pres st = [(''C2'', 0)] \<and> sn_lst st = []
     \<and> sort (dvals (sn_pending st)) = [''J1'', ''J2'']
     \<and> (\<forall>a \<in> set (dkeys (sn_pending st)). take 3 a = ''C2:'')"

text \<open>The clock rule: C2's sweeps moved the clock while it lived, C1's did not, nor its first one after.\<close>

definition clock_facts :: "(int \<times> sweep_entry) list \<Rightarrow> int \<Rightarrow> int \<Rightarrow> int \<Rightarrow> int \<times> sweep_entry \<Rightarrow> bool" where
  "clock_facts sw kill c2_first c2_last first \<longleftrightarrow>
     (\<forall>(t, e) \<in> set (by_who ''C1'' sw). c2_first < t \<and> t < kill \<longrightarrow> \<not> sw_ticked e)
     \<and> (\<forall>(t, e) \<in> set (by_who ''C2'' sw). t > c2_first \<longrightarrow> sw_ticked e)
     \<and> \<not> sw_ticked (snd first) \<and> fst first - c2_last < TICK \<and> sw_notes (snd first) = []"

text \<open>Row A, the process killed: the mark set once, and the reap at the first check past the grace period.\<close>

definition facts_a :: "(int \<times> sweep_entry) list \<Rightarrow> int \<Rightarrow> int \<Rightarrow> int \<Rightarrow> sweep_entry \<Rightarrow> int \<Rightarrow> int list \<Rightarrow> int res" where
  "facts_a sw kill c2_first reap1 reaper out marks =
     (case marks of [] \<Rightarrow> Inl IndexError
      | mark # rest \<Rightarrow>
        let c1 = by_who ''C1'' sw
        in rbind (rcheck (rest = [])) (\<lambda>_.
           rbind (next_where (\<lambda>(t, e). t > kill \<and> sw_ticked e) c1) (\<lambda>(t1, _).
           rbind (rcheck (mark = t1)) (\<lambda>_.
           rbind (rcheck (\<forall>(t, e) \<in> set sw. c2_first \<le> t \<and> t < mark \<longrightarrow> sw_mark e = Some 0)) (\<lambda>_.
           rbind (next_where (\<lambda>(t, e). t > mark \<and> sw_ticked e \<and> t - mark \<ge> GRACE) c1) (\<lambda>(t2, _).
           rbind (rcheck (reap1 = t2)) (\<lambda>_.
           rbind (rcheck (Gone ''C2'' \<in> set (sw_notes reaper) \<and> HeartbeatOut ''C2'' \<notin> set (sw_notes reaper))) (\<lambda>_.
           rbind (rcheck (filter (\<lambda>(t, e). mark \<le> t \<and> t \<le> reap1) (by_who ''C2'' sw) = [])) (\<lambda>_.
           rbind (rcheck (\<forall>(t, e) \<in> set c1. mark < t \<and> t < reap1
                            \<longrightarrow> sw_ticked e \<and> Waiting ''C2'' \<in> set (sw_notes e))) (\<lambda>_.
           rbind (rcheck (out > reap1)) (\<lambda>_.
           rbind (rcheck (GRACE \<le> reap1 - kill \<and> reap1 - kill \<le> GRACE + 2500)) (\<lambda>_.
           Inr mark))))))))))))"

text \<open>Row B, the host lost: the mark stays 0, and the reap is at the first sweep past the heartbeat.\<close>

definition facts_b :: "(int \<times> sweep_entry) list \<Rightarrow> int \<Rightarrow> int \<Rightarrow> sweep_entry \<Rightarrow> int \<Rightarrow> int list \<Rightarrow> unit res" where
  "facts_b sw c2_first reap1 reaper out marks =
     rbind (rcheck (marks = [] \<and> (\<forall>(t, e) \<in> set sw. c2_first \<le> t \<and> t < reap1 \<longrightarrow> sw_mark e = Some 0))) (\<lambda>_.
     rbind (min_of (map fst (filter (\<lambda>(t, e). t \<ge> out) (by_who ''C1'' sw)))) (\<lambda>t1.
     rbind (rcheck (reap1 = t1)) (\<lambda>_.
     rbind (rcheck (HeartbeatOut ''C2'' \<in> set (sw_notes reaper))) (\<lambda>_.
     rcheck (30000 \<le> reap1 \<and> reap1 \<le> 31000)))))"

text \<open>Both rows: the reap, the wake-up, the pops in list order, and where every job has been.\<close>

definition end_facts :: "redis \<Rightarrow> sweep_entry \<Rightarrow> int \<Rightarrow> int \<times> nat \<times> string list \<Rightarrow> (int \<times> string) list
    \<Rightarrow> (int \<times> string) list \<Rightarrow> (string, (int \<times> string) list) dict \<Rightarrow> bool" where
  "end_facts r reaper reap1 wk ps as whr \<longleftrightarrow>
     sw_who reaper = ''C1'' \<and> sw_hb reaper = None \<and> sw_mark reaper = None
     \<and> sw_lst reaper = [''J2'', ''J1'']
     \<and> fst (snd wk) = 2 \<and> ''C1'' \<in> set (snd (snd wk)) \<and> fst wk - reap1 < 1000
     \<and> map snd ps = sw_lst reaper
     \<and> length (remdups (map snd as)) = 2 \<and> lst r = [] \<and> pending r = []
     \<and> (\<forall>(v, w) \<in> set whr. map snd w = [''pending:C2'', ''list'', ''pending:C1'', ''done'']
          \<and> map fst w = sort (map fst w))"

record dead_facts =
  f_kill :: rat
  f_c2_last :: rat
  f_skip :: rat
  f_mark :: "rat option"
  f_reap :: rat
  f_wake :: rat
  f_pops :: "(rat \<times> string) list"
  f_acks :: "(rat \<times> string) list"
  f_hb_out :: rat
  f_order :: "string list"
  f_woken :: "string list"
  f_sweeps :: "(rat \<times> bool \<times> sweep_note list) list"

definition secs :: "int \<Rightarrow> rat" where
  "secs ms = of_int ms / 1000"

definition facts :: "story_row \<Rightarrow> redis \<Rightarrow> snapshot option \<Rightarrow> (int \<times> dead_log) list
    \<Rightarrow> (string, (int \<times> string) list) dict \<Rightarrow> dead_facts res" where
  "facts row r start lg whr =
     (let sw = sweeps_of lg; c1 = by_who ''C1'' sw; c2 = by_who ''C2'' sw; ps = pops_of lg; as = acks_of lg
      in rbind (next_where (\<lambda>(t, k). k = LKill) lg) (\<lambda>(kill, _).
         rbind (next_where (\<lambda>(t, e). list_ex is_reap (sw_notes e)) sw) (\<lambda>(reap1, _).
         rbind (next_where (\<lambda>(t, e). t = reap1) sw) (\<lambda>(_, reaper).
         rbind (next_where (\<lambda>_. True) (wakes_of lg)) (\<lambda>wk.
         rbind (max_of (map fst c2)) (\<lambda>c2_last.
         rbind (next_where (\<lambda>(t, e). t > kill) c1) (\<lambda>first.
         case start of None \<Rightarrow> Inl TypeError
         | Some st \<Rightarrow>
           rbind (rcheck (start_facts st c2_last)) (\<lambda>_.
           rbind (min_of (map fst c2)) (\<lambda>c2_first.
           rbind (rcheck (clock_facts sw kill c2_first c2_last first)) (\<lambda>_.
           let marks = map fst (filter (\<lambda>(t, e). Mark ''C2'' \<in> set (sw_notes e)) sw)
           in case dget (sn_hb st) ''C2'' of None \<Rightarrow> Inl KeyError
              | Some out \<Rightarrow>
                rbind (case row of
                         RowA \<Rightarrow> rbind (facts_a sw kill c2_first reap1 reaper out marks) (\<lambda>m. Inr (Some m))
                       | RowB \<Rightarrow> rbind (facts_b sw c2_first reap1 reaper out marks) (\<lambda>_. Inr None)) (\<lambda>mark.
                rbind (rcheck (end_facts r reaper reap1 wk ps as whr)) (\<lambda>_.
                Inr \<lparr>f_kill = secs kill, f_c2_last = secs c2_last, f_skip = secs (fst first),
                     f_mark = (case mark of None \<Rightarrow> None | Some m \<Rightarrow> if m = 0 then None else Some (secs m)),
                     f_reap = secs reap1, f_wake = secs (fst wk),
                     f_pops = map (\<lambda>(t, v). (secs t, v)) ps, f_acks = map (\<lambda>(t, v). (secs t, v)) as,
                     f_hb_out = secs out, f_order = sw_lst reaper, f_woken = snd (snd wk),
                     f_sweeps = map (\<lambda>(t, e). (secs t, sw_ticked e, sw_notes e))
                                  (filter (\<lambda>(t, e). t > kill) c1)\<rparr>))))))))))))"

text \<open>A row's facts: \<open>facts(row, *simulate(row))\<close>.\<close>

definition row_facts :: "nat \<Rightarrow> story_row \<Rightarrow> dead_facts res option" where
  "row_facts fuel row =
     (case simulate_dead fuel row of None \<Rightarrow> None
      | Some (Inl e) \<Rightarrow> Some (Inl e)
      | Some (Inr s) \<Rightarrow> Some (facts row (ds_r s) (ds_start s) (ds_log s) (ds_where s)))"

section \<open>Real and drawn time\<close>

type_synonym knot = "rat \<times> rat"

definition TimeMap :: "knot list \<Rightarrow> knot list res" where
  "TimeMap knots =
     (if \<forall>(a, b) \<in> set (zip knots (tl knots)). fst a < fst b \<and> snd a < snd b then Inr knots
      else Inl AssertionError)"

fun map_loop :: "(knot \<times> knot) list \<Rightarrow> rat \<Rightarrow> rat res" where
  "map_loop [] s = Inl ValueError"
| "map_loop (((r0, d0), (r1, d1)) # ps) s =
     (if s \<le> r1 then Inr (d0 + (s - r0) * (d1 - d0) / (r1 - r0)) else map_loop ps s)"

definition map_time :: "knot list \<Rightarrow> rat \<Rightarrow> rat res" where
  "map_time k s =
     (case k of [] \<Rightarrow> Inl IndexError
      | p # _ \<Rightarrow> if s \<le> fst p then Inr (snd p) else map_loop (zip k (tl k)) s)"

definition R_rate :: rat where "R_rate = 7 / 10"
definition FF :: "rat \<times> rat" where "FF = (9, 29)"
definition FF_DRAWN :: rat where "FF_DRAWN = 25 / 10"

definition lin :: "rat \<Rightarrow> knot list \<Rightarrow> knot list" where
  "lin s k = k @ [(s, snd (last k) + (s - fst (last k)) * R_rate)]"

definition slow :: "dead_facts \<Rightarrow> knot list \<Rightarrow> knot list res" where
  "slow f k =
     (case f_pops f of
        p0 # p1 # _ \<Rightarrow> Inr (fold (\<lambda>s k. k @ [(s, snd (last k) + 5 / 10)]) [f_wake f, fst p0, fst p1] k)
      | _ \<Rightarrow> Inl IndexError)"

definition build_map :: "dead_facts \<Rightarrow> dead_facts \<Rightarrow> knot list res" where
  "build_map fa fb =
     rbind (rcheck (f_skip fa = f_skip fb \<and> f_kill fa = f_kill fb)) (\<lambda>_.
     case f_mark fa of None \<Rightarrow> Inl TypeError
     | Some mark \<Rightarrow>
       let k0 = [(0, 4 / 10), (f_kill fa, 1), (f_skip fa, 18 / 10), (mark, 3)]
       in rbind (slow fa (lin (f_reap fa) k0)) (\<lambda>k1.
          let k2 = lin (fst FF) k1; k3 = k2 @ [(snd FF, snd (last k2) + FF_DRAWN)]
          in rbind (slow fb (lin (f_reap fb) k3)) (\<lambda>k4.
             TimeMap (lin (secs END) k4))))"

end
