(* ===== verification/Dead_Run.thy ===== *)
theory Dead_Run
  imports Dead_Facts Dead_Story
begin

text \<open>
  Properties of the dead-consumer simulation: what its event loop keeps for any heap of events, the
  facts of the two drawn rows, and the time map.
\<close>

section \<open>The event loop keeps the jobs\<close>

text \<open>The jobs in the keys together with the ones the log has as acknowledged.\<close>

definition all_jobs :: "dead_sim \<Rightarrow> string multiset" where
  "all_jobs s = jobs (ds_r s) + mset (map snd (acks_of (ds_log s)))"

fun ev_ok :: "dead_ev \<Rightarrow> bool" where
  "ev_ok (EvPop who) = owner_ok who"
| "ev_ok _ = True"

text \<open>What C1 runs agrees with what is pending under the same ID.\<close>

definition busy_ok :: "(string, string) dict \<Rightarrow> (string, string) dict \<Rightarrow> bool" where
  "busy_ok busy pend \<longleftrightarrow> (\<forall>a v w. dget busy a = Some v \<and> dget pend a = Some w \<longrightarrow> v = w)"

definition sim_ok :: "dead_sim \<Rightarrow> bool" where
  "sim_ok s \<longleftrightarrow> redis_ok (ds_r s) \<and> (\<forall>x \<in> set (ev s). ev_ok (snd x))
     \<and> busy_ok (ds_busy s) (pending (ds_r s))"

lemma busy_ok_sub: "busy_ok b p \<Longrightarrow> map_of p' \<subseteq>\<^sub>m map_of p \<Longrightarrow> busy_ok b p'"
  by (auto simp: busy_ok_def map_le_def dom_def)

lemma busy_ok_pop: "busy_ok b p \<Longrightarrow> busy_ok (dset a v b) (dset a v p)"
  by (auto simp: busy_ok_def update_conv')

lemma busy_ok_del: "busy_ok b p \<Longrightarrow> busy_ok (ddel a b) (ddel a p)"
  by (auto simp: busy_ok_def delete_conv')

lemma tick_pending:
  assumes "tick me t r = Inr (n, ticked, ns, r')" and "redis_ok r"
  shows "map_of (pending r') \<subseteq>\<^sub>m map_of (pending r)"
proof (cases "clock r")
  case None
  with assms(1) show ?thesis by (auto simp: tick_alt split: if_splits)
next
  case (Some l)
  show ?thesis unfolding tick_spec(4) [OF assms Some] by (auto simp: map_le_def dget_without split: if_splits)
qed

lemma acks_of_append: "acks_of (l @ l') = acks_of l @ acks_of l'"
  by (induction l rule: acks_of.induct) simp_all

lemma add_log_keeps:
  "sim_ok (add_log t e s) = sim_ok s"
  "all_jobs (add_log t e s) = all_jobs s + mset (map snd (acks_of [(t, e)]))"
  by (simp_all add: add_log_def sim_ok_def all_jobs_def acks_of_append)

lemma place_keeps: "place t p v s = Inr s' \<Longrightarrow> sim_ok s' = sim_ok s \<and> all_jobs s' = all_jobs s"
  by (auto simp: place_def sim_ok_def all_jobs_def split: option.splits)

lemma places_keep:
  "rfold (place t p) vs s = Inr s' \<Longrightarrow> sim_ok s' = sim_ok s \<and> all_jobs s' = all_jobs s"
  using place_keeps by (induction vs arbitrary: s) fastforce+

lemma push_ev_keeps:
  "sim_ok (push_ev t e s) \<longleftrightarrow> ev_ok e \<and> sim_ok s" "all_jobs (push_ev t e s) = all_jobs s"
  by (auto simp: sim_ok_def all_jobs_def) (simp_all add: push_ev_def)

lemma set_keys_keeps:
  "redis_ok r \<Longrightarrow> sim_ok s \<Longrightarrow> map_of (pending r) \<subseteq>\<^sub>m map_of (pending (ds_r s)) \<Longrightarrow> sim_ok (s\<lparr>ds_r := r\<rparr>)"
  "jobs r = jobs (ds_r s) \<Longrightarrow> all_jobs (s\<lparr>ds_r := r\<rparr>) = all_jobs s"
  by (auto simp: sim_ok_def all_jobs_def intro: busy_ok_sub)

lemma set_other_keeps [simp]:
  "all_jobs (s\<lparr>ds_busy := b\<rparr>) = all_jobs s"
  "sim_ok (s\<lparr>ds_start := st\<rparr>) = sim_ok s" "all_jobs (s\<lparr>ds_start := st\<rparr>) = all_jobs s"
  "sim_ok (s\<lparr>ds_alive := al\<rparr>) = sim_ok s" "all_jobs (s\<lparr>ds_alive := al\<rparr>) = all_jobs s"
  by (simp_all add: sim_ok_def all_jobs_def)

lemma on_kill_keeps:
  "sim_ok s \<Longrightarrow> sim_ok (on_kill row t s) \<and> all_jobs (on_kill row t s) = all_jobs s"
  by (simp add: on_kill_def Let_def add_log_keeps) (simp add: sim_ok_def all_jobs_def redis_ok_def id_ok_def jobs_def)

lemma on_sweep_keeps:
  assumes "sim_ok s" and "on_sweep t who s = Inr s'"
  shows "sim_ok s' \<and> all_jobs s' = all_jobs s"
proof (cases "who \<in> ds_alive s")
  case True
  then obtain n ticked ns r s2 e where t: "tick who t (ds_r s) = Inr (n, ticked, ns, r)"
    and p: "(if list_ex is_reap ns then rfold (place t ''list'') (lst r) (add_log t (LSweep e) (s\<lparr>ds_r := r\<rparr>))
             else Inr (add_log t (LSweep e) (s\<lparr>ds_r := r\<rparr>))) = Inr s2"
    and s': "s' = (if n \<noteq> 0 \<and> who = ''C1'' then push_ev (t + WAKE_MS) (EvWake n) s2 else s2)"
    using assms(2) by (auto simp: on_sweep_def Let_def)
  have r: "redis_ok r" "jobs r = jobs (ds_r s)" "map_of (pending r) \<subseteq>\<^sub>m map_of (pending (ds_r s))"
    using tick_keeps [OF t] tick_pending [OF t] assms(1) by (simp_all add: sim_ok_def)
  have "sim_ok s2 \<and> all_jobs s2 = all_jobs s"
    using p places_keep [of t "''list''" "lst r" "add_log t (LSweep e) (s\<lparr>ds_r := r\<rparr>)" s2]
      set_keys_keeps(1) [OF r(1) assms(1) r(3)] set_keys_keeps(2) [OF r(2)]
    by (auto simp: add_log_keeps split: if_splits)
  then show ?thesis by (simp add: s' push_ev_keeps)
qed (use assms in \<open>simp add: on_sweep_def\<close>)

lemma push_all_keeps:
  "sim_ok s \<Longrightarrow> ev_ok e \<Longrightarrow>
     sim_ok (fold (\<lambda>i s. push_ev (f i) e s) xs s) \<and> all_jobs (fold (\<lambda>i s. push_ev (f i) e s) xs s) = all_jobs s"
  by (induction xs arbitrary: s) (simp_all add: push_ev_keeps)

lemma on_wake_keeps:
  assumes "sim_ok s" and "on_wake t n s = Inr s'"
  shows "sim_ok s' \<and> all_jobs s' = all_jobs s"
proof -
  let ?ms = "sorted_list_of_set (idle (ds_r s))"
  obtain w r where w: "wake n ?ms (ds_r s) = (w, r)" by force
  let ?s1 = "add_log t (LWake n w ?ms) (s\<lparr>ds_r := r\<rparr>)"
  obtain k where s': "s' = fold (\<lambda>i s. push_ev (t + POP_MS * (int i + 1)) (EvPop ''C1'') s) [0..<k] ?s1"
    using assms(2) w by (auto simp: on_wake_def Let_def)
  have "pending r = pending (ds_r s)" using wake_loop_state [of n ?ms "[]" "ds_r s"] w by (auto simp: wake_def)
  then have r: "redis_ok r" "jobs r = jobs (ds_r s)" "map_of (pending r) \<subseteq>\<^sub>m map_of (pending (ds_r s))"
    using wake_keeps [of "ds_r s" n ?ms] assms(1) w by (simp_all add: sim_ok_def)
  have "sim_ok ?s1 \<and> all_jobs ?s1 = all_jobs s"
    using set_keys_keeps(1) [OF r(1) assms(1) r(3)] set_keys_keeps(2) [OF r(2)] by (simp add: add_log_keeps)
  with push_all_keeps [of ?s1 "EvPop ''C1''"] show ?thesis by (simp add: s' owner_ok_def)
qed

lemma on_pop_keeps:
  assumes "sim_ok s" and "owner_ok who" and "on_pop t who s = Inr s'"
  shows "sim_ok s' \<and> all_jobs s' = all_jobs s"
proof -
  obtain aid v r s2 where p: "pop_one who t (ds_r s) = (Some (aid, v), r)"
    and pl: "place t ''pending:C1'' v (s\<lparr>ds_r := r, ds_busy := dset aid v (ds_busy s)\<rparr>) = Inr s2"
    and s': "s' = push_ev (t + WORK) (EvAck aid) (add_log t (LPop v aid) s2)"
    using assms(3) by (auto simp: on_pop_def Let_def split: prod.splits option.splits)
  have r: "redis_ok r" "jobs r = jobs (ds_r s)"
    using pop_one_keeps [OF _ assms(2) p] assms(1) by (simp_all add: sim_ok_def)
  have "pending r = dset aid v (pending (ds_r s))"
    using p by (auto simp: pop_one_def Let_def split: list.splits)
  then have "sim_ok (s\<lparr>ds_r := r, ds_busy := dset aid v (ds_busy s)\<rparr>)"
    using r assms(1) by (simp add: sim_ok_def busy_ok_pop)
  then have "sim_ok s2 \<and> all_jobs s2 = all_jobs s"
    using place_keeps [OF pl] set_keys_keeps(2) [OF r(2)] by simp
  then show ?thesis by (simp add: s' push_ev_keeps add_log_keeps)
qed

lemma on_ack_keeps:
  assumes "sim_ok s" and "on_ack t aid s = Inr s'"
  shows "sim_ok s' \<and> all_jobs s' = all_jobs s"
proof -
  obtain v r s2 where b: "dget (ds_busy s) aid = Some v" and a: "ack aid (ds_r s) = Inr r"
    and pl: "place t ''done'' v (s\<lparr>ds_busy := ddel aid (ds_busy s), ds_r := r\<rparr>) = Inr s2"
    and s': "s' = add_log t (LAck v) s2"
    using assms(2) by (auto simp: on_ack_def split: option.splits)
  have ok: "redis_ok (ds_r s)" and bu: "busy_ok (ds_busy s) (pending (ds_r s))"
    using assms(1) by (simp_all add: sim_ok_def)
  obtain w where w: "dget (pending (ds_r s)) aid = Some w" "jobs (ds_r s) = add_mset w (jobs r)" "redis_ok r"
    using ack_keeps [OF ok a] by blast
  have vw: "w = v" using bu b w(1) by (auto simp: busy_ok_def)
  have "pending r = ddel aid (pending (ds_r s))" using a by (auto simp: ack_def split: option.splits)
  then have "sim_ok (s\<lparr>ds_busy := ddel aid (ds_busy s), ds_r := r\<rparr>)"
    using assms(1) w(3) by (simp add: sim_ok_def busy_ok_del)
  with place_keeps [OF pl] w(2) vw show ?thesis by (simp add: s' add_log_keeps) (simp add: all_jobs_def)
qed

lemma dead_handle_keeps:
  assumes "sim_ok s" and "ev_ok e" and "dead_handle row t e s = Inr s'"
  shows "sim_ok s' \<and> all_jobs s' = all_jobs s"
proof (cases e)
  case (EvSweep who)
  with on_sweep_keeps [OF assms(1)] assms(3) show ?thesis by simp
next
  case (EvKill who)
  with on_kill_keeps [OF assms(1)] assms(3) show ?thesis by auto
next
  case (EvWake n)
  with on_wake_keeps [OF assms(1)] assms(3) show ?thesis by simp
next
  case (EvPop who)
  with on_pop_keeps [OF assms(1)] assms(2,3) show ?thesis by simp
next
  case (EvAck aid)
  with on_ack_keeps [OF assms(1)] assms(3) show ?thesis by simp
qed

section \<open>The time map is strictly monotone\<close>

definition interp :: "knot \<Rightarrow> knot \<Rightarrow> rat \<Rightarrow> rat" where
  "interp p q s = snd p + (s - fst p) * (snd q - snd p) / (fst q - fst p)"

definition knots_ok :: "knot list \<Rightarrow> bool" where
  "knots_ok k \<longleftrightarrow> (\<forall>(a, b) \<in> set (zip k (tl k)). fst a < fst b \<and> snd a < snd b)"

lemma knots_ok_Cons:
  "knots_ok (p # q # k) \<longleftrightarrow> fst p < fst q \<and> snd p < snd q \<and> knots_ok (q # k)"
  by (simp add: knots_ok_def)

lemma map_loop_Cons:
  "map_loop (zip (p # q # k) (q # k)) s = (if s \<le> fst q then Inr (interp p q s) else map_loop (zip (q # k) k) s)"
  by (cases p; cases q) (simp add: interp_def)

lemma interp_ends [simp]: "interp p q (fst p) = snd p" "fst p < fst q \<Longrightarrow> interp p q (fst q) = snd q"
  by (simp_all add: interp_def)

lemma interp_mono:
  assumes "fst p < fst q" and "snd p < snd q" and "s < s'"
  shows "interp p q s < interp p q s'"
proof -
  have "(s - fst p) * ((snd q - snd p) / (fst q - fst p)) < (s' - fst p) * ((snd q - snd p) / (fst q - fst p))"
    using assms by (intro mult_strict_right_mono divide_pos_pos) simp_all
  then show ?thesis by (simp add: interp_def)
qed

lemma map_loop_above:
  "knots_ok (p # k) \<Longrightarrow> fst p < s \<Longrightarrow> map_loop (zip (p # k) k) s = Inr d \<Longrightarrow> snd p < d"
proof (induction k arbitrary: p)
  case (Cons q k)
  note k = Cons.prems(1) [unfolded knots_ok_Cons]
  show ?case
  proof (cases "s \<le> fst q")
    case True
    with Cons.prems(3) have "d = interp p q s" unfolding map_loop_Cons by simp
    with interp_mono [of p q "fst p" s] k Cons.prems(2) show ?thesis by simp
  next
    case False
    with Cons.prems(3) have "map_loop (zip (q # k) k) s = Inr d" unfolding map_loop_Cons by simp
    with Cons.IH [of q] k False show ?thesis by simp
  qed
qed simp

lemma map_loop_mono:
  "knots_ok (p # k) \<Longrightarrow> fst p < s \<Longrightarrow> s < s' \<Longrightarrow> map_loop (zip (p # k) k) s = Inr d
   \<Longrightarrow> map_loop (zip (p # k) k) s' = Inr d' \<Longrightarrow> d < d'"
proof (induction k arbitrary: p)
  case (Cons q k)
  note k = Cons.prems(1) [unfolded knots_ok_Cons]
  note loops = Cons.prems(4,5) [unfolded map_loop_Cons]
  consider "s' \<le> fst q" | "s \<le> fst q" "fst q < s'" | "fst q < s" using Cons.prems(3) by linarith
  then show ?case
  proof cases
    case 1
    with loops Cons.prems(3) interp_mono [of p q s s'] k show ?thesis by simp
  next
    case 2
    then have d: "d = interp p q s" and l: "map_loop (zip (q # k) k) s' = Inr d'" using loops by simp_all
    have "d \<le> snd q"
    proof (cases "s = fst q")
      case False
      with 2 k interp_mono [of p q s "fst q"] show ?thesis by (simp add: d)
    qed (use k in \<open>simp add: d\<close>)
    with map_loop_above [of q k s' d'] k 2 l show ?thesis by simp
  next
    case 3
    with loops Cons.prems(3) have "map_loop (zip (q # k) k) s = Inr d" "map_loop (zip (q # k) k) s' = Inr d'"
      by simp_all
    with Cons.IH [of q] k 3 Cons.prems(3) show ?thesis by simp
  qed
qed simp

lemma knots_last_ge: "knots_ok (q # k) \<Longrightarrow> fst q \<le> fst (last (q # k))"
proof (induction k arbitrary: q)
  case (Cons q' k)
  from Cons.prems have "fst q < fst q'" and "knots_ok (q' # k)" by (simp_all add: knots_ok_Cons)
  with Cons.IH [of q'] show ?case by simp
qed simp

lemma map_loop_defined:
  "knots_ok (p # k) \<Longrightarrow> fst p < s \<Longrightarrow> (\<exists>d. map_loop (zip (p # k) k) s = Inr d) \<longleftrightarrow> s \<le> fst (last (p # k))"
proof (induction k arbitrary: p)
  case (Cons q k)
  note k = Cons.prems(1) [unfolded knots_ok_Cons]
  have up: "fst q \<le> fst (last (q # k))" using k by (intro knots_last_ge) simp
  show ?case
  proof (cases "s \<le> fst q")
    case True
    with up show ?thesis unfolding map_loop_Cons by simp
  next
    case False
    with Cons.IH [of q] k show ?thesis unfolding map_loop_Cons by simp
  qed
qed simp

lemma map_loop_knot:
  "knots_ok (p # k) \<Longrightarrow> x \<in> set k \<Longrightarrow> fst p < fst x \<and> map_loop (zip (p # k) k) (fst x) = Inr (snd x)"
proof (induction k arbitrary: p)
  case (Cons q k)
  note k = Cons.prems(1) [unfolded knots_ok_Cons]
  show ?case
  proof (cases "x = q")
    case True
    with k show ?thesis unfolding map_loop_Cons by simp
  next
    case False
    with Cons.prems(2) have "x \<in> set k" by simp
    with Cons.IH [of q] k have "fst q < fst x" "map_loop (zip (q # k) k) (fst x) = Inr (snd x)" by auto
    with k show ?thesis unfolding map_loop_Cons by simp
  qed
qed simp

lemma next_event_keeps:
  assumes "sim_ok s" and "ev s = (k, e) # h"
  shows "ev_ok e \<and> sim_ok (s\<lparr>ev := h\<rparr>) \<and> all_jobs (s\<lparr>ev := h\<rparr>) = all_jobs s"
  using assms by (simp add: sim_ok_def all_jobs_def)

lemma dead_run_keeps:
  assumes "sim_ok s" and "run_events stop (dead_handle row) fuel s = Some (Inr s')"
  shows "sim_ok s' \<and> all_jobs s' = all_jobs s"
proof (rule run_events_invariant [OF assms(2), where I = "\<lambda>x. sim_ok x \<and> all_jobs x = all_jobs s"])
  fix k e h x x'
  assume x: "sim_ok x \<and> all_jobs x = all_jobs s" and ev: "ev x = (k, e) # h"
    and h: "dead_handle row (stime k) e (x\<lparr>ev := h\<rparr>) = Inr x'"
  have "ev_ok e" "sim_ok (x\<lparr>ev := h\<rparr>)" "all_jobs (x\<lparr>ev := h\<rparr>) = all_jobs s"
    using next_event_keeps [of x k e h] x ev by auto
  with dead_handle_keeps [OF _ _ h] show "sim_ok x' \<and> all_jobs x' = all_jobs s" by simp
next
  fix k e h x
  assume "sim_ok x \<and> all_jobs x = all_jobs s" and "ev x = (k, e) # h"
  with next_event_keeps [of x k e h] show "sim_ok (x\<lparr>ev := h\<rparr>) \<and> all_jobs (x\<lparr>ev := h\<rparr>) = all_jobs s" by simp
qed (use assms(1) in simp)

lemma dead_redis0_ok: "redis_ok dead_redis0 \<and> jobs dead_redis0 = {#''J1'', ''J2''#}"
proof -
  let ?r = "Redis\<lparr>subs := [(''C1'', 1), (''C2'', 1)], idle := {''C1''}, lst := [''J1'', ''J2'']\<rparr>"
  have o2: "owner_ok ''C2''" by (simp add: owner_ok_def)
  have r: "redis_ok ?r" "jobs ?r = {#''J1'', ''J2''#}"
    by (intro redis_okI, simp_all add: Redis_def jobs_def)
  obtain x1 r1 where 1: "pop_one ''C2'' T0 ?r = (x1, r1)" by force
  obtain x2 r2 where 2: "pop_one ''C2'' T0 r1 = (x2, r2)" by force
  have "redis_ok r1 \<and> jobs r1 = jobs ?r" by (rule pop_one_keeps [OF r(1) o2 1])
  with pop_one_keeps [OF _ o2 2] r(2) show ?thesis by (simp add: dead_redis0_def Let_def 1 2)
qed

lemma dead_init_ok: "sim_ok dead_init \<and> all_jobs dead_init = {#''J1'', ''J2''#}"
proof -
  have push: "sim_ok s \<Longrightarrow> sim_ok (fold (\<lambda>(t, who). push_ev t (EvSweep who)) xs s)
      \<and> all_jobs (fold (\<lambda>(t, who). push_ev t (EvSweep who)) xs s) = all_jobs s" for s xs
    by (induction xs arbitrary: s) (auto simp: push_ev_keeps)
  let ?s = "\<lparr>ev = [], seqno = 0, ds_r = dead_redis0, ds_alive = {''C1'', ''C2''}, ds_busy = [], ds_log = [],
      ds_start = None, ds_where = [(''J1'', [(T0, ''pending:C2'')]), (''J2'', [(T0, ''pending:C2'')])]\<rparr>"
  have "sim_ok ?s" "all_jobs ?s = {#''J1'', ''J2''#}"
    using dead_redis0_ok by (simp_all add: sim_ok_def all_jobs_def busy_ok_def)
  with push [of ?s sweep_times] show ?thesis by (simp add: dead_init_def Let_def push_ev_keeps)
qed

section \<open>The properties\<close>

text \<open>C16: the event loop of the dead-consumer story, from any heap of events and any well-formed keys and
  for as many events as it is run, loses and doubles no job: the jobs in the keys and the ones
  logged as acknowledged stay the same multiset, in whatever order sweeps, the kill, wake-ups, pops
  and acknowledgements come.\<close>

theorem event_loop_keeps_jobs:
  assumes "sim_ok s" and "run_events stop (dead_handle row) fuel s = Some (Inr s')"
  shows "all_jobs s' = all_jobs s \<and> redis_ok (ds_r s')"
  using dead_run_keeps [OF assms] by (simp add: sim_ok_def)

theorem event_loop_keeps_jobs_witness:
  "\<exists>s. run_events (\<lambda>t. t > 20000) (dead_handle RowA) 200 dead_init = Some (Inr s)
     \<and> all_jobs s = {#''J1'', ''J2''#}"
proof -
  have "case run_events (\<lambda>t. t > 20000) (dead_handle RowA) 200 dead_init of
      Some (Inr s) \<Rightarrow> True | _ \<Rightarrow> False" by code_simp
  then obtain s where s: "run_events (\<lambda>t. t > 20000) (dead_handle RowA) 200 dead_init = Some (Inr s)"
    by (auto split: option.splits sum.splits)
  with event_loop_keeps_jobs [OF _ s] dead_init_ok show ?thesis by simp
qed

text \<open>C19: with fuel for 200 events or more both rows of the story run to the end and every assertion of
  \<open>facts\<close> holds: killed at .1 s, row A's consumer is marked at 1.3 s and reaped at 4.3 s by absence,
  row B's is never marked and reaped at 30.3 s when its heartbeat has run out, and in both C1 is
  woken and pops J2 before J1.\<close>

theorem both_rows_hold:
  assumes "200 \<le> fuel"
  shows "(\<exists>f. row_facts fuel RowA = Some (Inr f) \<and> f_kill f = 1 / 10 \<and> f_mark f = Some (13 / 10)
      \<and> f_reap f = 43 / 10 \<and> f_woken f = [''C1''] \<and> map snd (f_pops f) = [''J2'', ''J1''])
    \<and> (\<exists>f. row_facts fuel RowB = Some (Inr f) \<and> f_kill f = 1 / 10 \<and> f_mark f = None
      \<and> f_reap f = 303 / 10 \<and> f_woken f = [''C1''] \<and> map snd (f_pops f) = [''J2'', ''J1''])"
proof -
  have more: "row_facts fuel row = row_facts 200 row" if "row_facts 200 row = Some (Inr f)" for row f
  proof -
    from that obtain s where "simulate_dead 200 row = Some (Inr s)"
      by (auto simp: row_facts_def split: option.splits sum.splits)
    then have "simulate_dead fuel row = simulate_dead 200 row"
      unfolding simulate_dead_def using run_events_mono [OF _ assms] by metis
    then show ?thesis by (simp add: row_facts_def)
  qed
  have a: "case row_facts 200 RowA of Some (Inr f) \<Rightarrow> f_kill f = 1 / 10 \<and> f_mark f = Some (13 / 10)
      \<and> f_reap f = 43 / 10 \<and> f_woken f = [''C1''] \<and> map snd (f_pops f) = [''J2'', ''J1''] | _ \<Rightarrow> False"
    by code_simp
  have b: "case row_facts 200 RowB of Some (Inr f) \<Rightarrow> f_kill f = 1 / 10 \<and> f_mark f = None
      \<and> f_reap f = 303 / 10 \<and> f_woken f = [''C1''] \<and> map snd (f_pops f) = [''J2'', ''J1''] | _ \<Rightarrow> False"
    by code_simp
  from a more [of RowA] b more [of RowB] show ?thesis by (auto split: option.splits sum.splits)
qed

theorem both_rows_hold_witness:
  "\<exists>f. row_facts 1000 RowA = Some (Inr f) \<and> f_reap f = 43 / 10"
  using both_rows_hold [of 1000] by auto

text \<open>C23: a time map that the constructor accepts answers exactly for times up to its last knot, maps
  every knot to its drawn second, and from the first knot on a later real time is drawn strictly later.\<close>

theorem time_map_monotone:
  assumes "TimeMap knots = Inr k" and "k \<noteq> []"
  shows "(\<forall>s. (\<exists>d. map_time k s = Inr d) \<longleftrightarrow> s \<le> fst (last k))
    \<and> (\<forall>x \<in> set k. map_time k (fst x) = Inr (snd x))
    \<and> (\<forall>s s' d d'. fst (hd k) \<le> s \<and> s < s' \<and> map_time k s = Inr d \<and> map_time k s' = Inr d' \<longrightarrow> d < d')"
proof -
  have ok: "knots_ok k" using assms(1) by (auto simp: TimeMap_def knots_ok_def split: if_splits)
  obtain p ks where k: "k = p # ks" using assms(2) by (cases k) auto
  note ok = ok [unfolded k]
  have at: "map_time k s = (if s \<le> fst p then Inr (snd p) else map_loop (zip (p # ks) ks) s)" for s
    by (simp add: map_time_def k)
  show ?thesis
  proof (intro conjI allI ballI impI, goal_cases)
    case (1 s)
    have "s \<le> fst p \<Longrightarrow> s \<le> fst (last (p # ks))" using knots_last_ge [OF ok] by simp
    with map_loop_defined [OF ok, of s] show ?case unfolding at by (auto simp: k)
  next
    case (2 x)
    with map_loop_knot [OF ok, of x] show ?case unfolding at by (auto simp: k)
  next
    case (3 s s' d d')
    then have s: "fst p \<le> s" "s < s'" "map_time k s = Inr d" "map_loop (zip (p # ks) ks) s' = Inr d'"
      by (auto simp: k at [unfolded k])
    show ?case
    proof (cases "s = fst p")
      case True
      with s map_loop_above [OF ok _ s(4)] show ?thesis by (simp add: at)
    next
      case False
      with s map_loop_mono [OF ok _ s(2) _ s(4)] show ?thesis by (simp add: at)
    qed
  qed
qed

theorem time_map_monotone_witness:
  "\<exists>k d. TimeMap [(0, 2 / 5), (1 / 10, 1), (3 / 10, 9 / 5)] = Inr k \<and> map_time k (2 / 10) = Inr d \<and> 1 < d"
proof -
  let ?k = "[(0, 2 / 5), (1 / 10, 1), (3 / 10, 9 / 5)] :: knot list"
  have t: "TimeMap ?k = Inr ?k" by code_simp
  have m: "map_time ?k (1 / 10) = Inr 1" "map_time ?k (2 / 10) = Inr (7 / 5)" by code_simp+
  with time_map_monotone [OF t] have "(1 :: rat) < 7 / 5" by simp
  with t m show ?thesis by blast
qed

end
