(* ===== verification/Consumers.thy ===== *)
theory Consumers
  imports Prelude
begin

text \<open>
  The two consumers of the wake-up and the close story. Both generators key their dictionaries by
  exactly these two names, so a dictionary over them is a total function.
\<close>

datatype cons = C1 | C2

lemma cons_finite [simp]: "finite (A :: cons set)"
proof (rule finite_subset)
  show "A \<subseteq> {C1, C2}" using cons.exhaust by blast
qed simp

lemma cons_all: "(\<forall>c. P c) \<longleftrightarrow> P C1 \<and> P C2"
  by (metis cons.exhaust)

lemma cons_sets: "A = {} \<or> (\<exists>c. A = {c}) \<or> A = {C1, C2}"
proof -
  have "A \<subseteq> {C1, C2}" using cons.exhaust by blast
  then have "A \<in> Pow {C1, C2}" by simp
  then have "A \<in> {{}, {C1}, {C2}, {C1, C2}}" by (simp only: Pow_insert Pow_empty) auto
  then show ?thesis by auto
qed

text \<open>
  An update of such a dictionary. It is the function update, written so that evaluation keeps two
  values and no chain of updates.
\<close>

definition two :: "'a \<Rightarrow> 'a \<Rightarrow> cons \<Rightarrow> 'a" where
  "two a b m = (case m of C1 \<Rightarrow> a | C2 \<Rightarrow> b)"

definition cput :: "cons \<Rightarrow> 'a \<Rightarrow> (cons \<Rightarrow> 'a) \<Rightarrow> cons \<Rightarrow> 'a" where
  "cput m v f = (case m of C1 \<Rightarrow> two v (f C2) | C2 \<Rightarrow> two (f C1) v)"

lemma cput_upd [simp]: "cput m v f = f(m := v)"
  by (auto simp: cput_def two_def fun_eq_iff split: cons.splits)

end
