(* ===== verification/Wake_Sim.thy ===== *)
theory Wake_Sim
  imports Walks Heapq Consumers
begin

text \<open>
  \<open>gen_wake.simulate\<close>: two consumers, a list, the \<open>:idle\<close> set, enqueues that wake idle members,
  once-a-second nudges, and varmq's pull behind a gate that a busy consumer keeps shut. The local
  state of \<open>simulate\<close> is a record that extends the scheduler, every closure (\<open>member\<close>, \<open>pull\<close>,
  \<open>signal\<close>) and every branch of the event loop is one operation, and the logs are fields.
\<close>

section \<open>Scenario\<close>

fun nudge_phase :: "cons \<Rightarrow> rat" where
  "nudge_phase C1 = 3 / 10"
| "nudge_phase C2 = 8 / 10"

definition ENQ_wake :: "(rat \<times> string) list" where
  "ENQ_wake = [(1 / 2, ''X''), (185 / 100, ''Y'')]"

definition SPOP_PICK :: "cons list" where
  "SPOP_PICK = [C1, C2]"

definition WORK_wake :: rat where "WORK_wake = 2"
definition WAKE_V :: rat where "WAKE_V = 1200"
definition POP_V :: rat where "POP_V = 900"
definition LOCAL_wake :: rat where "LOCAL_wake = 4 / 100"
definition HORIZON_wake :: rat where "HORIZON_wake = 12"

fun X0 :: "cons \<Rightarrow> rat" where
  "X0 C1 = 600"
| "X0 C2 = 776"

definition PORT :: "cons \<Rightarrow> rat" where
  "PORT c = X0 c + 24"

definition wake_route :: "cons \<Rightarrow> (rat \<times> rat) list" where
  "wake_route c = [(440, 173), (PORT c, 173), (PORT c, 222)]"

definition pop_route :: "cons \<Rightarrow> (rat \<times> rat) list" where
  "pop_route c = [(440, 341), (PORT c, 341), (PORT c, 322)]"

section \<open>State\<close>

text \<open>\<open>busy[c]\<close> is None, the string "dispatching", or the job it runs.\<close>

datatype work = Dispatching | Running string

datatype sig_kind = SigWake | SigPoke

datatype why = Spop | ByLen | ByNudge | PopMiss

datatype wake_ev =
    WEnqueue string
  | WNudge cons
  | WSignal cons sig_kind
  | WPop cons
  | WDone cons string

record wake_sim = "(rat, wake_ev) sched" +
  wqueue :: "string list"
  widle :: "cons set"
  wbusy :: "cons \<Rightarrow> work option"
  wfree :: "cons \<Rightarrow> bool"
  wpicks :: "cons list"
  wlog_enq :: "(rat \<times> string \<times> nat \<times> cons list \<times> cons set) list"
  wlog_wake :: "(rat \<times> cons \<times> rat \<times> string) list"
  wlog_nudge :: "(rat \<times> cons \<times> nat \<times> bool \<times> bool \<times> bool) list"
  wlog_signal :: "(rat \<times> cons \<times> sig_kind \<times> bool) list"
  wlog_pop :: "(rat \<times> cons \<times> string \<times> rat) list"
  wlog_run :: "(cons \<times> string \<times> rat \<times> rat) list"
  wlog_member :: "(rat \<times> cons \<times> bool \<times> why) list"
  wlog_stay :: "(rat \<times> cons) list"
  wlog_states :: "(rat \<times> string \<times> string list \<times> cons set \<times> work option \<times> work option) list"

text \<open>\<open>push\<close> rounds the time to four decimals.\<close>

definition wpush :: "rat \<Rightarrow> wake_ev \<Rightarrow> wake_sim \<Rightarrow> wake_sim" where
  "wpush t e s = push_ev (py_round 4 t) e s"

section \<open>The closures\<close>

definition member :: "rat \<Rightarrow> cons \<Rightarrow> bool \<Rightarrow> why \<Rightarrow> wake_sim \<Rightarrow> wake_sim" where
  "member t c now_in y s =
     (let s1 = (if (c \<in> widle s) \<noteq> now_in then s\<lparr>wlog_member := wlog_member s @ [(t, c, now_in, y)]\<rparr> else s)
      in s1\<lparr>widle := (if now_in then insert c (widle s1) else widle s1 - {c})\<rparr>)"

definition pull :: "rat \<Rightarrow> cons \<Rightarrow> wake_sim \<Rightarrow> wake_sim" where
  "pull t c s =
     (if wqueue s = []
      then (let s1 = member t c True ByLen s in s1\<lparr>wfree := (wfree s1)(c := True)\<rparr>)
      else wpush (t + LOCAL_wake) (WPop c) (s\<lparr>wbusy := (wbusy s)(c := Some Dispatching)\<rparr>))"

definition signal_wake :: "rat \<Rightarrow> cons \<Rightarrow> sig_kind \<Rightarrow> wake_sim \<Rightarrow> wake_sim" where
  "signal_wake t c k s =
     (if wbusy s c \<noteq> None then s\<lparr>wlog_signal := wlog_signal s @ [(t, c, k, False)]\<rparr>
      else pull t c (s\<lparr>wlog_signal := wlog_signal s @ [(t, c, k, True)]\<rparr>))"

section \<open>The branches of the loop\<close>

text \<open>The wake script's loop: SPOP picks until as many are woken as items wait, or \<open>:idle\<close> is empty.\<close>

fun wake_while :: "nat \<Rightarrow> rat \<Rightarrow> string \<Rightarrow> cons list \<Rightarrow> cons list \<Rightarrow> wake_sim \<Rightarrow> (cons list \<times> wake_sim) res" where
  "wake_while n t job woken picks s =
     (if length woken < n \<and> widle s \<noteq> {}
      then (case picks of
              [] \<Rightarrow> Inl StopIteration
            | c # ps \<Rightarrow>
                if c \<in> widle s
                then (let s1 = member t c False Spop (s\<lparr>wpicks := ps\<rparr>);
                          arrive = py_round 4 (t + plen (wake_route c) / WAKE_V);
                          s2 = s1\<lparr>wlog_wake := wlog_wake s1 @ [(t, c, arrive, job)]\<rparr>
                      in wake_while n t job (woken @ [c]) ps (wpush arrive (WSignal c SigWake) s2))
                else Inl AssertionError)
      else Inr (woken, s))"

declare wake_while.simps [simp del]

definition on_enqueue_wake :: "rat \<Rightarrow> string \<Rightarrow> wake_sim \<Rightarrow> wake_sim res" where
  "on_enqueue_wake t job s =
     (let s1 = s\<lparr>wqueue := wqueue s @ [job]\<rparr>; n = length (wqueue s1); idle0 = widle s1
      in rbind (wake_while n t job [] (wpicks s1) s1) (\<lambda>(woken, s2).
         Inr (s2\<lparr>wlog_enq := wlog_enq s2 @ [(t, job, n, woken, idle0)]\<rparr>)))"

definition on_nudge_wake :: "rat \<Rightarrow> cons \<Rightarrow> wake_sim \<Rightarrow> wake_sim" where
  "on_nudge_wake t c s =
     (let n = length (wqueue s); was_busy = (wbusy s c \<noteq> None);
          s1 = (if n > 0 then member t c False ByNudge s
                else if wfree s c then member t c True ByNudge s
                else if c \<notin> widle s then s\<lparr>wlog_stay := wlog_stay s @ [(t, c)]\<rparr>
                else s);
          s2 = s1\<lparr>wlog_nudge := wlog_nudge s1 @ [(t, c, n, was_busy, wfree s1 c, c \<in> widle s1)]\<rparr>;
          s3 = (if n > 0 then signal_wake t c SigPoke s2 else s2)
      in wpush (t + 1) (WNudge c) s3)"

text \<open>A pop that finds nothing goes on without the entry in \<open>states\<close>: the flag says which.\<close>

definition on_pop_wake :: "rat \<Rightarrow> cons \<Rightarrow> wake_sim \<Rightarrow> bool \<times> wake_sim" where
  "on_pop_wake t c s =
     (case wqueue s of
        [] \<Rightarrow> (let s1 = member t c True PopMiss s
               in (False, s1\<lparr>wfree := (wfree s1)(c := True), wbusy := (wbusy s1)(c := None)\<rparr>))
      | job # rest \<Rightarrow>
          let arrive = py_round 4 (t + plen (pop_route c) / POP_V)
          in (True, wpush (arrive + WORK_wake) (WDone c job)
               (s\<lparr>wqueue := rest, wfree := (wfree s)(c := False), wbusy := (wbusy s)(c := Some (Running job)),
                  wlog_pop := wlog_pop s @ [(t, c, job, arrive)],
                  wlog_run := wlog_run s @ [(c, job, arrive, arrive + WORK_wake)]\<rparr>)))"

definition on_done_wake :: "rat \<Rightarrow> cons \<Rightarrow> wake_sim \<Rightarrow> wake_sim" where
  "on_done_wake t c s = pull t c (s\<lparr>wbusy := (wbusy s)(c := None)\<rparr>)"

definition log_state :: "rat \<Rightarrow> string \<Rightarrow> wake_sim \<Rightarrow> wake_sim" where
  "log_state t kind s = s\<lparr>wlog_states := wlog_states s @ [(t, kind, wqueue s, widle s, wbusy s C1, wbusy s C2)]\<rparr>"

fun wake_handle :: "rat \<Rightarrow> wake_ev \<Rightarrow> wake_sim \<Rightarrow> wake_sim res" where
  "wake_handle t (WEnqueue job) s = rbind (on_enqueue_wake t job s) (\<lambda>s1. Inr (log_state t ''enqueue'' s1))"
| "wake_handle t (WNudge c) s = Inr (log_state t ''nudge'' (on_nudge_wake t c s))"
| "wake_handle t (WSignal c k) s = Inr (log_state t ''signal'' (signal_wake t c k s))"
| "wake_handle t (WPop c) s = (let (hit, s1) = on_pop_wake t c s in Inr (if hit then log_state t ''pop'' s1 else s1))"
| "wake_handle t (WDone c job) s = Inr (log_state t ''done'' (on_done_wake t c s))"

section \<open>The run\<close>

definition wake_start :: "cons list \<Rightarrow> wake_sim" where
  "wake_start picks =
     \<lparr>ev = [], seqno = 0, wqueue = [], widle = {C1, C2}, wbusy = (\<lambda>_. None), wfree = (\<lambda>_. True),
      wpicks = picks, wlog_enq = [], wlog_wake = [], wlog_nudge = [], wlog_signal = [], wlog_pop = [],
      wlog_run = [], wlog_member = [], wlog_stay = [], wlog_states = []\<rparr>"

definition wake_init :: "(rat \<times> string) list \<Rightarrow> cons list \<Rightarrow> wake_sim" where
  "wake_init enq picks =
     fold (\<lambda>c. wpush (nudge_phase c) (WNudge c)) [C1, C2]
       (fold (\<lambda>(t, job). wpush t (WEnqueue job)) enq (wake_start picks))"

definition simulate_wake :: "nat \<Rightarrow> (rat \<times> string) list \<Rightarrow> cons list \<Rightarrow> wake_sim res option" where
  "simulate_wake fuel enq picks =
     run_events (\<lambda>t. t > HORIZON_wake) wake_handle fuel (wake_init enq picks)"

end
