(* ===== verification/Wake_Inv.thy ===== *)
theory Wake_Inv
  imports Wake_Sim
begin

text \<open>
  The invariant of the wake-up simulation, for any enqueues and any picks of SPOP: the gate (a
  consumer is busy exactly while one pop or one job end of its own is under way), the runs of a
  consumer one after the other, and a flag that is down while it runs a job.
\<close>

section \<open>The invariant\<close>

definition evs :: "wake_sim \<Rightarrow> wake_ev multiset" where
  "evs s = image_mset snd (mset (ev s))"

fun is_done :: "cons \<Rightarrow> wake_ev \<Rightarrow> bool" where
  "is_done c (WDone c' j) = (c' = c)"
| "is_done c _ = False"

fun running :: "work option \<Rightarrow> bool" where
  "running (Some (Running j)) = True"
| "running _ = False"

definition gate :: "cons \<Rightarrow> wake_sim \<Rightarrow> bool" where
  "gate c s \<longleftrightarrow> count (evs s) (WPop c) = (if wbusy s c = Some Dispatching then 1 else 0)
     \<and> size (filter_mset (is_done c) (evs s)) = (if running (wbusy s c) then 1 else 0)"

text \<open>From the pop to the job's end.\<close>

definition spans :: "cons \<Rightarrow> wake_sim \<Rightarrow> (rat \<times> rat) list" where
  "spans c s = map (\<lambda>(t, c', j, a). (t, a + WORK_wake)) (filter (\<lambda>(t, c', j, a). c' = c) (wlog_pop s))"

definition ended :: "rat \<Rightarrow> cons \<Rightarrow> wake_sim \<Rightarrow> bool" where
  "ended t c s \<longleftrightarrow>
     (if running (wbusy s c)
      then \<forall>sp \<in> set (spans c s). \<forall>x \<in> set (ev s). is_done c (snd x) \<longrightarrow> snd sp \<le> stime (fst x)
      else \<forall>sp \<in> set (spans c s). snd sp \<le> t)"

definition disjoint_runs :: "(rat \<times> rat) list \<Rightarrow> bool" where
  "disjoint_runs sps = sorted_wrt (\<lambda>a b. snd a \<le> fst b) sps"

definition times_ok :: "rat \<Rightarrow> wake_sim \<Rightarrow> bool" where
  "times_ok t s \<longleftrightarrow> heap_ok (ev s) \<and> py_round 4 t = t
     \<and> (\<forall>x \<in> set (ev s). t \<le> stime (fst x) \<and> py_round 4 (stime (fst x)) = stime (fst x))"

definition winv :: "rat \<Rightarrow> wake_sim \<Rightarrow> bool" where
  "winv t s \<longleftrightarrow> times_ok t s
     \<and> (\<forall>c. gate c s \<and> ended t c s \<and> disjoint_runs (spans c s) \<and> (running (wbusy s c) \<longrightarrow> \<not> wfree s c))"

lemma winvD:
  "winv t s \<Longrightarrow> times_ok t s"
  "winv t s \<Longrightarrow> gate c s"
  "winv t s \<Longrightarrow> ended t c s"
  "winv t s \<Longrightarrow> disjoint_runs (spans c s)"
  "winv t s \<Longrightarrow> running (wbusy s c) \<Longrightarrow> \<not> wfree s c"
  by (simp_all add: winv_def)

lemma winvI:
  "times_ok t s \<Longrightarrow> (\<And>c. gate c s) \<Longrightarrow> (\<And>c. ended t c s) \<Longrightarrow> (\<And>c. disjoint_runs (spans c s))
   \<Longrightarrow> (\<And>c. running (wbusy s c) \<Longrightarrow> \<not> wfree s c) \<Longrightarrow> winv t s"
  by (simp add: winv_def)

section \<open>Pushing an event\<close>

lemma wpush_simps [simp]:
  "evs (wpush t e s) = add_mset e (evs s)"
  "wqueue (wpush t e s) = wqueue s" "widle (wpush t e s) = widle s" "wbusy (wpush t e s) = wbusy s"
  "wfree (wpush t e s) = wfree s" "wlog_pop (wpush t e s) = wlog_pop s" "wlog_enq (wpush t e s) = wlog_enq s"
  "wpicks (wpush t e s) = wpicks s" "wlog_wake (wpush t e s) = wlog_wake s" "wlog_member (wpush t e s) = wlog_member s"
  "set (ev (wpush t e s)) = insert (Stamp (py_round 4 t) (seqno s), e) (set (ev s))"
  by (simp_all add: wpush_def evs_def) (simp_all add: push_ev_def)

lemma spans_wpush [simp]: "spans c (wpush t e s) = spans c s"
  by (simp add: spans_def)

lemma heap_ok_wpush: "heap_ok (ev s) \<Longrightarrow> heap_ok (ev (wpush t e s))"
  by (simp add: wpush_def push_ev_ok)

lemma times_ok_wpush:
  assumes "times_ok t s" and "t \<le> u"
  shows "times_ok t (wpush u e s)"
proof -
  have "t \<le> py_round 4 u" using assms py_round_mono [of t u 4] by (simp add: times_ok_def)
  with assms show ?thesis by (simp add: times_ok_def heap_ok_wpush)
qed

text \<open>An event that is neither a pop nor a job end changes nothing the invariant speaks of.\<close>

fun plain :: "wake_ev \<Rightarrow> bool" where
  "plain (WPop c) = False"
| "plain (WDone c j) = False"
| "plain _ = True"

lemma plain_simps: "plain e \<Longrightarrow> \<not> is_done c e" "plain e \<Longrightarrow> e \<noteq> WPop c"
  by (cases e; simp)+

lemma winv_plain:
  assumes "winv t s" and "plain e" and "t \<le> u"
  shows "winv t (wpush u e s)"
  using assms times_ok_wpush [of t s u e] plain_simps [OF assms(2)]
  by (auto simp: winv_def gate_def ended_def)

text \<open>What the invariant depends on.\<close>

lemma winv_cong:
  assumes "ev s' = ev s" and "wbusy s' = wbusy s" and "wlog_pop s' = wlog_pop s"
    and "\<And>c. running (wbusy s c) \<Longrightarrow> wfree s' c \<Longrightarrow> wfree s c" and "winv t s"
  shows "winv t s'"
proof -
  have "spans c s' = spans c s" "evs s' = evs s" for c using assms(1,3) by (simp_all add: spans_def evs_def)
  with assms show ?thesis by (auto simp: winv_def gate_def ended_def times_ok_def)
qed

lemma member_simps [simp]:
  "ev (member t c b y s) = ev s" "wbusy (member t c b y s) = wbusy s" "wlog_pop (member t c b y s) = wlog_pop s"
  "wfree (member t c b y s) = wfree s" "wqueue (member t c b y s) = wqueue s"
  "wlog_enq (member t c b y s) = wlog_enq s" "wpicks (member t c b y s) = wpicks s"
  "widle (member t c b y s) = (if b then insert c (widle s) else widle s - {c})"
  "seqno (member t c b y s) = seqno s" "wlog_wake (member t c b y s) = wlog_wake s"
  by (simp_all add: member_def Let_def)

lemma winv_member [simp]: "winv t (member u c b y s) = winv t s"
proof
  show "winv t s \<Longrightarrow> winv t (member u c b y s)" by (rule winv_cong [of _ s]) simp_all
  show "winv t (member u c b y s) \<Longrightarrow> winv t s" by (rule winv_cong [of _ "member u c b y s"]) simp_all
qed

section \<open>The closures keep it\<close>

lemma winv_dispatch:
  assumes "winv t s" and "wbusy s c = None" and "t \<le> u"
  shows "winv t (wpush u (WPop c) (s\<lparr>wbusy := (wbusy s)(c := Some Dispatching)\<rparr>))"
proof (rule winvI)
  let ?s = "s\<lparr>wbusy := (wbusy s)(c := Some Dispatching)\<rparr>"
  have e: "evs ?s = evs s" "\<And>d. spans d ?s = spans d s" by (simp_all add: evs_def spans_def)
  show "times_ok t (wpush u (WPop c) ?s)"
    using times_ok_wpush [of t ?s u] winvD(1) [OF assms(1)] assms(3) by (simp add: times_ok_def)
  fix d
  show "gate d (wpush u (WPop c) ?s)"
    using winvD(2) [OF assms(1), of d] assms(2) by (cases "d = c") (simp_all add: gate_def e)
  show "ended t d (wpush u (WPop c) ?s)"
    using winvD(3) [OF assms(1), of d] assms(2) by (cases "d = c") (simp_all add: ended_def e)
  show "disjoint_runs (spans d (wpush u (WPop c) ?s))"
    using winvD(4) [OF assms(1), of d] by (simp add: e)
  show "running (wbusy (wpush u (WPop c) ?s) d) \<Longrightarrow> \<not> wfree (wpush u (WPop c) ?s) d"
    using winvD(5) [OF assms(1), of d] by (cases "d = c") simp_all
qed

lemma winv_pull: "winv t s \<Longrightarrow> wbusy s c = None \<Longrightarrow> winv t (pull t c s)"
proof (cases "wqueue s")
  case Nil
  assume a: "winv t s" "wbusy s c = None"
  from Nil have "pull t c s = (member t c True ByLen s)\<lparr>wfree := (wfree s)(c := True)\<rparr>"
    by (simp add: pull_def Let_def)
  moreover have "winv t ((member t c True ByLen s)\<lparr>wfree := (wfree s)(c := True)\<rparr>)"
    by (rule winv_cong [of _ "member t c True ByLen s"]) (use a in \<open>simp_all split: if_splits\<close>)
  ultimately show ?thesis by simp
next
  case (Cons j q)
  assume "winv t s" "wbusy s c = None"
  from winv_dispatch [OF this, of "t + LOCAL_wake"] Cons show ?thesis by (simp add: pull_def LOCAL_wake_def)
qed

lemma winv_signal: "winv t s \<Longrightarrow> winv t (signal_wake t c k s)"
proof -
  assume a: "winv t s"
  let ?f = "\<lambda>b. s\<lparr>wlog_signal := wlog_signal s @ [(t, c, k, b)]\<rparr>"
  have "winv t (?f b)" for b by (rule winv_cong [of _ s]) (use a in simp_all)
  then show ?thesis using winv_pull [of t "?f True" c] by (simp add: signal_wake_def)
qed

section \<open>Taking the next event\<close>

lemma times_ok_take:
  assumes "times_ok t0 s" and "ev s = (k, e) # h"
  shows "t0 \<le> stime k \<and> times_ok (stime k) (s\<lparr>ev := h\<rparr>)"
proof -
  have "heap_ok h" and le: "\<forall>x \<in> set h. k \<le> fst x"
    using assms by (auto simp: times_ok_def heap_ok_def)
  moreover have "\<forall>x \<in> set h. stime k \<le> stime (fst x)" using le stamp_le_time by blast
  ultimately show ?thesis using assms by (simp add: times_ok_def)
qed

lemma evs_take: "ev s = (k, e) # h \<Longrightarrow> evs s = add_mset e (evs (s\<lparr>ev := h\<rparr>))"
  by (simp add: evs_def)

lemma winv_take_plain:
  assumes "winv t0 s" and "ev s = (k, e) # h" and "plain e"
  shows "winv (stime k) (s\<lparr>ev := h\<rparr>)"
proof (rule winvI)
  note T = times_ok_take [OF winvD(1) [OF assms(1)] assms(2)]
  show "times_ok (stime k) (s\<lparr>ev := h\<rparr>)" using T by simp
  have sp: "spans d (s\<lparr>ev := h\<rparr>) = spans d s" for d by (simp add: spans_def)
  fix d
  show "gate d (s\<lparr>ev := h\<rparr>)"
    using winvD(2) [OF assms(1), of d] plain_simps [OF assms(3)] by (simp add: gate_def evs_take [OF assms(2)])
  show "ended (stime k) d (s\<lparr>ev := h\<rparr>)"
    using winvD(3) [OF assms(1), of d] T assms(2) unfolding ended_def sp by (auto split: if_splits)
  show "disjoint_runs (spans d (s\<lparr>ev := h\<rparr>))" using winvD(4) [OF assms(1), of d] by (simp add: sp)
  show "running (wbusy (s\<lparr>ev := h\<rparr>) d) \<Longrightarrow> \<not> wfree (s\<lparr>ev := h\<rparr>) d"
    using winvD(5) [OF assms(1), of d] by simp
qed

text \<open>A pop or a job end of \<open>c\<close>: with \<open>c\<close> set to not busy the invariant holds again.\<close>

lemma winv_take_own:
  assumes "winv t0 s" and "ev s = (k, e) # h" and "e = WPop c \<or> is_done c e"
  shows "winv (stime k) (s\<lparr>ev := h, wbusy := (wbusy s)(c := None)\<rparr>)"
    and "e = WPop c \<Longrightarrow> wbusy s c = Some Dispatching" and "is_done c e \<Longrightarrow> running (wbusy s c)"
proof -
  let ?s = "s\<lparr>ev := h, wbusy := (wbusy s)(c := None)\<rparr>"
  note T = times_ok_take [OF winvD(1) [OF assms(1)] assms(2)]
  have sp: "spans d ?s = spans d s" for d by (simp add: spans_def)
  have ev: "evs s = add_mset e (evs ?s)" using evs_take [OF assms(2)] by (simp add: evs_def)
  note G = winvD(2) [OF assms(1), unfolded gate_def ev]
  show P: "e = WPop c \<Longrightarrow> wbusy s c = Some Dispatching" using G [of c] by (simp split: if_splits)
  show D: "is_done c e \<Longrightarrow> running (wbusy s c)" using G [of c] by (simp split: if_splits)
  show "winv (stime k) ?s"
  proof (rule winvI)
    show "times_ok (stime k) ?s" using T by (simp add: times_ok_def)
    fix d
    show "gate d ?s"
    proof (cases "d = c")
      case True
      with G [of c] assms(3) show ?thesis by (cases e) (auto simp: gate_def split: if_splits)
    next
      case False
      with G [of d] assms(3) show ?thesis by (cases e) (auto simp: gate_def)
    qed
    show "ended (stime k) d ?s"
    proof (cases "d = c")
      case True
      from assms(3) show ?thesis
      proof
        assume "e = WPop c"
        with P True winvD(3) [OF assms(1), of c] T show ?thesis by (fastforce simp: ended_def sp)
      next
        assume d: "is_done c e"
        with D winvD(3) [OF assms(1), of c] assms(2)
        have "\<forall>q \<in> set (spans c s). snd q \<le> stime k" by (simp add: ended_def)
        with True show ?thesis by (simp add: ended_def sp)
      qed
    next
      case False
      with winvD(3) [OF assms(1), of d] T assms(2) show ?thesis
        unfolding ended_def sp by (auto split: if_splits)
    qed
    show "disjoint_runs (spans d ?s)" using winvD(4) [OF assms(1), of d] by (simp add: sp)
    show "running (wbusy ?s d) \<Longrightarrow> \<not> wfree ?s d"
      using winvD(5) [OF assms(1), of d] by (cases "d = c") simp_all
  qed
qed

section \<open>Pop, job end, enqueue, nudge\<close>

lemma no_own_event:
  assumes "gate c s" and "wbusy s c = None" and "x \<in> set (ev s)"
  shows "\<not> is_done c (snd x)"
proof -
  have "filter_mset (is_done c) (evs s) = {#}" using assms(1,2) by (simp add: gate_def)
  then have "\<forall>e \<in># evs s. \<not> is_done c e" by (auto simp: filter_mset_eq_conv dest: multi_member_split)
  with assms(3) show ?thesis by (auto simp: evs_def)
qed

lemma winv_pop_hit:
  assumes "winv t s" and "wbusy s c = None" and "t \<le> a" and "py_round 4 (a + WORK_wake) = a + WORK_wake"
    and "ev s' = ev s" and "seqno s' = seqno s" and "wbusy s' = (wbusy s)(c := Some (Running j))"
    and "wfree s' = (wfree s)(c := False)" and "wlog_pop s' = wlog_pop s @ [(t, c, j, a)]"
  shows "winv t (wpush (a + WORK_wake) (WDone c j) s')"
proof (rule winvI)
  let ?r = "wpush (a + WORK_wake) (WDone c j) s'"
  have e: "evs s' = evs s" using assms(5) by (simp add: evs_def)
  have sp: "spans d s' = (if d = c then spans c s @ [(t, a + WORK_wake)] else spans d s)" for d
    using assms(9) by (simp add: spans_def)
  have le: "snd q \<le> t" if "q \<in> set (spans c s)" for q
    using winvD(3) [OF assms(1), of c] assms(2) that by (simp add: ended_def)
  have "times_ok t s'" using winvD(1) [OF assms(1)] assms(5) by (simp add: times_ok_def)
  then show "times_ok t ?r" using times_ok_wpush assms(3) by (simp add: WORK_wake_def)
  fix d
  show "gate d ?r"
    using winvD(2) [OF assms(1), of d] assms(2) by (cases "d = c") (simp_all add: gate_def e assms(7))
  show "ended t d ?r"
  proof (cases "d = c")
    case True
    have "\<forall>q \<in> set (spans c ?r). snd q \<le> a + WORK_wake" using le assms(3) by (force simp: sp WORK_wake_def)
    moreover have "\<not> is_done c (snd x)" if "x \<in> set (ev s)" for x
      by (rule no_own_event [OF winvD(2) [OF assms(1)] assms(2) that])
    ultimately show ?thesis using True by (simp add: ended_def assms(4,5,7))
  next
    case False
    with winvD(3) [OF assms(1), of d] show ?thesis by (simp add: ended_def sp assms(5,7))
  qed
  show "disjoint_runs (spans d ?r)"
    using winvD(4) [OF assms(1), of d] le by (auto simp: sp disjoint_runs_def sorted_wrt_append)
  show "running (wbusy ?r d) \<Longrightarrow> \<not> wfree ?r d"
    using winvD(5) [OF assms(1), of d] by (cases "d = c") (simp_all add: assms(7,8))
qed

lemma winv_pop:
  assumes "winv t (s\<lparr>wbusy := (wbusy s)(c := None)\<rparr>)"
  shows "winv t (snd (on_pop_wake t c s))"
proof (cases "wqueue s")
  case Nil
  let ?m = "member t c True PopMiss s"
  from Nil have "snd (on_pop_wake t c s) = ?m\<lparr>wfree := (wfree ?m)(c := True), wbusy := (wbusy ?m)(c := None)\<rparr>"
    by (simp add: on_pop_wake_def Let_def)
  moreover have "winv t (?m\<lparr>wfree := (wfree ?m)(c := True), wbusy := (wbusy ?m)(c := None)\<rparr>)"
    by (rule winv_cong [OF _ _ _ _ assms]) (simp_all split: if_splits)
  ultimately show ?thesis by simp
next
  case (Cons j q)
  let ?a = "py_round 4 (t + plen (pop_route c) / POP_V)"
  have t: "py_round 4 t = t" using winvD(1) [OF assms] by (simp add: times_ok_def)
  have "t \<le> ?a" using py_round_mono [of t "t + plen (pop_route c) / POP_V" 4] by (simp add: t POP_V_def)
  moreover have "py_round 4 (?a + WORK_wake) = ?a + WORK_wake"
    using py_round_plus_int [of 4 "t + plen (pop_route c) / POP_V" 2] by (simp add: WORK_wake_def)
  ultimately show ?thesis
    using Cons winv_pop_hit [OF assms, of c ?a] by (simp add: on_pop_wake_def Let_def)
qed

lemma winv_wake_while:
  "wake_while n t job w ps s = Inr (w', s') \<Longrightarrow> winv t s \<Longrightarrow> winv t s'"
proof (induction n t job w ps s rule: wake_while.induct)
  case (1 n t job w ps s)
  show ?case
  proof (cases "length w < n \<and> widle s \<noteq> {}")
    case True
    with "1.prems"(1) obtain c qs where ps: "ps = c # qs" and c: "c \<in> widle s"
      by (subst (asm) wake_while.simps) (auto split: list.splits if_splits)
    let ?s1 = "member t c False Spop (s\<lparr>wpicks := qs\<rparr>)" and ?a = "py_round 4 (t + plen (wake_route c) / WAKE_V)"
    let ?s2 = "?s1\<lparr>wlog_wake := wlog_wake ?s1 @ [(t, c, ?a, job)]\<rparr>"
    have t: "py_round 4 t = t" using winvD(1) [OF "1.prems"(2)] by (simp add: times_ok_def)
    have "t \<le> ?a" using py_round_mono [of t "t + plen (wake_route c) / WAKE_V" 4] by (simp add: t WAKE_V_def)
    moreover have "winv t ?s2" by (rule winv_cong [OF _ _ _ _ "1.prems"(2)]) simp_all
    ultimately have "winv t (wpush ?a (WSignal c SigWake) ?s2)" by (intro winv_plain) simp_all
    moreover have "wake_while n t job (w @ [c]) qs (wpush ?a (WSignal c SigWake) ?s2) = Inr (w', s')"
      using "1.prems"(1) True ps c by (subst (asm) wake_while.simps) (simp add: Let_def)
    ultimately show ?thesis using "1.IH" [OF True ps c refl refl refl] by simp
  next
    case False
    with "1.prems" show ?thesis by (subst (asm) wake_while.simps) simp
  qed
qed

end
