(* ===== verification/Wake_Facts.thy ===== *)
theory Wake_Facts
  imports Wake_Inv
begin

text \<open>
  The checks of \<open>gen_wake.build\<close> on the simulation's logs (the loop length and section 2 of the
  storyboard), and the properties of the wake-up simulation.
\<close>

section \<open>The checks of build\<close>

definition the_first :: "('a \<Rightarrow> bool) \<Rightarrow> 'a list \<Rightarrow> 'a res" where
  "the_first P xs = (case List.find P xs of None \<Rightarrow> Inl StopIteration | Some x \<Rightarrow> Inr x)"

definition settle :: "wake_sim \<Rightarrow> rat res" where
  "settle s =
     (let ts = map fst (wlog_member s) @ map (\<lambda>(c, j, a, e). e) (wlog_run s)
      in if ts = [] then Inl ValueError else Inr (Max (set ts)))"

definition loop_length :: "rat \<Rightarrow> rat" where
  "loop_length se = of_int \<lceil>se + 15 / 10\<rceil>"

fun calm_state :: "rat \<times> string \<times> string list \<times> cons set \<times> work option \<times> work option \<Rightarrow> bool" where
  "calm_state (t, k, q, i, b1, b2) \<longleftrightarrow> q = [] \<and> i = {C1, C2} \<and> b1 = None \<and> b2 = None"

definition calm_facts :: "rat \<Rightarrow> wake_sim \<Rightarrow> bool" where
  "calm_facts se s \<longleftrightarrow>
     (let calm = filter (\<lambda>st. fst st \<ge> se) (wlog_states s) in calm \<noteq> [] \<and> list_all calm_state calm)
     \<and> list_all (\<lambda>m. fst m < loop_length se - 15 / 10 + 1 / 10 ^ 9) (wlog_member s)"

text \<open>Wakes per enqueue, SPOP before PUBLISH, and what a nudge does.\<close>

definition signal_facts :: "wake_sim \<Rightarrow> bool" where
  "signal_facts s \<longleftrightarrow>
     list_all (\<lambda>(t, job, n, woken, idle0). length woken \<le> n \<and> length woken \<le> card idle0) (wlog_enq s)
     \<and> list_all (\<lambda>(t, c, a, job). (t, c, False, Spop) \<in> set (wlog_member s)) (wlog_wake s)
     \<and> list_all (\<lambda>(t, c, n, was_busy, fr, in_idle).
          (if n > 0 then \<not> in_idle else fr \<longrightarrow> in_idle)
          \<and> (n > 0) = list_ex (\<lambda>(st, sc, k, r). st = t \<and> sc = c \<and> k = SigPoke) (wlog_signal s)) (wlog_nudge s)"

definition inside :: "rat \<Rightarrow> (rat \<times> rat) list \<Rightarrow> bool" where
  "inside t sps = list_ex (\<lambda>(a, e). a \<le> t \<and> t < e) sps"

definition busy_facts :: "wake_sim \<Rightarrow> bool" where
  "busy_facts s \<longleftrightarrow>
     list_all (\<lambda>(t, c, now_in, y). \<not> (now_in \<and> inside t (spans c s))) (wlog_member s)
     \<and> (13 / 10, C1) \<in> set (wlog_stay s)
     \<and> list_all (\<lambda>(t, c, k, taken). taken \<and> \<not> inside t (spans c s)) (wlog_signal s)
     \<and> list_all (\<lambda>c. let sp = sort (spans c s) in list_all (\<lambda>(a, b). snd a \<le> fst b) (zip sp (tl sp))) [C1, C2]"

definition pop_facts :: "wake_sim \<Rightarrow> bool res" where
  "pop_facts s =
     rbind (rmap (\<lambda>(t, c, job, a).
       if \<not> list_ex (\<lambda>(st, sc, k, r). \<bar>st + LOCAL_wake - t\<bar> < 1 / 10 ^ 6 \<and> sc = c \<and> k = SigWake) (wlog_signal s)
       then Inl AssertionError
       else case dget (map (\<lambda>(t, j). (j, t)) (rev ENQ_wake)) job of
              None \<Rightarrow> Inl KeyError
            | Some te \<Rightarrow> rcheck (t - te < 1 / 2)) (wlog_pop s)) (\<lambda>_. Inr True)"

definition end_facts_wake :: "wake_sim \<Rightarrow> bool" where
  "end_facts_wake s \<longleftrightarrow> calm_state (last (wlog_states s))
     \<and> map snd (wlog_member s) = [(C1, False, Spop), (C2, False, Spop), (C1, True, ByLen), (C2, True, ByLen)]
     \<and> map snd (wlog_signal s) = [(C1, SigWake, True), (C2, SigWake, True)]"

definition flight_facts :: "wake_sim \<Rightarrow> bool" where
  "flight_facts s \<longleftrightarrow>
     list_all (\<lambda>(a, e, c).
         \<not> list_ex (\<lambda>(t, cc, n, wb, fr, ii). cc = c \<and> a < t \<and> t < e) (wlog_nudge s)
         \<and> \<not> list_ex (\<lambda>(t, j). a < t \<and> t < e) ENQ_wake)
       (map (\<lambda>(t, c, a, job). (t, a, c)) (wlog_wake s) @ map (\<lambda>(t, c, job, a). (t - LOCAL_wake, a, c)) (wlog_pop s))
     \<and> SPOP_PICK = map (\<lambda>(t, c, a, j). c) (wlog_wake s) \<and> SPOP_PICK = [C1, C2]"

text \<open>All the checks in the order of \<open>build\<close>; the result is the loop length.\<close>

definition wake_facts :: "wake_sim \<Rightarrow> rat res" where
  "wake_facts s =
     rbind (settle s) (\<lambda>se.
     rbind (rcheck (calm_facts se s)) (\<lambda>_.
     rbind (rcheck (signal_facts s)) (\<lambda>_.
     rbind (rcheck (busy_facts s)) (\<lambda>_.
     rbind (the_first (\<lambda>(t, c, a, j). j = ''Y'') (wlog_wake s)) (\<lambda>(_, wc, _, _).
     rbind (the_first (\<lambda>(t, j, n, w, b). j = ''Y'') (wlog_enq s)) (\<lambda>(_, _, _, _, idle0).
     rbind (rcheck (idle0 = {C2} \<and> wc = C2)) (\<lambda>_.
     rbind (rcheck (map (\<lambda>(t, c, j, a). (j, c)) (wlog_pop s) = [(''X'', C1), (''Y'', C2)])) (\<lambda>_.
     rbind (the_first (\<lambda>(t, c, j, a). j = ''Y'') (wlog_pop s)) (\<lambda>_.
     rbind (pop_facts s) (\<lambda>_.
     rbind (if wlog_states s = [] then Inl IndexError else rcheck (end_facts_wake s)) (\<lambda>_.
     rbind (rcheck (flight_facts s)) (\<lambda>_.
     Inr (loop_length se)))))))))))))"

section \<open>Every handler keeps the invariant\<close>

lemma winv_log_state [simp]: "winv t (log_state u k s) = winv t s"
proof
  show "winv t s \<Longrightarrow> winv t (log_state u k s)" by (rule winv_cong [of _ s]) (simp_all add: log_state_def)
  show "winv t (log_state u k s) \<Longrightarrow> winv t s"
    by (rule winv_cong [of _ "log_state u k s"]) (simp_all add: log_state_def)
qed

lemma winv_enqueue:
  assumes "winv t s" and "on_enqueue_wake t job s = Inr s'"
  shows "winv t s'"
proof -
  let ?s1 = "s\<lparr>wqueue := wqueue s @ [job]\<rparr>"
  obtain w s2 where w: "wake_while (length (wqueue ?s1)) t job [] (wpicks ?s1) ?s1 = Inr (w, s2)"
    and s': "s' = s2\<lparr>wlog_enq := wlog_enq s2 @ [(t, job, length (wqueue ?s1), w, widle ?s1)]\<rparr>"
    using assms(2) by (auto simp: on_enqueue_wake_def Let_def)
  have "winv t ?s1" by (rule winv_cong [OF _ _ _ _ assms(1)]) simp_all
  from winv_wake_while [OF w this] show ?thesis unfolding s' by (rule winv_cong [rotated 4]) simp_all
qed

lemma winv_nudge: "winv t s \<Longrightarrow> winv t (on_nudge_wake t c s)"
proof -
  assume a: "winv t s"
  have stay: "winv t (s\<lparr>wlog_stay := wlog_stay s @ [(t, c)]\<rparr>)" by (rule winv_cong [OF _ _ _ _ a]) simp_all
  have nudge: "winv t (x\<lparr>wlog_nudge := l\<rparr>)" if "winv t x" for x l
    by (rule winv_cong [OF _ _ _ _ that]) simp_all
  show ?thesis unfolding on_nudge_wake_def Let_def
    by (intro winv_plain) (auto intro!: winv_signal nudge stay simp: a)
qed

lemma winv_handle:
  assumes "winv t0 s" and "ev s = (k, e) # h" and "wake_handle (stime k) e (s\<lparr>ev := h\<rparr>) = Inr s'"
  shows "winv (stime k) s'"
proof (cases "plain e")
  case True
  note w = winv_take_plain [OF assms(1,2) True]
  from True assms(3) winv_enqueue [OF w] winv_nudge [OF w] winv_signal [OF w] show ?thesis by (cases e) auto
next
  case False
  then obtain c where c: "e = WPop c \<or> is_done c e" by (cases e) auto
  note w = winv_take_own(1) [OF assms(1,2) c]
  show ?thesis
  proof (cases e)
    case (WPop c')
    with c have "c' = c" by auto
    with WPop assms(3) winv_pop [of "stime k" "s\<lparr>ev := h\<rparr>" c] w show ?thesis
      by (auto simp: Let_def split: prod.splits if_splits)
  next
    case (WDone c' j)
    with c have "c' = c" by auto
    with WDone assms(3) winv_pull [OF w, of c] show ?thesis by (auto simp: on_done_wake_def)
  qed (use False in auto)
qed

section \<open>The start\<close>

lemma winv_start: "winv 0 (wake_start picks)"
  by (rule winvI) (simp_all add: times_ok_def wake_start_def heap_ok_def gate_def ended_def evs_def spans_def
      disjoint_runs_def)

lemma winv_push_all:
  "winv t s \<Longrightarrow> \<forall>x \<in> set enq. t \<le> fst x \<Longrightarrow> winv t (fold (\<lambda>(t, job). wpush t (WEnqueue job)) enq s)"
proof (induction enq arbitrary: s)
  case (Cons x enq)
  have "winv t (wpush (fst x) (WEnqueue (snd x)) s)" by (rule winv_plain) (use Cons.prems in simp_all)
  from Cons.IH [OF this] Cons.prems(2) show ?case by (simp add: case_prod_beta)
qed simp

lemma winv_init:
  assumes "\<forall>x \<in> set enq. 0 \<le> fst x"
  shows "winv 0 (wake_init enq picks)"
  using winv_push_all [OF winv_start assms] by (simp add: wake_init_def winv_plain)

lemma wake_run:
  assumes "run_events stop wake_handle fuel s = Some (Inr s')" and "winv t0 s"
  shows "disjoint_runs (spans c s') \<and> (running (wbusy s' c) \<longrightarrow> \<not> wfree s' c)"
proof -
  let ?I = "\<lambda>x. \<exists>t. winv t x"
  have "?I s' \<or> (\<exists>s0 k e h. ?I s0 \<and> ev s0 = (k, e) # h \<and> stop (stime k) \<and> s' = s0\<lparr>ev := h\<rparr>)"
  proof (rule run_events_last [OF assms(1), where I = ?I])
    show "?I s" using assms(2) by blast
    fix k e h x x'
    assume "?I x" and ev: "ev x = (k, e) # h" and h: "wake_handle (stime k) e (x\<lparr>ev := h\<rparr>) = Inr x'"
    then obtain t where "winv t x" by blast
    from winv_handle [OF this ev h] show "?I x'" by blast
  qed
  then obtain x t where "winv t x" and "wlog_pop s' = wlog_pop x" "wbusy s' = wbusy x" "wfree s' = wfree x"
    by auto
  then show ?thesis using winvD(4,5) [of t x c] by (simp add: spans_def)
qed

section \<open>Jobs and wakes\<close>

text \<open>Jobs waiting and popped; jobs enqueued.\<close>

definition taken :: "wake_sim \<Rightarrow> string list" where
  "taken s = map (\<lambda>(t, c, j, a). j) (wlog_pop s) @ wqueue s"

definition entered :: "wake_sim \<Rightarrow> string list" where
  "entered s = map (\<lambda>(t, j, n, w, b). j) (wlog_enq s)"

text \<open>One enqueue woke as many distinct idle members as there were, up to the items waiting.\<close>

fun enq_ok :: "rat \<times> string \<times> nat \<times> cons list \<times> cons set \<Rightarrow> bool" where
  "enq_ok (t, j, n, w, i) \<longleftrightarrow> length w = min n (card i) \<and> distinct w \<and> set w \<subseteq> i"

text \<open>SPOP took out the member a PUBLISH goes to.\<close>

definition wakes_logged :: "wake_sim \<Rightarrow> bool" where
  "wakes_logged s = list_all (\<lambda>(t, c, a, j). (t, c, False, Spop) \<in> set (wlog_member s)) (wlog_wake s)"

lemma wakes_logged_mono:
  "wakes_logged s \<Longrightarrow> wlog_wake s' = wlog_wake s \<Longrightarrow> set (wlog_member s) \<subseteq> set (wlog_member s') \<Longrightarrow> wakes_logged s'"
  by (auto simp: wakes_logged_def list_all_iff)

definition log_ok :: "wake_sim \<Rightarrow> bool" where
  "log_ok s \<longleftrightarrow> entered s = taken s \<and> (\<forall>x \<in> set (wlog_enq s). enq_ok x)
     \<and> wakes_logged s"

lemma wake_while_spec:
  assumes "wake_while n t job w ps s = Inr (w', s')" and "length w \<le> n"
    and "wakes_logged s"
  shows "\<exists>v. w' = w @ v \<and> distinct v \<and> set v \<subseteq> widle s \<and> length v = min (n - length w) (card (widle s))
    \<and> wqueue s' = wqueue s \<and> wlog_pop s' = wlog_pop s \<and> wlog_enq s' = wlog_enq s \<and> wbusy s' = wbusy s
    \<and> widle s' = widle s - set v
    \<and> wakes_logged s'"
  using assms
proof (induction n t job w ps s rule: wake_while.induct)
  case (1 n t job w ps s)
  show ?case
  proof (cases "length w < n \<and> widle s \<noteq> {}")
    case True
    with "1.prems"(1) obtain c qs where ps: "ps = c # qs" and c: "c \<in> widle s"
      by (subst (asm) wake_while.simps) (auto split: list.splits if_splits)
    let ?s1 = "member t c False Spop (s\<lparr>wpicks := qs\<rparr>)" and ?a = "py_round 4 (t + plen (wake_route c) / WAKE_V)"
    let ?s2 = "wpush ?a (WSignal c SigWake) (?s1\<lparr>wlog_wake := wlog_wake ?s1 @ [(t, c, ?a, job)]\<rparr>)"
    have "wlog_member ?s2 = wlog_member s @ [(t, c, False, Spop)]" using c by (simp add: member_def Let_def)
    with "1.prems"(3) have lg: "wakes_logged ?s2" by (auto simp: wakes_logged_def list_all_iff)
    have len: "length (w @ [c]) \<le> n" using True by simp
    have "wake_while n t job (w @ [c]) qs ?s2 = Inr (w', s')"
      using "1.prems"(1) True ps c by (subst (asm) wake_while.simps) (simp add: Let_def)
    from "1.IH" [OF True ps c refl refl refl this len lg] obtain v where v: "w' = (w @ [c]) @ v" "distinct v"
      "set v \<subseteq> widle ?s2" "length v = min (n - length (w @ [c])) (card (widle ?s2))" "wqueue s' = wqueue ?s2"
      "wlog_pop s' = wlog_pop ?s2" "wlog_enq s' = wlog_enq ?s2" "wbusy s' = wbusy ?s2" "widle s' = widle ?s2 - set v"
      "wakes_logged s'"
      by (elim exE conjE) (rule that)
    have "card (widle s) = Suc (card (widle s - {c}))" by (rule card.remove [OF cons_finite c])
    moreover have "n - length w = Suc (n - length (w @ [c]))" using True by (simp add: Suc_diff_Suc)
    ultimately have "length (c # v) = min (n - length w) (card (widle s))" using v(4) by (simp only: min_Suc_Suc) simp
    with v c show ?thesis by (intro exI [of _ "c # v"]) auto
  next
    case False
    with "1.prems" show ?thesis by (subst (asm) wake_while.simps) auto
  qed
qed

lemma log_ok_cong:
  assumes "log_ok s" and "wlog_enq s' = wlog_enq s" and "taken s' = taken s" and "wlog_wake s' = wlog_wake s"
    and "set (wlog_member s) \<subseteq> set (wlog_member s')"
  shows "log_ok s'"
proof -
  have "wakes_logged s'" using assms(1,4,5) wakes_logged_mono [of s s'] by (simp add: log_ok_def)
  moreover have "entered s' = entered s" by (simp add: entered_def assms(2))
  ultimately show ?thesis using assms by (simp add: log_ok_def)
qed

lemma member_logs:
  "set (wlog_member s) \<subseteq> set (wlog_member (member t c b y s))" "taken (member t c b y s) = taken s"
  by (auto simp: member_def Let_def taken_def)

lemma log_ok_member: "log_ok s \<Longrightarrow> log_ok (member t c b y s)"
  by (rule log_ok_cong [of s]) (simp_all add: member_logs)

lemma log_ok_pull: "log_ok s \<Longrightarrow> log_ok (pull t c s)"
  by (rule log_ok_cong [of s]) (simp_all add: pull_def Let_def taken_def member_logs [simplified taken_def])

lemma log_ok_signal: "log_ok s \<Longrightarrow> log_ok (signal_wake t c k s)"
proof -
  assume "log_ok s"
  then have "log_ok (s\<lparr>wlog_signal := l\<rparr>)" for l by (rule log_ok_cong) (simp_all add: taken_def)
  then show ?thesis by (simp add: signal_wake_def log_ok_pull)
qed

lemma log_ok_nudge: "log_ok s \<Longrightarrow> log_ok (on_nudge_wake t c s)"
proof -
  assume a: "log_ok s"
  have stay: "log_ok (s\<lparr>wlog_stay := l\<rparr>)" for l by (rule log_ok_cong [OF a]) (simp_all add: taken_def)
  have nudge: "log_ok (x\<lparr>wlog_nudge := l\<rparr>)" if "log_ok x" for x l
    by (rule log_ok_cong [OF that]) (simp_all add: taken_def)
  have push: "log_ok (wpush u e x)" if "log_ok x" for x u e
    by (rule log_ok_cong [OF that]) (simp_all add: taken_def)
  show ?thesis unfolding on_nudge_wake_def Let_def
    by (rule push) (auto intro!: log_ok_signal nudge stay log_ok_member simp: a)
qed

lemma log_ok_pop: "log_ok s \<Longrightarrow> log_ok (snd (on_pop_wake t c s))"
proof (cases "wqueue s")
  case Nil
  assume a: "log_ok s"
  let ?m = "member t c True PopMiss s"
  have "log_ok (?m\<lparr>wfree := f, wbusy := b\<rparr>)" for f b
    by (rule log_ok_cong [OF log_ok_member [OF a, of t c True PopMiss]]) (simp_all add: taken_def)
  with Nil show ?thesis by (simp add: on_pop_wake_def Let_def)
next
  case (Cons j q)
  assume a: "log_ok s"
  from Cons show ?thesis
    by (intro log_ok_cong [OF a]) (simp_all add: on_pop_wake_def Let_def taken_def)
qed

lemma log_ok_enqueue:
  assumes "log_ok s" and "on_enqueue_wake t job s = Inr s'"
  shows "log_ok s'"
proof -
  let ?s1 = "s\<lparr>wqueue := wqueue s @ [job]\<rparr>"
  obtain w s2 where w: "wake_while (length (wqueue ?s1)) t job [] (wpicks ?s1) ?s1 = Inr (w, s2)"
    and s': "s' = s2\<lparr>wlog_enq := wlog_enq s2 @ [(t, job, length (wqueue ?s1), w, widle ?s1)]\<rparr>"
    using assms(2) by (auto simp: on_enqueue_wake_def Let_def)
  have "wakes_logged ?s1" using assms(1) by (simp add: log_ok_def wakes_logged_def)
  from wake_while_spec [OF w _ this] have v: "distinct w" "set w \<subseteq> widle s"
    "length w = min (length (wqueue ?s1)) (card (widle s))" "wqueue s2 = wqueue ?s1" "wlog_pop s2 = wlog_pop s"
    "wlog_enq s2 = wlog_enq s" "wakes_logged s2" by auto
  have "wakes_logged s'" using v(7) by (simp add: s' wakes_logged_def)
  moreover have "entered s' = taken s'" using assms(1) v(4-6) by (simp add: s' entered_def taken_def log_ok_def)
  ultimately show ?thesis using v assms(1) by (simp add: log_ok_def s')
qed

lemma log_ok_handle:
  assumes "log_ok s" and "wake_handle t e (s\<lparr>ev := h\<rparr>) = Inr s'"
  shows "log_ok s'"
proof -
  have a: "log_ok (s\<lparr>ev := h\<rparr>)" by (rule log_ok_cong [OF assms(1)]) (simp_all add: taken_def)
  have st: "log_ok (log_state u k x)" if "log_ok x" for u k x
    by (rule log_ok_cong [OF that]) (simp_all add: log_state_def taken_def)
  have dn: "log_ok (on_done_wake t c (s\<lparr>ev := h\<rparr>))" for c
    unfolding on_done_wake_def by (rule log_ok_pull, rule log_ok_cong [OF a]) (simp_all add: taken_def)
  show ?thesis
  proof (cases e)
    case (WPop c)
    with assms(2) log_ok_pop [OF a, of t c] st show ?thesis by (auto simp: Let_def split: prod.splits if_splits)
  next
    case (WEnqueue j)
    with assms(2) log_ok_enqueue [OF a] st show ?thesis by auto
  qed (use assms(2) st a log_ok_signal log_ok_nudge dn in auto)
qed

lemma log_ok_run:
  assumes "run_events stop wake_handle fuel s = Some (Inr s')" and "log_ok s"
  shows "log_ok s'"
  by (rule run_events_invariant [OF assms(1), where I = log_ok])
     (rule assms(2), erule (1) log_ok_handle [rotated], rule log_ok_cong, assumption, simp_all add: taken_def)

lemma log_ok_start: "log_ok (wake_start picks)"
  by (simp add: log_ok_def wake_start_def entered_def taken_def wakes_logged_def)

lemma log_ok_init: "log_ok (wake_init enq picks)"
proof -
  have push: "log_ok (wpush u e x)" if "log_ok x" for u e x
    by (rule log_ok_cong [OF that]) (simp_all add: taken_def)
  have "log_ok s \<Longrightarrow> log_ok (fold (\<lambda>(t, job). wpush t (WEnqueue job)) enq s)" for s
    by (induction enq arbitrary: s) (auto simp: push)
  then show ?thesis using log_ok_start [of picks] by (simp add: wake_init_def push)
qed

section \<open>Rejoining\<close>

lemma wake_while_idle: "wake_while n t job w ps s = Inr (w', s') \<Longrightarrow> widle s' \<subseteq> widle s"
proof (induction n t job w ps s rule: wake_while.induct)
  case (1 n t job w ps s)
  show ?case
  proof (cases "length w < n \<and> widle s \<noteq> {}")
    case True
    with "1.prems" obtain c qs where ps: "ps = c # qs" and c: "c \<in> widle s"
      by (subst (asm) wake_while.simps) (auto split: list.splits if_splits)
    have "wake_while n t job (w @ [c]) qs (wpush (py_round 4 (t + plen (wake_route c) / WAKE_V)) (WSignal c SigWake)
        ((member t c False Spop (s\<lparr>wpicks := qs\<rparr>))\<lparr>wlog_wake := wlog_wake (member t c False Spop (s\<lparr>wpicks := qs\<rparr>))
          @ [(t, c, py_round 4 (t + plen (wake_route c) / WAKE_V), job)]\<rparr>)) = Inr (w', s')"
      using "1.prems" True ps c by (subst (asm) wake_while.simps) (simp add: Let_def)
    from "1.IH" [OF True ps c refl refl refl this] show ?thesis by auto
  next
    case False
    with "1.prems" show ?thesis by (subst (asm) wake_while.simps) simp
  qed
qed

lemma rejoin_pull:
  "c \<in> widle (pull t d s) \<Longrightarrow> c \<notin> widle s \<Longrightarrow> c = d \<and> wbusy (pull t d s) = wbusy s"
  by (auto simp: pull_def Let_def split: if_splits)

lemma rejoin_signal:
  "c \<in> widle (signal_wake t d k s) \<Longrightarrow> c \<notin> widle s \<Longrightarrow> wbusy (signal_wake t d k s) c = None"
  using rejoin_pull [of c t d] by (fastforce simp: signal_wake_def split: if_splits)

lemma log_state_simps [simp]: "widle (log_state t k s) = widle s" "wbusy (log_state t k s) = wbusy s"
  by (simp_all add: log_state_def)

lemma rejoin_nudge:
  assumes "c \<in> widle (on_nudge_wake t d s)" and "c \<notin> widle s" and "\<And>c. running (wbusy s c) \<Longrightarrow> \<not> wfree s c"
  shows "\<not> running (wbusy (on_nudge_wake t d s) c)"
proof (cases "wqueue s")
  case Nil
  with assms(1,2) have "c = d \<and> wfree s d" and "wbusy (on_nudge_wake t d s) = wbusy s"
    by (auto simp: on_nudge_wake_def Let_def split: if_splits)
  with assms(3) [of c] show ?thesis by auto
next
  case (Cons j q)
  let ?s = "member t d False ByNudge s"
  let ?x = "?s\<lparr>wlog_nudge := wlog_nudge ?s @ [(t, d, length (wqueue s), wbusy s d \<noteq> None, wfree ?s d, d \<in> widle ?s)]\<rparr>"
  have r: "on_nudge_wake t d s = wpush (t + 1) (WNudge d) (signal_wake t d SigPoke ?x)"
    using Cons by (simp add: on_nudge_wake_def Let_def)
  have "c \<in> widle (signal_wake t d SigPoke ?x)" "c \<notin> widle ?x" using assms(1,2) by (simp_all add: r)
  from rejoin_signal [OF this] show ?thesis by (simp add: r)
qed

lemma rejoin_handle:
  assumes "\<And>c. running (wbusy s c) \<Longrightarrow> \<not> wfree s c" and "wake_handle t e (s\<lparr>ev := h\<rparr>) = Inr s'"
    and "c \<notin> widle s" and "c \<in> widle s'"
  shows "\<not> running (wbusy s' c)"
proof (cases e)
  case (WEnqueue j)
  with assms(2) obtain s1 where "on_enqueue_wake t j (s\<lparr>ev := h\<rparr>) = Inr s1" and s': "s' = log_state t ''enqueue'' s1"
    by auto
  then have "widle s1 \<subseteq> widle s" using wake_while_idle by (fastforce simp: on_enqueue_wake_def Let_def)
  with assms(3,4) s' show ?thesis by auto
next
  case (WNudge d)
  with assms rejoin_nudge [of c t d "s\<lparr>ev := h\<rparr>"] show ?thesis by auto
next
  case (WSignal d k)
  with assms rejoin_signal [of c t d k "s\<lparr>ev := h\<rparr>"] show ?thesis by auto
next
  case (WPop d)
  with assms(2-4) show ?thesis by (auto simp: on_pop_wake_def Let_def split: list.splits)
next
  case (WDone d j)
  with assms rejoin_pull [of c t d "s\<lparr>ev := h, wbusy := (wbusy s)(d := None)\<rparr>"] show ?thesis
    by (auto simp: on_done_wake_def)
qed

section \<open>The properties\<close>

text \<open>C4: whatever is enqueued and whatever SPOP picks, in every run of the wake-up simulation to any
  horizon the job runs of one consumer, each from its pop to its end, follow one another without
  overlap: the busy gate lets no consumer hold two jobs.\<close>

theorem one_job_at_a_time:
  assumes "simulate_wake fuel enq picks = Some (Inr s)" and "\<forall>x \<in> set enq. 0 \<le> fst x"
  shows "sorted_wrt (\<lambda>a b. snd a \<le> fst b)
    (map (\<lambda>(t, c', j, a). (t, a + WORK_wake)) (filter (\<lambda>(t, c', j, a). c' = c) (wlog_pop s)))"
  using wake_run [OF assms(1) [unfolded simulate_wake_def] winv_init [OF assms(2)], of c]
  by (simp add: disjoint_runs_def spans_def)

theorem one_job_at_a_time_witness:
  "\<exists>s. simulate_wake 40 [(1 / 2, ''X''), (6 / 10, ''Y''), (7 / 10, ''Z'')] [C1, C2] = Some (Inr s)
     \<and> length (wlog_pop s) = 3 \<and> disjoint_runs (spans C1 s)"
proof -
  let ?e = "[(1 / 2, ''X''), (6 / 10, ''Y''), (7 / 10, ''Z'')]"
  have "case simulate_wake 40 ?e [C1, C2] of Some (Inr s) \<Rightarrow> length (wlog_pop s) = 3 | _ \<Rightarrow> False" by code_simp
  then obtain s where s: "simulate_wake 40 ?e [C1, C2] = Some (Inr s)" "length (wlog_pop s) = 3"
    by (auto split: option.splits sum.splits)
  from one_job_at_a_time [OF s(1), of C1] s show ?thesis by (auto simp: disjoint_runs_def spans_def)
qed

text \<open>C8: in every run, jobs leave the list in the order they were enqueued, each once: the enqueued jobs
  are the popped ones followed by the ones still waiting. Every enqueue woke exactly as many
  distinct members of \<open>:idle\<close> as there were, up to the items waiting, and SPOP took each woken
  member out of \<open>:idle\<close> at the instant of its PUBLISH.\<close>

theorem wake_jobs_and_wakes:
  assumes "simulate_wake fuel enq picks = Some (Inr s)"
  shows "map (\<lambda>(t, j, n, w, i). j) (wlog_enq s) = map (\<lambda>(t, c, j, a). j) (wlog_pop s) @ wqueue s
    \<and> (\<forall>(t, j, n, w, i) \<in> set (wlog_enq s). length w = min n (card i) \<and> distinct w \<and> set w \<subseteq> i)
    \<and> (\<forall>(t, c, a, j) \<in> set (wlog_wake s). (t, c, False, Spop) \<in> set (wlog_member s))"
proof -
  have "log_ok s" by (rule log_ok_run [OF assms [unfolded simulate_wake_def] log_ok_init])
  moreover have "enq_ok x = (case x of (t, j, n, w, i) \<Rightarrow> length w = min n (card i) \<and> distinct w \<and> set w \<subseteq> i)" for x
    by (cases x) simp
  ultimately show ?thesis by (simp add: log_ok_def entered_def taken_def wakes_logged_def list_all_iff)
qed

theorem wake_jobs_and_wakes_witness:
  "\<exists>s. simulate_wake 60 [(1 / 2, ''X''), (6 / 10, ''Y''), (7 / 10, ''Z'')] [C2, C1] = Some (Inr s)
     \<and> map (\<lambda>(t, c, j, a). j) (wlog_pop s) @ wqueue s = [''X'', ''Y'', ''Z'']"
proof -
  let ?e = "[(1 / 2, ''X''), (6 / 10, ''Y''), (7 / 10, ''Z'')]"
  have "case simulate_wake 60 ?e [C2, C1] of
      Some (Inr s) \<Rightarrow> map (\<lambda>(t, j, n, w, i). j) (wlog_enq s) = [''X'', ''Y'', ''Z''] | _ \<Rightarrow> False"
    by code_simp
  then obtain s where s: "simulate_wake 60 ?e [C2, C1] = Some (Inr s)"
    "map (\<lambda>(t, j, n, w, i). j) (wlog_enq s) = [''X'', ''Y'', ''Z'']"
    by (auto split: option.splits sum.splits)
  from wake_jobs_and_wakes [OF s(1)] s(2)
  have "map (\<lambda>(t, c, j, a). j) (wlog_pop s) @ wqueue s = [''X'', ''Y'', ''Z'']" by simp
  with s(1) show ?thesis by (intro exI [of _ s] conjI)
qed

text \<open>C17: whatever event comes next in a state that satisfies the invariant of the simulation, if its
  handler returns, the invariant holds again, and a consumer that is in \<open>:idle\<close> after it and was
  not before is not running a job: a busy consumer is never put into \<open>:idle\<close>.\<close>

theorem busy_never_rejoins:
  assumes "winv t0 s" and "ev s = (k, e) # h" and "wake_handle (stime k) e (s\<lparr>ev := h\<rparr>) = Inr s'"
  shows "winv (stime k) s'
    \<and> (\<forall>c j. c \<notin> widle s \<longrightarrow> c \<in> widle s' \<longrightarrow> wbusy s' c \<noteq> Some (Running j))"
proof -
  have "wbusy s' c \<noteq> Some (Running j)" if "c \<notin> widle s" "c \<in> widle s'" for c j
    using rejoin_handle [OF winvD(5) [OF assms(1)] assms(3) that] by auto
  with winv_handle [OF assms] show ?thesis by blast
qed

theorem busy_never_rejoins_witness:
  "\<exists>s'. wake_handle 1 (WNudge C1) ((wpush 1 (WNudge C1) (wake_start []))\<lparr>widle := {}, ev := []\<rparr>) = Inr s'
     \<and> winv 1 s' \<and> C1 \<in> widle s' \<and> (\<forall>j. wbusy s' C1 \<noteq> Some (Running j))"
proof -
  let ?s = "(wpush 1 (WNudge C1) (wake_start []))\<lparr>widle := {}\<rparr>"
  have "winv 0 (wpush 1 (WNudge C1) (wake_start []))" by (rule winv_plain [OF winv_start]) simp_all
  then have w: "winv 0 ?s" by (rule winv_cong [rotated 4]) simp_all
  have one: "py_round 4 1 = 1" using py_round_of_int [of 4 1] by simp
  have ev: "ev ?s = [(Stamp 1 0, WNudge C1)]"
    by (simp add: wpush_def push_ev_def wake_start_def heappush_def one)
  obtain s' where s': "wake_handle (stime (Stamp 1 0)) (WNudge C1) (?s\<lparr>ev := []\<rparr>) = Inr s'" by simp
  have in': "C1 \<in> widle s'" using s'
    by (auto simp: on_nudge_wake_def Let_def wake_start_def wpush_def push_ev_def)
  have "C1 \<notin> widle ?s" by simp
  with busy_never_rejoins [OF w ev s'] in' have "\<forall>j. wbusy s' C1 \<noteq> Some (Running j)" "winv 1 s'" by auto
  with in' s' show ?thesis by (intro exI [of _ s'] conjI) simp_all
qed

text \<open>C20: with fuel for 60 events or more the drawn scenario runs to the horizon, and every check of
  \<open>build\<close> on its logs passes: C1 is woken for X and C2 for Y, each pops its job at once, none of
  the signals finds a busy consumer, and the loop is 7 s long.\<close>

theorem wake_story_holds:
  assumes "60 \<le> fuel"
  shows "\<exists>s. simulate_wake fuel ENQ_wake SPOP_PICK = Some (Inr s) \<and> wake_facts s = Inr 7
    \<and> map (\<lambda>(t, c, j, a). (j, c)) (wlog_pop s) = [(''X'', C1), (''Y'', C2)]"
proof -
  have "case simulate_wake 60 ENQ_wake SPOP_PICK of Some (Inr s) \<Rightarrow> wake_facts s = Inr 7
      \<and> map (\<lambda>(t, c, j, a). (j, c)) (wlog_pop s) = [(''X'', C1), (''Y'', C2)] | _ \<Rightarrow> False"
    by code_simp
  then obtain s where s: "simulate_wake 60 ENQ_wake SPOP_PICK = Some (Inr s)" "wake_facts s = Inr 7"
    "map (\<lambda>(t, c, j, a). (j, c)) (wlog_pop s) = [(''X'', C1), (''Y'', C2)]"
    by (auto split: option.splits sum.splits)
  from s(1) have "simulate_wake fuel ENQ_wake SPOP_PICK = Some (Inr s)"
    unfolding simulate_wake_def by (rule run_events_mono [OF _ assms])
  with s(2,3) show ?thesis by (intro exI [of _ s] conjI)
qed

theorem wake_story_holds_witness:
  "\<exists>s. simulate_wake 100 ENQ_wake SPOP_PICK = Some (Inr s) \<and> wake_facts s = Inr 7"
  using wake_story_holds [of 100] by auto

end
