(* ===== verification/Close_Sim.thy ===== *)
theory Close_Sim
  imports Walks Heapq Consumers
begin

text \<open>
  \<open>gen_close.Sim\<close>: the list, the pending entries and \<open>:idle\<close>, and two consumers with three worker
  slots each, driven by a heap of events: enqueues and their wakes, varmq's pull loop, nudges, a
  subscribe, and a \<open>Close\<close> that hands the closing consumer's jobs back. Every method is one operation,
  in the order of the class; a failing assertion, a missing key and an empty \<open>max\<close>, \<open>next\<close> or \<open>index\<close>
  are error values. The text log keeps what each message says (\<open>close_msg\<close>), not its wording.
\<close>

section \<open>Scenario and geometry\<close>

definition CONC_close :: int where "CONC_close = 3"
definition POP_close :: int where "POP_close = 1"
definition ENQ_close :: "(string \<times> rat) list" where
  "ENQ_close = [(''J1'', 40 / 100), (''J2'', 46 / 100), (''J3'', 52 / 100)]"
definition ENQ_FLY :: rat where "ENQ_FLY = 1 / 2"
definition WORK_close :: "(string, rat) dict" where
  "WORK_close = [(''J1'', 26 / 10), (''J2'', 29 / 10), (''J3'', 32 / 10)]"
definition C2_TICK0 :: rat where "C2_TICK0 = 8 / 10"
definition C1_START :: rat where "C1_START = 24 / 10"
definition CLOSE :: rat where "CLOSE = 34 / 10"
definition LEAVE :: rat where "LEAVE = 2 / 10"
definition REL :: rat where "REL = 32 / 100"
definition EXIT_AFTER :: rat where "EXIT_AFTER = 3 / 10"
definition POP_GAP :: rat where "POP_GAP = 5 / 100"
definition POP_MOVE :: rat where "POP_MOVE = 6 / 10"
definition HORIZON_close :: rat where "HORIZON_close = 30"
definition V_close :: rat where "V_close = 520"

definition LIST_Y :: rat where "LIST_Y = 150"
definition SLOT_X :: "rat list" where "SLOT_X = [420, 384, 348]"
definition PROD_close :: "rat \<times> rat" where "PROD_close = (64, 150)"
definition ROW_X :: rat where "ROW_X = 212"
definition ROW_Y :: "rat list" where "ROW_Y = [266, 314, 362]"

fun POP_PATH :: "cons \<Rightarrow> (rat \<times> rat) list" where
  "POP_PATH C1 = [(470, 165), (740, 165)]"
| "POP_PATH C2 = [(470, 165), (500, 165), (500, 370), (740, 370)]"

fun WAKE_PATH :: "cons \<Rightarrow> (rat \<times> rat) list" where
  "WAKE_PATH C1 = [(690, 248), (716, 248), (716, 180), (740, 180)]"
| "WAKE_PATH C2 = [(690, 270), (716, 270), (716, 296), (740, 296)]"

section \<open>State\<close>

datatype close_ev =
    EnqueueC string
  | PushC string rat
  | LoopC cons string
  | WakeArriveC cons
  | NudgeC cons
  | SubscribeC cons
  | CloseC cons
  | ReleaseC cons
  | ReleaseWakeC cons nat
  | ExitC cons
  | JobEndC cons nat string

text \<open>A consumer's record, a pending entry, a finished pending lifetime, a job run.\<close>

record cstate =
  c_alive :: bool
  c_consumer :: bool
  c_sub :: bool
  c_closed :: bool
  c_busy :: int
  c_slots :: "string option list"
  c_pulling :: bool
  c_signal :: bool
  c_seq :: nat
  c_beat :: bool
  c_ticks :: "rat list"
  c_free :: bool

record pend =
  p_owner :: cons
  p_row :: nat
  p_t :: rat
  p_seq :: nat

record centry =
  e_owner :: cons
  e_row :: nat
  e_t :: rat
  e_end :: rat
  e_how :: string

record crun =
  r_c :: cons
  r_slot :: nat
  r_job :: string
  r_reserved :: rat
  r_start :: rat
  r_end :: "rat option"
  r_frac :: "rat option"

datatype close_msg =
    MSadd cons string "cons set"
  | MSrem cons string "cons set"
  | MWake string nat "cons list" nat
  | MPops cons "string list" string "(string \<times> cons) list" "string list"
  | MIgnores cons string
  | MReceives cons
  | MStays cons int
  | MPoke cons nat
  | MStarts cons
  | MClose cons "string list"
  | MRelease cons "string list" "string list"
  | MExits cons
  | MAcks cons string "(string \<times> cons) list"

text \<open>The entries of the dictionary \<open>mark\<close>, each missing until it is set.\<close>

record marks =
  k_stays :: "cons \<Rightarrow> (rat \<times> int) option"
  k_close :: "rat option"
  k_idle_at_close :: "cons set option"
  k_left :: "bool option"
  k_release :: "(rat \<times> string list \<times> string list) option"
  k_idle_at_wake :: "cons set option"
  k_close_wake :: "(rat \<times> nat \<times> cons list) option"
  k_exit :: "rat option"

record close_sim = "(rat, close_ev) sched" +
  q_lst :: "string list"
  q_x :: "(string, rat) dict"
  q_pending :: "(string, pend) dict"
  q_idle :: "cons set"
  q_idle_log :: "cons \<Rightarrow> (rat \<times> bool \<times> string) list"
  q_c :: "cons \<Rightarrow> cstate"
  q_log :: "(rat \<times> close_msg) list"
  q_items :: "(string, point list) dict"
  q_where :: "(string, (rat \<times> string) list) dict"
  q_entries :: "centry list"
  q_runs :: "crun list"
  q_pops :: "(rat \<times> cons \<times> string \<times> string) list"
  q_acks :: "(rat \<times> cons \<times> string) list"
  q_failed_acks :: "(rat \<times> cons \<times> string) list"
  q_wakes :: "(rat \<times> cons) list"
  q_push_wakes :: "(string \<times> nat \<times> nat) list"
  q_busy_log :: "cons \<Rightarrow> (rat \<times> int) list"
  q_calls :: "rat list"
  q_mark :: marks

definition consumer0 :: cstate where
  "consumer0 = \<lparr>c_alive = False, c_consumer = False, c_sub = False, c_closed = False, c_busy = 0,
     c_slots = replicate (nat CONC_close) None, c_pulling = False, c_signal = False, c_seq = 0, c_beat = False,
     c_ticks = [], c_free = False\<rparr>"

definition Sim :: close_sim where
  "Sim = \<lparr>ev = [], seqno = 0, q_lst = [], q_x = [], q_pending = [], q_idle = {C2}, q_idle_log = two [] [],
     q_c = two consumer0 (consumer0\<lparr>c_alive := True, c_consumer := True, c_sub := True, c_free := True\<rparr>),
     q_log = [], q_items = map (\<lambda>(j, _). (j, [])) ENQ_close, q_where = map (\<lambda>(j, _). (j, [])) ENQ_close,
     q_entries = [], q_runs = [], q_pops = [], q_acks = [], q_failed_acks = [], q_wakes = [], q_push_wakes = [],
     q_busy_log = two [] [], q_calls = [],
     q_mark = \<lparr>k_stays = two None None, k_close = None, k_idle_at_close = None, k_left = None, k_release = None,
       k_idle_at_wake = None, k_close_wake = None, k_exit = None\<rparr>\<rparr>"

section \<open>Plumbing\<close>

definition at_ev :: "rat \<Rightarrow> close_ev \<Rightarrow> close_sim \<Rightarrow> close_sim" where
  "at_ev t e s = push_ev (py_round 4 t) e s"

definition say :: "rat \<Rightarrow> close_msg \<Rightarrow> close_sim \<Rightarrow> close_sim" where
  "say t m s = s\<lparr>q_log := q_log s @ [(py_round 2 t, m)]\<rparr>"

definition upd_c :: "cons \<Rightarrow> (cstate \<Rightarrow> cstate) \<Rightarrow> close_sim \<Rightarrow> close_sim" where
  "upd_c m f s = s\<lparr>q_c := cput m (f (q_c s m)) (q_c s)\<rparr>"

definition log_idle :: "rat \<Rightarrow> cons \<Rightarrow> bool \<Rightarrow> string \<Rightarrow> close_sim \<Rightarrow> close_sim" where
  "log_idle t m b why s = s\<lparr>q_idle_log := cput m (q_idle_log s m @ [(t, b, why)]) (q_idle_log s)\<rparr>"

definition sadd :: "rat \<Rightarrow> cons \<Rightarrow> string \<Rightarrow> close_sim \<Rightarrow> bool \<times> close_sim" where
  "sadd t m why s =
     (if m \<in> q_idle s then (False, s)
      else let s1 = log_idle t m True why (s\<lparr>q_idle := insert m (q_idle s)\<rparr>)
           in (True, say t (MSadd m why (q_idle s1)) s1))"

definition srem :: "rat \<Rightarrow> cons \<Rightarrow> string \<Rightarrow> close_sim \<Rightarrow> bool \<times> close_sim" where
  "srem t m why s =
     (if m \<notin> q_idle s then (False, s)
      else let s1 = log_idle t m False why (s\<lparr>q_idle := q_idle s - {m}\<rparr>)
           in (True, say t (MSrem m why (q_idle s1)) s1))"

definition length_close :: "rat \<Rightarrow> cons \<Rightarrow> close_sim \<Rightarrow> nat \<times> close_sim" where
  "length_close t m s =
     (let n = length (q_lst s)
      in if n = 0 \<and> c_consumer (q_c s m)
         then (n, upd_c m (\<lambda>st. st\<lparr>c_free := True\<rparr>) (snd (sadd t m ''Len() = 0'' s)))
         else (n, s))"

definition set_busy :: "rat \<Rightarrow> cons \<Rightarrow> int \<Rightarrow> close_sim \<Rightarrow> close_sim res" where
  "set_busy t m d s =
     (let s1 = upd_c m (\<lambda>st. st\<lparr>c_busy := c_busy st + d\<rparr>) s; b = c_busy (q_c s1 m)
      in rbind (rcheck (0 \<le> b \<and> b \<le> CONC_close)) (\<lambda>_.
         Inr (s1\<lparr>q_busy_log := cput m (q_busy_log s1 m @ [(t, b)]) (q_busy_log s1)\<rparr>)))"

text \<open>\<open>items[job] += pts\<close> and \<open>where[job].append((t, p))\<close>.\<close>

definition add_items :: "string \<Rightarrow> point list \<Rightarrow> close_sim \<Rightarrow> close_sim res" where
  "add_items job pts s =
     (case dget (q_items s) job of None \<Rightarrow> Inl KeyError
      | Some l \<Rightarrow> Inr (s\<lparr>q_items := dset job (l @ pts) (q_items s)\<rparr>))"

definition add_where :: "string \<Rightarrow> rat \<Rightarrow> string \<Rightarrow> close_sim \<Rightarrow> close_sim res" where
  "add_where job t p s =
     (case dget (q_where s) job of None \<Rightarrow> Inl KeyError
      | Some l \<Rightarrow> Inr (s\<lparr>q_where := dset job (l @ [(t, p)]) (q_where s)\<rparr>))"

definition rdiv :: "rat \<Rightarrow> rat \<Rightarrow> rat res" where
  "rdiv a b = (if b = 0 then Inl ZeroDivisionError else Inr (a / b))"

definition owners :: "close_sim \<Rightarrow> (string \<times> cons) list" where
  "owners s = map (\<lambda>(j, p). (j, p_owner p)) (sort_key fst (q_pending s))"

section \<open>Redis scripts\<close>

function wake_close_loop :: "rat \<Rightarrow> nat \<Rightarrow> nat \<Rightarrow> cons list \<Rightarrow> close_sim \<Rightarrow> (nat \<times> cons list \<times> close_sim) res" where
  "wake_close_loop t n woken spopped s =
     (if woken < n \<and> q_idle s \<noteq> {}
      then (if card (q_idle s) = 1
            then let m = the_elem (q_idle s);
                     s1 = log_idle t m False ''SPOP'' (s\<lparr>q_idle := q_idle s - {m}\<rparr>)
                 in if c_sub (q_c s1 m)
                    then wake_close_loop t n (woken + 1) (spopped @ [m])
                           (at_ev (t + travel (WAKE_PATH m) V_close) (WakeArriveC m)
                             (s1\<lparr>q_wakes := q_wakes s1 @ [(t, m)]\<rparr>))
                    else wake_close_loop t n woken (spopped @ [m]) s1
            else Inl AssertionError)
      else Inr (woken, spopped, s))"
  by pat_completeness auto
termination
proof (relation "measure (\<lambda>(t, n, woken, sp, s). card (q_idle s))", goal_cases)
  case (2 t n woken spopped s m s1)
  then obtain y where "q_idle s = {y}" using card_1_singletonE by auto
  with 2 show ?case by (simp add: log_idle_def at_ev_def push_ev_def)
next
  case (3 t n woken spopped s m s1)
  then obtain y where "q_idle s = {y}" using card_1_singletonE by auto
  with 3 show ?case by (simp add: log_idle_def)
qed simp

declare wake_close_loop.simps [simp del]

definition wake_close :: "rat \<Rightarrow> nat \<Rightarrow> string \<Rightarrow> close_sim \<Rightarrow> (nat \<times> cons list \<times> close_sim) res" where
  "wake_close t n why s =
     rbind (wake_close_loop t n 0 [] s) (\<lambda>(woken, spopped, s1).
     Inr (woken, spopped, say t (MWake why n spopped woken) s1))"

text \<open>The first free slot (\<open>slots.index(None)\<close>) and the last free drawn row.\<close>

fun free_slot :: "string option list \<Rightarrow> nat res" where
  "free_slot [] = Inl ValueError"
| "free_slot (None # ss) = Inr 0"
| "free_slot (Some _ # ss) = rbind (free_slot ss) (\<lambda>i. Inr (Suc i))"

definition free_row :: "close_sim \<Rightarrow> nat res" where
  "free_row s =
     (let used = map p_row (dvals (q_pending s)); free = filter (\<lambda>r. r \<notin> set used) [0..<3]
      in if free = [] then Inl ValueError else Inr (last free))"

text \<open>One job of a pop: into pending under the lowest free row, into a slot, on its way to the consumer.\<close>

definition pop_job :: "rat \<Rightarrow> cons \<Rightarrow> string \<Rightarrow> string \<Rightarrow> close_sim \<Rightarrow> close_sim res" where
  "pop_job t m why job s =
     (let s1 = upd_c m (\<lambda>st. st\<lparr>c_seq := c_seq st + 1\<rparr>) s
      in rbind (free_row s1) (\<lambda>row.
         let s2 = upd_c m (\<lambda>st. st\<lparr>c_beat := True\<rparr>)
               (s1\<lparr>q_pending := dset job \<lparr>p_owner = m, p_row = row, p_t = t, p_seq = c_seq (q_c s1 m)\<rparr> (q_pending s1)\<rparr>)
         in rbind (free_slot (c_slots (q_c s2 m))) (\<lambda>slot.
            rbind (set_busy t m 1 (upd_c m (\<lambda>st. st\<lparr>c_slots := (c_slots st)[slot := Some job]\<rparr>) s2)) (\<lambda>s3.
            case dget (q_x s3) job of None \<Rightarrow> Inl KeyError
            | Some x \<Rightarrow>
              let s4 = s3\<lparr>q_x := ddel job (q_x s3)\<rparr>; dy = ROW_Y ! row - LIST_Y; dx = x - ROW_X
              in rbind (rdiv (POP_MOVE * dy) (dx + dy)) (\<lambda>d.
                 rbind (add_items job [at_pt t x LIST_Y (VInt 1) None, at_pt (t + d) x (ROW_Y ! row) (VInt 1) None,
                          at_pt (t + POP_MOVE) ROW_X (ROW_Y ! row) (VInt 1) None] s4) (\<lambda>s5.
                 rbind (add_where job t (''pending:'' @ (case m of C1 \<Rightarrow> ''C1'' | C2 \<Rightarrow> ''C2'')) s5) (\<lambda>s6.
                 let arrive = t + travel (POP_PATH m) V_close;
                     s7 = s6\<lparr>q_pops := q_pops s6 @ [(t, m, job, why)],
                            q_runs := q_runs s6 @ [\<lparr>r_c = m, r_slot = slot, r_job = job, r_reserved = t,
                                                   r_start = arrive, r_end = None, r_frac = None\<rparr>]\<rparr>
                 in case dget WORK_close job of None \<Rightarrow> Inl KeyError
                    | Some w \<Rightarrow> Inr (at_ev (arrive + w) (JobEndC m slot job) s7))))))))"

definition pop_call :: "rat \<Rightarrow> cons \<Rightarrow> int \<Rightarrow> string \<Rightarrow> close_sim \<Rightarrow> close_sim res" where
  "pop_call t m want why s =
     (let got = take (nat want) (q_lst s); s1 = s\<lparr>q_lst := drop (nat want) (q_lst s)\<rparr>
      in rbind (rcheck (got \<noteq> [])) (\<lambda>_.
         rbind (rfold (pop_job t m why) got s1) (\<lambda>s2.
         let short = (POP_close > 1 \<and> q_lst s2 = [] \<and> int (length got) < want);
             s3 = (if short \<and> c_consumer (q_c s2 m) then snd (sadd t m ''short pop'' s2) else s2);
             s4 = upd_c m (\<lambda>st. st\<lparr>c_free := short\<rparr>) s3
         in Inr (say t (MPops m got why (owners s4) (q_lst s4)) s4))))"

section \<open>varmq's pull loop\<close>

lemma length_close_signal [simp]: "c_signal (q_c (snd (length_close t m s)) m') = c_signal (q_c s m')"
  by (simp add: length_close_def Let_def sadd_def upd_c_def log_idle_def say_def)

function loop_close :: "rat \<Rightarrow> cons \<Rightarrow> string \<Rightarrow> close_sim \<Rightarrow> close_sim res" where
  "loop_close t m why s =
     (let st = q_c s m;
          r = (if c_alive st \<and> c_busy st < CONC_close then length_close t m s else (0, s));
          s1 = snd r
      in if fst r > 0
         then rbind (pop_call t m (min (CONC_close - c_busy (q_c s1 m)) POP_close) why
                      (upd_c m (\<lambda>st. st\<lparr>c_pulling := True\<rparr>) s1)) (\<lambda>s2.
              Inr (at_ev (t + POP_GAP) (LoopC m why) s2))
         else let s2 = upd_c m (\<lambda>st. st\<lparr>c_pulling := False\<rparr>) s1
              in if c_signal (q_c s2 m)
                 then loop_close t m ''queued signal'' (upd_c m (\<lambda>st. st\<lparr>c_signal := False\<rparr>) s2)
                 else Inr s2)"
  by pat_completeness auto
termination
  by (relation "measure (\<lambda>(t, m, why, s). if c_signal (q_c s m) then 1 else 0)")
     (auto simp: upd_c_def split: if_splits)

declare loop_close.simps [simp del]

definition signal_close :: "rat \<Rightarrow> cons \<Rightarrow> string \<Rightarrow> close_sim \<Rightarrow> close_sim res" where
  "signal_close t m why s =
     (if \<not> c_alive (q_c s m) then Inr s
      else if c_pulling (q_c s m) then Inr (upd_c m (\<lambda>st. st\<lparr>c_signal := True\<rparr>) s)
      else loop_close t m why (if c_busy (q_c s m) \<ge> CONC_close then say t (MIgnores m why) s else s))"

section \<open>Events\<close>

definition on_enqueue_c :: "rat \<Rightarrow> string \<Rightarrow> close_sim \<Rightarrow> close_sim" where
  "on_enqueue_c t job s = at_ev (t + ENQ_FLY) (PushC job t) (s\<lparr>q_calls := q_calls s @ [t]\<rparr>)"

definition on_push :: "rat \<Rightarrow> string \<Rightarrow> rat \<Rightarrow> close_sim \<Rightarrow> close_sim res" where
  "on_push t job t_call s =
     (let s1 = s\<lparr>q_lst := q_lst s @ [job]\<rparr>
      in rbind (rnth SLOT_X (length (q_lst s1) - 1)) (\<lambda>x.
         rbind (add_items job [at_pt t_call (fst PROD_close) (snd PROD_close) (VInt 0) None,
                  at_pt (t_call + 8 / 100) (fst PROD_close + 12) (snd PROD_close) (VInt 1) None,
                  at_pt t x LIST_Y (VInt 1) None] (s1\<lparr>q_x := dset job x (q_x s1)\<rparr>)) (\<lambda>s2.
         rbind (add_where job t ''list'' s2) (\<lambda>s3.
         let n = length (q_lst s3)
         in rbind (wake_close t n (''Enqueue '' @ job) s3) (\<lambda>(woken, _, s4).
            Inr (s4\<lparr>q_push_wakes := q_push_wakes s4 @ [(job, n, woken)]\<rparr>))))))"

definition on_wake_arrive :: "rat \<Rightarrow> cons \<Rightarrow> close_sim \<Rightarrow> close_sim res" where
  "on_wake_arrive t m s = signal_close t m ''wake'' (say t (MReceives m) s)"

definition on_nudge :: "rat \<Rightarrow> cons \<Rightarrow> close_sim \<Rightarrow> close_sim res" where
  "on_nudge t m s =
     (if \<not> c_consumer (q_c s m) then Inr s
      else
        let s1 = upd_c m (\<lambda>st. st\<lparr>c_ticks := c_ticks st @ [t]\<rparr>) s; st = q_c s1 m
        in rbind
          (if q_lst s1 = []
           then Inr (if c_free st then snd (sadd t m ''nudge, queue empty'' s1)
                     else if m \<notin> q_idle s1
                     then say t (MStays m (c_busy st))
                       (s1\<lparr>q_mark := (q_mark s1)\<lparr>k_stays := (if k_stays (q_mark s1) m = None
                           then cput m (Some (t, c_busy st)) (k_stays (q_mark s1)) else k_stays (q_mark s1))\<rparr>\<rparr>)
                     else s1)
           else let s2 = snd (srem t m ''nudge, items waiting'' s1)
                in signal_close t m ''nudge poke'' (say t (MPoke m (length (q_lst s2))) s2)) (\<lambda>s3.
          Inr (if t + 1 \<le> HORIZON_close then at_ev (t + 1) (NudgeC m) s3 else s3)))"

definition on_subscribe :: "rat \<Rightarrow> cons \<Rightarrow> close_sim \<Rightarrow> close_sim" where
  "on_subscribe t m s =
     (let s1 = say t (MStarts m)
            (upd_c m (\<lambda>st. st\<lparr>c_alive := True, c_consumer := True, c_sub := True, c_free := True\<rparr>) s)
      in at_ev (t + 1) (NudgeC m) (snd (sadd t m ''Subscribe'' s1)))"

definition on_close :: "rat \<Rightarrow> cons \<Rightarrow> close_sim \<Rightarrow> close_sim" where
  "on_close t m s =
     (let s1 = upd_c m (\<lambda>st. st\<lparr>c_closed := True, c_consumer := False\<rparr>) s;
          s2 = s1\<lparr>q_mark := (q_mark s1)\<lparr>k_close := Some t, k_idle_at_close := Some (q_idle s1)\<rparr>\<rparr>;
          (left, s3) = srem t m ''leave()'' s2;
          s4 = s3\<lparr>q_mark := (q_mark s3)\<lparr>k_left := Some left\<rparr>\<rparr>;
          s5 = say t (MClose m (map r_job (filter (\<lambda>r. r_c r = m \<and> r_end r = None) (q_runs s4)))) s4
      in at_ev (t + LEAVE + 2 / 100) (ReleaseC m) s5)"

text \<open>The position of a job in the list (\<open>lst.index(j)\<close>).\<close>

fun index_of :: "'a \<Rightarrow> 'a list \<Rightarrow> nat res" where
  "index_of x [] = Inl ValueError"
| "index_of x (y # ys) = (if x = y then Inr 0 else rbind (index_of x ys) (\<lambda>i. Inr (Suc i)))"

definition release_job :: "rat \<Rightarrow> cons \<Rightarrow> string \<Rightarrow> close_sim \<Rightarrow> close_sim res" where
  "release_job t m j s =
     (case dget (q_pending s) j of None \<Rightarrow> Inl KeyError
      | Some p \<Rightarrow>
        let s1 = s\<lparr>q_pending := ddel j (q_pending s)\<rparr>
        in rbind (index_of j (q_lst s1)) (\<lambda>i.
           rbind (rnth SLOT_X i) (\<lambda>x.
           rbind (rnth ROW_Y (p_row p)) (\<lambda>y.
           let dx = x - ROW_X; dy = y - LIST_Y
           in rbind (rdiv (REL * dx) (dx + dy)) (\<lambda>d.
              rbind (add_items j [at_pt t ROW_X y (VInt 1) None, at_pt (t + d) x y (VInt 1) None,
                       at_pt (t + REL) x LIST_Y (VInt 1) None] (s1\<lparr>q_x := dset j x (q_x s1)\<rparr>)) (\<lambda>s2.
              rbind (add_where j t ''list'' s2) (\<lambda>s3.
              Inr (s3\<lparr>q_entries := q_entries s3 @
                    [\<lparr>e_owner = m, e_row = p_row p, e_t = p_t p, e_end = t, e_how = ''release''\<rparr>]\<rparr>))))))))"

definition held_ids :: "cons \<Rightarrow> (string, pend) dict \<Rightarrow> (nat \<times> string) list" where
  "held_ids m d = sort (map (\<lambda>(j, p). (p_seq p, j)) (filter (\<lambda>(j, p). p_owner p = m) d))"

definition on_release :: "rat \<Rightarrow> cons \<Rightarrow> close_sim \<Rightarrow> close_sim res" where
  "on_release t m s =
     (let ids = map snd (held_ids m (q_pending s));
          s1 = s\<lparr>q_lst := fold (#) ids (q_lst s)\<rparr>
      in rbind (rfold (release_job t m) ids s1) (\<lambda>s2.
         let s3 = upd_c m (\<lambda>st. st\<lparr>c_beat := False\<rparr>) s2;
             s4 = s3\<lparr>q_mark := (q_mark s3)\<lparr>k_release := Some (t, ids, q_lst s3)\<rparr>\<rparr>
         in Inr (at_ev (t + REL) (ReleaseWakeC m (length ids)) (say t (MRelease m ids (q_lst s4)) s4))))"

definition on_release_wake :: "rat \<Rightarrow> cons \<Rightarrow> nat \<Rightarrow> close_sim \<Rightarrow> close_sim res" where
  "on_release_wake t m n s =
     rbind (wake_close t n ''Close'' (s\<lparr>q_mark := (q_mark s)\<lparr>k_idle_at_wake := Some (q_idle s)\<rparr>\<rparr>)) (\<lambda>(woken, spopped, s1).
     Inr (at_ev (t + EXIT_AFTER) (ExitC m)
       (upd_c m (\<lambda>st. st\<lparr>c_sub := False\<rparr>) (s1\<lparr>q_mark := (q_mark s1)\<lparr>k_close_wake := Some (t, woken, spopped)\<rparr>\<rparr>))))"

text \<open>A run that the exit cuts off ends at \<open>t\<close>, with the fraction of its work that was done.\<close>

definition cut_run :: "rat \<Rightarrow> cons \<Rightarrow> crun \<Rightarrow> crun res" where
  "cut_run t m r =
     (if r_c r = m \<and> r_end r = None
      then (case dget WORK_close (r_job r) of None \<Rightarrow> Inl KeyError
            | Some w \<Rightarrow>
              rbind (rcheck (r_start r < t \<and> t < r_start r + w)) (\<lambda>_.
              Inr (r\<lparr>r_end := Some t, r_frac := Some ((t - r_start r) / w)\<rparr>)))
      else Inr r)"

definition on_exit :: "rat \<Rightarrow> cons \<Rightarrow> close_sim \<Rightarrow> close_sim res" where
  "on_exit t m s =
     (let s1 = upd_c m (\<lambda>st. st\<lparr>c_alive := False\<rparr>) s;
          s2 = s1\<lparr>q_mark := (q_mark s1)\<lparr>k_exit := Some t\<rparr>\<rparr>
      in rbind (rmap (cut_run t m) (q_runs s2)) (\<lambda>rs.
         Inr (say t (MExits m) (s2\<lparr>q_runs := rs\<rparr>))))"

text \<open>The first open run of the job in the slot gets its end.\<close>

fun end_run :: "rat \<Rightarrow> cons \<Rightarrow> nat \<Rightarrow> string \<Rightarrow> crun list \<Rightarrow> crun list res" where
  "end_run t m slot job [] = Inl StopIteration"
| "end_run t m slot job (r # rs) =
     (if r_c r = m \<and> r_slot r = slot \<and> r_job r = job \<and> r_end r = None
      then Inr (r\<lparr>r_end := Some t\<rparr> # rs)
      else rbind (end_run t m slot job rs) (\<lambda>rs'. Inr (r # rs')))"

definition ack_close :: "rat \<Rightarrow> cons \<Rightarrow> string \<Rightarrow> close_sim \<Rightarrow> close_sim res" where
  "ack_close t m job s =
     (case dget (q_pending s) job of None \<Rightarrow> Inl KeyError
      | Some p \<Rightarrow>
        let s1 = s\<lparr>q_pending := ddel job (q_pending s)\<rparr>
        in rbind (rcheck (p_owner p = m)) (\<lambda>_.
           rbind (rnth ROW_Y (p_row p)) (\<lambda>y.
           rbind (add_items job [at_pt t ROW_X y (VInt 1) None, at_pt (t + 3 / 10) ROW_X y (VInt 0) None]
                    (s1\<lparr>q_acks := q_acks s1 @ [(t, m, job)]\<rparr>)) (\<lambda>s2.
           rbind (add_where job t ''done'' s2) (\<lambda>s3.
           let s4 = s3\<lparr>q_entries := q_entries s3 @
                 [\<lparr>e_owner = m, e_row = p_row p, e_t = p_t p, e_end = t, e_how = ''ack''\<rparr>]\<rparr>
           in Inr (say t (MAcks m job (owners s4)) s4))))))"

definition on_job_end :: "rat \<Rightarrow> cons \<Rightarrow> nat \<Rightarrow> string \<Rightarrow> close_sim \<Rightarrow> close_sim res" where
  "on_job_end t m slot job s =
     (if \<not> c_alive (q_c s m) then Inr s
      else
        rbind (end_run t m slot job (q_runs s)) (\<lambda>rs.
        let s1 = s\<lparr>q_runs := rs\<rparr>
        in rbind (if c_closed (q_c s1 m)
                  then Inr (s1\<lparr>q_failed_acks := q_failed_acks s1 @ [(t, m, job)]\<rparr>)
                  else ack_close t m job s1) (\<lambda>s2.
           rbind (if slot < length (c_slots (q_c s2 m))
                  then Inr (upd_c m (\<lambda>st. st\<lparr>c_slots := (c_slots st)[slot := None]\<rparr>) s2)
                  else Inl IndexError) (\<lambda>s3.
           rbind (set_busy t m (-1) s3) (\<lambda>s4.
           signal_close t m ''job end'' (snd (length_close t m s4)))))))"

fun close_handle :: "rat \<Rightarrow> close_ev \<Rightarrow> close_sim \<Rightarrow> close_sim res" where
  "close_handle t (EnqueueC job) s = Inr (on_enqueue_c t job s)"
| "close_handle t (PushC job tc) s = on_push t job tc s"
| "close_handle t (LoopC m why) s = loop_close t m why s"
| "close_handle t (WakeArriveC m) s = on_wake_arrive t m s"
| "close_handle t (NudgeC m) s = on_nudge t m s"
| "close_handle t (SubscribeC m) s = Inr (on_subscribe t m s)"
| "close_handle t (CloseC m) s = Inr (on_close t m s)"
| "close_handle t (ReleaseC m) s = on_release t m s"
| "close_handle t (ReleaseWakeC m n) s = on_release_wake t m n s"
| "close_handle t (ExitC m) s = on_exit t m s"
| "close_handle t (JobEndC m slot job) s = on_job_end t m slot job s"

section \<open>The run\<close>

definition close_init :: close_sim where
  "close_init =
     at_ev CLOSE (CloseC C2) (at_ev C1_START (SubscribeC C1) (at_ev C2_TICK0 (NudgeC C2)
       (fold (\<lambda>(j, t). at_ev t (EnqueueC j)) ENQ_close Sim)))"

definition run_close :: "nat \<Rightarrow> close_sim \<Rightarrow> close_sim res option" where
  "run_close fuel s = run_events (\<lambda>t. t > HORIZON_close) close_handle fuel s"

end
