(* ===== verification/Close_Inv.thy ===== *)
theory Close_Inv
  imports Close_Sim Job_Store
begin

text \<open>
  What the operations of the close simulation do to its jobs. A job is on its way (an \<open>enqueue\<close> or
  \<open>push\<close> in the heap), listed, pending or acknowledged; the \<open>jobs view\<close> of a state is these four, and
  every operation either leaves it alone or moves one job. From that, the invariant of the event
  loop and the interpretation of \<open>job_store\<close>.
\<close>

named_theorems close_frame \<open>what the plumbing of the close simulation leaves alone\<close>

section \<open>The wake loop\<close>

text \<open>
  The loop runs at most once: SPOP is only taken on a one-member set, so the set is empty after it.
\<close>

lemma wake_loop_result:
  "wake_close_loop t n w sp s =
     (if w < n \<and> q_idle s \<noteq> {}
      then (if card (q_idle s) = 1
            then (let m = the_elem (q_idle s); s1 = log_idle t m False ''SPOP'' (s\<lparr>q_idle := {}\<rparr>)
                  in if c_sub (q_c s m)
                     then Inr (w + 1, sp @ [m],
                            at_ev (t + travel (WAKE_PATH m) V_close) (WakeArriveC m) (s1\<lparr>q_wakes := q_wakes s @ [(t, m)]\<rparr>))
                     else Inr (w, sp @ [m], s1))
            else Inl AssertionError)
      else Inr (w, sp, s))"
proof (cases "w < n \<and> q_idle s \<noteq> {} \<and> card (q_idle s) = 1")
  case True
  then obtain m where m: "q_idle s = {m}" using card_1_singletonE by auto
  have empty: "q_idle s' = {} \<Longrightarrow> wake_close_loop t n w' sp' s' = Inr (w', sp', s')" for w' sp' s'
    by (subst wake_close_loop.simps) simp
  from True m show ?thesis
    by (subst wake_close_loop.simps) (simp add: Let_def empty at_ev_def push_ev_def log_idle_def)
next
  case False
  then show ?thesis by (subst wake_close_loop.simps) auto
qed

section \<open>The contract of the pull loop\<close>

text \<open>
  What the pull loop and a signal do to the rest of the state they do through five operations: a
  property that these keep, they keep.
\<close>

locale pull_loop =
  fixes P :: "close_sim \<Rightarrow> bool"
  assumes say: "P s \<Longrightarrow> P (say t x s)"
    and pulling: "P s \<Longrightarrow> P (upd_c m (\<lambda>st. st\<lparr>c_pulling := b\<rparr>) s)"
    and signalled: "P s \<Longrightarrow> P (upd_c m (\<lambda>st. st\<lparr>c_signal := b\<rparr>) s)"
    and looked: "P s \<Longrightarrow> P (snd (length_close t m s))"
    and popped: "P s \<Longrightarrow> pop_call t m want why s = Inr s' \<Longrightarrow> P s'"
    and again: "P s \<Longrightarrow> P (at_ev t (LoopC m why) s)"

context pull_loop
begin

lemma loop_keeps: "loop_close t m why s = Inr s' \<Longrightarrow> P s \<Longrightarrow> P s'"
proof (induction t m why s rule: loop_close.induct)
  case (1 t m why s)
  let ?r = "if c_alive (q_c s m) \<and> c_busy (q_c s m) < CONC_close then length_close t m s else (0, s)"
  let ?s1 = "upd_c m (\<lambda>st. st\<lparr>c_pulling := True\<rparr>) (snd ?r)"
  let ?s2 = "upd_c m (\<lambda>st. st\<lparr>c_pulling := False\<rparr>) (snd ?r)"
  have r: "P (snd ?r)" using "1.prems"(2) looked by simp
  show ?case
  proof (cases "fst ?r > 0")
    case True
    with "1.prems"(1) obtain s3 where
      3: "pop_call t m (min (CONC_close - c_busy (q_c (snd ?r) m)) POP_close) why ?s1 = Inr s3"
      and s': "s' = at_ev (t + POP_GAP) (LoopC m why) s3"
      by (subst (asm) loop_close.simps) (auto simp: Let_def)
    from popped [OF pulling [OF r] 3] show ?thesis unfolding s' by (rule again)
  next
    case False
    show ?thesis
    proof (cases "c_signal (q_c ?s2 m)")
      case True
      with False "1.prems"(1) have s': "loop_close t m ''queued signal'' (upd_c m (\<lambda>st. st\<lparr>c_signal := False\<rparr>) ?s2) = Inr s'"
        by (subst (asm) loop_close.simps) (simp add: Let_def)
      show ?thesis by (rule "1.IH" [OF refl refl refl False refl True s' signalled [OF pulling [OF r]]])
    next
      case no: False
      with False "1.prems"(1) have "s' = ?s2" by (subst (asm) loop_close.simps) (simp add: Let_def)
      with pulling [OF r] show ?thesis by simp
    qed
  qed
qed

lemma signal_keeps: "signal_close t m why s = Inr s' \<Longrightarrow> P s \<Longrightarrow> P s'"
  using loop_keeps say signalled by (auto simp: signal_close_def split: if_splits)

lemma wake_arrive_keeps: "on_wake_arrive t m s = Inr s' \<Longrightarrow> P s \<Longrightarrow> P s'"
  unfolding on_wake_arrive_def by (erule signal_keeps) (rule say)

end

text \<open>A nudge looks at the list and joins or leaves \<open>:idle\<close> before it pokes the pull loop.\<close>

locale nudge_loop = pull_loop +
  assumes ticked: "P s \<Longrightarrow> P (upd_c m (\<lambda>st. st\<lparr>c_ticks := c_ticks st @ [t]\<rparr>) s)"
    and joined: "P s \<Longrightarrow> c_consumer (q_c s m) \<Longrightarrow> P (snd (sadd t m w s))"
    and left: "P s \<Longrightarrow> P (snd (srem t m w s))"
    and marked: "P s \<Longrightarrow> P (s\<lparr>q_mark := k\<rparr>)"
    and nudged: "P s \<Longrightarrow> P (at_ev t (NudgeC m) s)"

context nudge_loop
begin

lemma nudge_keeps:
  assumes "on_nudge t m s = Inr s'" and P: "P s"
  shows "P s'"
proof (cases "c_consumer (q_c s m)")
  case False
  with assms show ?thesis by (simp add: on_nudge_def)
next
  case True
  define s1 where s1: "s1 = upd_c m (\<lambda>st. st\<lparr>c_ticks := c_ticks st @ [t]\<rparr>) s"
  have P1: "P s1" unfolding s1 using P by (rule ticked)
  have c1: "c_consumer (q_c s1 m)" using True by (simp add: upd_c_def s1)
  note unf = assms(1) [unfolded on_nudge_def Let_def, folded s1] True
  have end_event: "P (if t + 1 \<le> HORIZON_close then at_ev (t + 1) (NudgeC m) x else x)" if "P x" for x
    using that nudged by simp
  consider (free) "q_lst s1 = []" "c_free (q_c s1 m)"
    | (idle) "q_lst s1 = []" "\<not> c_free (q_c s1 m)" "m \<in> q_idle s1"
    | (stays) "q_lst s1 = []" "\<not> c_free (q_c s1 m)" "m \<notin> q_idle s1"
    | (poke) "q_lst s1 \<noteq> []" by blast
  then show ?thesis
  proof cases
    case free
    with unf end_event [OF joined [OF P1 c1, of t "''nudge, queue empty''"]] show ?thesis by simp
  next
    case idle
    with unf end_event [OF P1] show ?thesis by simp
  next
    case stays
    let ?k = "(q_mark s1)\<lparr>k_stays := (if k_stays (q_mark s1) m = None
        then cput m (Some (t, c_busy (q_c s1 m))) (k_stays (q_mark s1)) else k_stays (q_mark s1))\<rparr>"
    from stays unf end_event [OF say [OF marked [OF P1, of ?k], of t "MStays m (c_busy (q_c s1 m))"]]
    show ?thesis by simp
  next
    case poke
    define s2 where s2: "s2 = snd (srem t m ''nudge, items waiting'' s1)"
    from poke unf [folded s2] obtain s3 where
      3: "signal_close t m ''nudge poke'' (say t (MPoke m (length (q_lst s2))) s2) = Inr s3"
      and s': "s' = (if t + 1 \<le> HORIZON_close then at_ev (t + 1) (NudgeC m) s3 else s3)"
      by auto
    have "P s2" unfolding s2 using P1 by (rule left)
    from end_event [OF signal_keeps [OF 3 say [OF this]]] show ?thesis unfolding s' .
  qed
qed

end

section \<open>The jobs view\<close>

fun ev_job :: "close_ev \<Rightarrow> string multiset" where
  "ev_job (EnqueueC j) = {#j#}"
| "ev_job (PushC j t) = {#j#}"
| "ev_job e = {#}"

definition todo :: "('t stamp \<times> close_ev) list \<Rightarrow> string multiset" where
  "todo h = sum_mset (image_mset (\<lambda>x. ev_job (snd x)) (mset h))"

type_synonym jstate = "string multiset \<times> string list \<times> (string, cons) dict \<times> (cons \<times> string) list"

definition owners_of :: "(string, pend) dict \<Rightarrow> (string, cons) dict" where
  "owners_of d = map (\<lambda>(j, p). (j, p_owner p)) d"

definition jobs_view :: "close_sim \<Rightarrow> jstate" where
  "jobs_view s = (todo (ev s), q_lst s, owners_of (q_pending s), map (\<lambda>(t, m, j). (m, j)) (q_acks s))"

lemma owners_of_simps [simp]:
  "dget (owners_of d) j = map_option p_owner (dget d j)"
  "owners_of (dset j p d) = dset j (p_owner p) (owners_of d)"
  "owners_of (ddel j d) = ddel j (owners_of d)"
  "dkeys (owners_of d) = dkeys d"
  by (induction d) (auto simp: owners_of_def)

lemma todo_simps [simp]:
  "todo [] = {#}"
  "todo (x # h) = ev_job (snd x) + todo h"
  by (simp_all add: todo_def)

lemma todo_push [simp]: "todo (ev (push_ev t e s)) = ev_job e + todo (ev s)"
  by (simp add: todo_def)

lemma jobs_view_fields [simp]:
  "jobs_view (s\<lparr>q_mark := x1\<rparr>) = jobs_view s" "jobs_view (s\<lparr>q_items := x2\<rparr>) = jobs_view s"
  "jobs_view (s\<lparr>q_where := x3\<rparr>) = jobs_view s" "jobs_view (s\<lparr>q_x := x4\<rparr>) = jobs_view s"
  "jobs_view (s\<lparr>q_entries := x5\<rparr>) = jobs_view s" "jobs_view (s\<lparr>q_runs := x6\<rparr>) = jobs_view s"
  "jobs_view (s\<lparr>q_pops := x7\<rparr>) = jobs_view s" "jobs_view (s\<lparr>q_wakes := x8\<rparr>) = jobs_view s"
  "jobs_view (s\<lparr>q_push_wakes := x9\<rparr>) = jobs_view s" "jobs_view (s\<lparr>q_busy_log := y1\<rparr>) = jobs_view s"
  "jobs_view (s\<lparr>q_calls := y2\<rparr>) = jobs_view s" "jobs_view (s\<lparr>q_failed_acks := y3\<rparr>) = jobs_view s"
  "jobs_view (s\<lparr>q_log := y4\<rparr>) = jobs_view s" "jobs_view (s\<lparr>q_idle := y5\<rparr>) = jobs_view s"
  "jobs_view (s\<lparr>q_idle_log := y6\<rparr>) = jobs_view s" "jobs_view (s\<lparr>q_c := y7\<rparr>) = jobs_view s"
  by (simp_all add: jobs_view_def)

lemma jobs_view_plumbing [simp]:
  "jobs_view (say t m s) = jobs_view s" "jobs_view (upd_c c f s) = jobs_view s"
  "jobs_view (log_idle t c b w s) = jobs_view s" "jobs_view (snd (sadd t c w s)) = jobs_view s"
  "jobs_view (snd (srem t c w s)) = jobs_view s" "jobs_view (snd (length_close t c s)) = jobs_view s"
  by (simp_all add: say_def upd_c_def log_idle_def sadd_def srem_def length_close_def Let_def)

lemma jobs_view_at_ev [simp]: "ev_job e = {#} \<Longrightarrow> jobs_view (at_ev t e s) = jobs_view s"
  by (simp add: jobs_view_def at_ev_def) (simp add: push_ev_def)

lemma jobs_view_set_busy: "set_busy t c d s = Inr s' \<Longrightarrow> jobs_view s' = jobs_view s"
  by (auto simp: set_busy_def Let_def)

lemma jobs_view_add_items: "add_items j p s = Inr s' \<Longrightarrow> jobs_view s' = jobs_view s"
  by (auto simp: add_items_def split: option.splits)

lemma jobs_view_add_where: "add_where j t p s = Inr s' \<Longrightarrow> jobs_view s' = jobs_view s"
  by (auto simp: add_where_def split: option.splits)

lemma jobs_view_wake: "wake_close t n w s = Inr (k, sp, s') \<Longrightarrow> jobs_view s' = jobs_view s"
  by (auto simp: wake_close_def wake_loop_result Let_def split: if_splits)

lemmas jobs_view_same = jobs_view_set_busy jobs_view_add_items jobs_view_add_where jobs_view_wake

section \<open>The abstract moves\<close>

text \<open>
  What a queue promises of its jobs, with no heap, no slots and no drawing: a job arrives at the tail
  of the list, a consumer takes the head into pending, acknowledges what it owns, or gives everything
  it owns back to the front of the list.
\<close>

inductive jmove :: "jstate \<Rightarrow> jstate \<Rightarrow> bool" where
  arrive: "jmove (add_mset j d, l, p, a) (d, l @ [j], p, a)"
| take: "jmove (d, j # l, p, a) (d, l, dset j c p, a)"
| ack: "dget p j = Some c \<Longrightarrow> jmove (d, l, p, a) (d, l, ddel j p, a @ [(c, j)])"
| give_back: "mset js = mset (map fst (filter (\<lambda>(j, c'). c' = c) p))
    \<Longrightarrow> jmove (d, l, p, a) (d, js @ l, without (set js) p, a)"

abbreviation jmoves :: "jstate \<Rightarrow> jstate \<Rightarrow> bool" where
  "jmoves \<equiv> jmove\<^sup>*\<^sup>*"

inductive_cases jmove_cases: "jmove (d, l, p, a) v"

section \<open>Every operation refines the moves\<close>

lemma pop_job_view:
  assumes "pop_job t m why j s = Inr s'" and "jobs_view s = (d, l, p, a)"
  shows "jobs_view s' = (d, l, dset j m p, a)"
proof -
  have v: "jobs_view (s1\<lparr>q_pending := dset j pe (q_pending s1)\<rparr>) = (d, l, dset j m p, a)"
    if "jobs_view s1 = (d, l, p, a)" "p_owner pe = m" for s1 pe
    using that by (auto simp: jobs_view_def)
  show ?thesis
    using assms
    by (auto simp: pop_job_def Let_def v dest!: jobs_view_same split: option.splits)
qed

lemma pops_view:
  "rfold (pop_job t m why) got s = Inr s' \<Longrightarrow> jobs_view s = (d, l, p, a) \<Longrightarrow> jmoves (d, got @ l, p, a) (jobs_view s')"
proof (induction got arbitrary: s p)
  case (Cons j got)
  then obtain s1 where 1: "pop_job t m why j s = Inr s1" and 2: "rfold (pop_job t m why) got s1 = Inr s'" by auto
  have "jmove (d, (j # got) @ l, p, a) (d, got @ l, dset j m p, a)" by (simp add: jmove.take)
  also have "jmoves (d, got @ l, dset j m p, a) (jobs_view s')"
    by (rule Cons.IH [OF 2 pop_job_view [OF 1 Cons.prems(2)]])
  finally show ?case by simp
qed simp

lemma jobs_view_lst:
  "jobs_view (s\<lparr>q_lst := l\<rparr>) = (fst (jobs_view s), l, snd (snd (jobs_view s)))"
  by (simp add: jobs_view_def)

lemma jobs_view_pending:
  "jobs_view (s\<lparr>q_pending := p\<rparr>) =
     (fst (jobs_view s), fst (snd (jobs_view s)), owners_of p, snd (snd (snd (jobs_view s))))"
  by (simp add: jobs_view_def)

lemma pop_call_view:
  assumes "pop_call t m want why s = Inr s'"
  shows "jmoves (jobs_view s) (jobs_view s')"
proof -
  let ?got = "take (nat want) (q_lst s)" and ?rest = "drop (nat want) (q_lst s)"
  from assms obtain s2 where 2: "rfold (pop_job t m why) ?got (s\<lparr>q_lst := ?rest\<rparr>) = Inr s2"
    and s': "jobs_view s' = jobs_view s2"
    by (auto simp: pop_call_def Let_def split: if_splits)
  obtain d p a where v: "jobs_view s = (d, q_lst s, p, a)" by (simp add: jobs_view_def)
  have "jmoves (d, ?got @ ?rest, p, a) (jobs_view s2)"
    by (rule pops_view [OF 2]) (simp add: jobs_view_lst v)
  with s' v show ?thesis by simp
qed

interpretation jobs_pull: nudge_loop "\<lambda>s. jmoves v (jobs_view s)" for v
  by unfold_locales (auto dest: pop_call_view)

lemma signal_view: "signal_close t m why s = Inr s' \<Longrightarrow> jmoves (jobs_view s) (jobs_view s')"
  by (erule jobs_pull.signal_keeps) (rule rtranclp.rtrancl_refl)

lemma loop_view: "loop_close t m why s = Inr s' \<Longrightarrow> jmoves (jobs_view s) (jobs_view s')"
  by (erule jobs_pull.loop_keeps) (rule rtranclp.rtrancl_refl)

lemma on_push_view:
  assumes "on_push t j tc s = Inr s'" and "jobs_view s = (d, l, p, a)"
  shows "jobs_view s' = (d, l @ [j], p, a)"
  using assms by (auto simp: on_push_def Let_def jobs_view_lst dest!: jobs_view_same) (auto simp: jobs_view_def)

lemma on_nudge_view: "on_nudge t m s = Inr s' \<Longrightarrow> jmoves (jobs_view s) (jobs_view s')"
  by (erule jobs_pull.nudge_keeps) (rule rtranclp.rtrancl_refl)

lemma on_subscribe_view [simp]: "jobs_view (on_subscribe t m s) = jobs_view s"
  by (simp add: on_subscribe_def Let_def)

lemma on_close_view [simp]: "jobs_view (on_close t m s) = jobs_view s"
proof -
  have "jobs_view s2 = jobs_view s1" if "srem t m w s1 = (b, s2)" for s1 s2 w b
    using jobs_view_plumbing(5) [of t m w s1] that by simp
  then show ?thesis by (auto simp: on_close_def Let_def split: prod.split)
qed

lemma on_release_wake_view: "on_release_wake t m n s = Inr s' \<Longrightarrow> jobs_view s' = jobs_view s"
  by (auto simp: on_release_wake_def dest!: jobs_view_same)

lemma on_exit_view: "on_exit t m s = Inr s' \<Longrightarrow> jobs_view s' = jobs_view s"
  by (auto simp: on_exit_def Let_def)

lemma ack_close_view:
  assumes "ack_close t m j s = Inr s'" and "jobs_view s = (d, l, p, a)"
  shows "jmove (jobs_view s) (jobs_view s')"
proof -
  from assms(1) obtain pe where pe: "dget (q_pending s) j = Some pe" "p_owner pe = m"
    by (auto simp: ack_close_def Let_def split: option.splits)
  have "jobs_view s' = (d, l, ddel j p, a @ [(m, j)])"
    using assms pe
    by (auto simp: ack_close_def Let_def dest!: jobs_view_same)
       (auto simp: jobs_view_def)
  moreover have "dget p j = Some m" using assms(2) pe by (auto simp: jobs_view_def)
  ultimately show ?thesis using assms(2) jmove.ack [of p j m d l a] by simp
qed

text \<open>The parts of a job's end, for a consumer whose process is there.\<close>

lemma on_job_endD:
  assumes "on_job_end t m i j s = Inr s'" and "c_alive (q_c s m)"
  shows "\<exists>rs s2 s4. end_run t m i j (q_runs s) = Inr rs
    \<and> (if c_closed (q_c s m) then Inr (s\<lparr>q_runs := rs, q_failed_acks := q_failed_acks (s\<lparr>q_runs := rs\<rparr>) @ [(t, m, j)]\<rparr>)
       else ack_close t m j (s\<lparr>q_runs := rs\<rparr>)) = Inr s2
    \<and> i < length (c_slots (q_c s2 m))
    \<and> set_busy t m (-1) (upd_c m (\<lambda>st. st\<lparr>c_slots := (c_slots st)[i := None]\<rparr>) s2) = Inr s4
    \<and> signal_close t m ''job end'' (snd (length_close t m s4)) = Inr s'"
proof -
  from assms obtain rs s2 s3 s4 where 1: "end_run t m i j (q_runs s) = Inr rs"
    and 2: "(if c_closed (q_c s m) then Inr (s\<lparr>q_runs := rs, q_failed_acks := q_failed_acks (s\<lparr>q_runs := rs\<rparr>) @ [(t, m, j)]\<rparr>)
       else ack_close t m j (s\<lparr>q_runs := rs\<rparr>)) = Inr s2"
    and 3: "(if i < length (c_slots (q_c s2 m))
       then Inr (upd_c m (\<lambda>st. st\<lparr>c_slots := (c_slots st)[i := None]\<rparr>) s2) else Inl IndexError) = Inr s3"
    and 4: "set_busy t m (-1) s3 = Inr s4" "signal_close t m ''job end'' (snd (length_close t m s4)) = Inr s'"
    by (simp add: on_job_end_def Let_def) blast
  from 3 have "i < length (c_slots (q_c s2 m))"
    "s3 = upd_c m (\<lambda>st. st\<lparr>c_slots := (c_slots st)[i := None]\<rparr>) s2" by (simp_all split: if_splits)
  with 1 2 4 show ?thesis by (intro exI conjI) simp_all
qed

lemma on_job_end_view:
  assumes "on_job_end t m i j s = Inr s'"
  shows "jmoves (jobs_view s) (jobs_view s')"
proof (cases "c_alive (q_c s m)")
  case True
  from on_job_endD [OF assms True] obtain rs s2 s4 where
    2: "(if c_closed (q_c s m) then Inr (s\<lparr>q_runs := rs, q_failed_acks := q_failed_acks (s\<lparr>q_runs := rs\<rparr>) @ [(t, m, j)]\<rparr>)
         else ack_close t m j (s\<lparr>q_runs := rs\<rparr>)) = Inr s2"
    and 4: "set_busy t m (-1) (upd_c m (\<lambda>st. st\<lparr>c_slots := (c_slots st)[i := None]\<rparr>) s2) = Inr s4"
    and s': "signal_close t m ''job end'' (snd (length_close t m s4)) = Inr s'" by blast
  have "jmoves (jobs_view s) (jobs_view s2)"
  proof (cases "c_closed (q_c s m)")
    case True
    with 2 have "s2 = s\<lparr>q_runs := rs, q_failed_acks := q_failed_acks (s\<lparr>q_runs := rs\<rparr>) @ [(t, m, j)]\<rparr>" by simp
    then show ?thesis by simp
  next
    case False
    with 2 have a: "ack_close t m j (s\<lparr>q_runs := rs\<rparr>) = Inr s2" by simp
    obtain d l p a' where "jobs_view (s\<lparr>q_runs := rs\<rparr>) = (d, l, p, a')" by (cases "jobs_view (s\<lparr>q_runs := rs\<rparr>)")
    from ack_close_view [OF a this] show ?thesis by simp
  qed
  also have "jmoves (jobs_view s2) (jobs_view s')"
    using signal_view [OF s'] jobs_view_set_busy [OF 4] by simp
  finally show ?thesis .
qed (use assms in \<open>simp add: on_job_end_def\<close>)

section \<open>The release\<close>

lemma release_job_view:
  assumes "release_job t m j s = Inr s'" and "jobs_view s = (d, l, p, a)"
  shows "jobs_view s' = (d, l, ddel j p, a)"
proof -
  have v: "jobs_view (s\<lparr>q_pending := ddel j (q_pending s)\<rparr>) = (d, l, ddel j p, a)"
    using assms(2) by (auto simp: jobs_view_def)
  show ?thesis
    using assms v by (auto simp: release_job_def Let_def dest!: jobs_view_same split: option.splits)
qed

lemma release_jobs_view:
  "rfold (release_job t m) js s = Inr s' \<Longrightarrow> jobs_view s = (d, l, p, a)
    \<Longrightarrow> jobs_view s' = (d, l, without (set js) p, a)"
proof (induction js arbitrary: s p)
  case (Cons j js)
  then obtain s1 where 1: "release_job t m j s = Inr s1" and 2: "rfold (release_job t m) js s1 = Inr s'" by auto
  have "without (set js) (ddel j p) = without (set (j # js)) p"
    using fold_ddel [of "j # js" p] fold_ddel [of js "ddel j p"] by simp
  then show ?case by (simp only: Cons.IH [OF 2 release_job_view [OF 1 Cons.prems(2)]])
qed simp

lemma held_ids_keys:
  "mset (map snd (held_ids m d)) = mset (map fst (filter (\<lambda>(j, c). c = m) (owners_of d)))"
  by (simp add: held_ids_def owners_of_def filter_map comp_def image_mset.compositionality case_prod_unfold)

lemma fold_Cons: "fold (#) js l = rev js @ l"
  by (induction js arbitrary: l) auto

lemma on_release_view:
  assumes "on_release t m s = Inr s'" and "jobs_view s = (d, l, p, a)" and "js = map snd (held_ids m (q_pending s))"
  shows "jobs_view s' = (d, rev js @ l, without (set js) p, a)"
proof -
  from assms(1) obtain s2 where "rfold (release_job t m) js (s\<lparr>q_lst := rev js @ q_lst s\<rparr>) = Inr s2"
    and "jobs_view s' = jobs_view s2"
    by (auto simp: on_release_def Let_def fold_Cons assms(3))
  moreover have "jobs_view (s\<lparr>q_lst := rev js @ q_lst s\<rparr>) = (d, rev js @ l, p, a)"
    using assms(2) by (simp add: jobs_view_def)
  ultimately show ?thesis using release_jobs_view by simp
qed

lemma on_release_move:
  assumes "on_release t m s = Inr s'"
  shows "jmove (jobs_view s) (jobs_view s')"
proof -
  obtain d l p a where v: "jobs_view s = (d, l, p, a)" by (cases "jobs_view s")
  let ?js = "map snd (held_ids m (q_pending s))"
  from v have "p = owners_of (q_pending s)" by (simp add: jobs_view_def)
  then have "jmove (d, l, p, a) (d, rev ?js @ l, without (set (rev ?js)) p, a)"
    by (intro jmove.give_back [where c = m]) (simp only: held_ids_keys mset_rev)
  with on_release_view [OF assms(1) v refl] v show ?thesis by simp
qed

section \<open>The handler\<close>

text \<open>Taking an event out of the heap takes its job off the way; a \<open>push\<close> lands it, an \<open>enqueue\<close> sends it again.\<close>

lemma handle_view:
  assumes "ev s = (k, e) # h" and "close_handle t e (s\<lparr>ev := h\<rparr>) = Inr s'"
  shows "jmoves (jobs_view s) (jobs_view s')"
proof -
  let ?s = "s\<lparr>ev := h\<rparr>"
  obtain d l p a where v: "jobs_view ?s = (d, l, p, a)" by (cases "jobs_view ?s")
  then have s: "jobs_view s = (ev_job e + d, l, p, a)" using assms(1) by (simp add: jobs_view_def)
  have same: "ev_job e = {#} \<Longrightarrow> jobs_view s = jobs_view ?s" using s v by simp
  show ?thesis
  proof (cases e)
    case (EnqueueC j)
    with assms(2) have "jobs_view s' = (add_mset j d, l, p, a)"
      using v by (auto simp: on_enqueue_c_def jobs_view_def at_ev_def) (simp_all add: push_ev_def)
    with s EnqueueC show ?thesis by simp
  next
    case (PushC j tc)
    with assms(2) on_push_view [OF _ v, of t j tc s'] have "jobs_view s' = (d, l @ [j], p, a)" by simp
    with s PushC jmove.arrive [of j d l p a] show ?thesis by simp
  next
    case (ReleaseC m)
    with assms(2) on_release_move [of t m ?s s'] same show ?thesis by simp
  next
    case (ReleaseWakeC m n)
    with assms(2) on_release_wake_view [of t m n ?s s'] same show ?thesis by simp
  next
    case (ExitC m)
    with assms(2) on_exit_view [of t m ?s s'] same show ?thesis by simp
  next
    case (WakeArriveC m)
    with assms(2) signal_view [of t m "''wake''" "say t (MReceives m) ?s" s'] same show ?thesis
      by (simp add: on_wake_arrive_def)
  next
    case (NudgeC m)
    with assms(2) on_nudge_view [of t m ?s s'] same show ?thesis by simp
  next
    case (LoopC m w)
    with assms(2) loop_view [of t m w ?s s'] same show ?thesis by simp
  next
    case (JobEndC m i j)
    with assms(2) on_job_end_view [of t m i j ?s s'] same show ?thesis by simp
  next
    case (SubscribeC m)
    with assms(2) same show ?thesis by auto
  next
    case (CloseC m)
    with assms(2) same show ?thesis by auto
  qed
qed

end
