(* ===== verification/Close_Jobs.thy ===== *)
theory Close_Jobs
  imports Close_Inv
begin

text \<open>
  Every event of the close simulation refines the abstract moves, and what the moves keep: no job is
  lost, none is in two places, none is acknowledged twice. The event loop interprets \<open>job_store\<close>.
\<close>

section \<open>What a move keeps\<close>

fun total :: "jstate \<Rightarrow> string multiset" where
  "total (d, l, p, a) = d + mset l + mset (dkeys p) + mset (map snd a)"

fun landed :: "jstate \<Rightarrow> string set" where
  "landed (d, l, p, a) = set l \<union> keyset p \<union> snd ` set a"

fun pend_of :: "jstate \<Rightarrow> (string, cons) dict" where
  "pend_of (d, l, p, a) = p"

fun acks_of_view :: "jstate \<Rightarrow> (cons \<times> string) list" where
  "acks_of_view (d, l, p, a) = a"

definition once :: "string multiset \<Rightarrow> bool" where
  "once M \<longleftrightarrow> (\<forall>j. count M j \<le> 1)"

lemma mset_dkeys_ddel: "dict_ok p \<Longrightarrow> j \<in> keyset p \<Longrightarrow> mset (dkeys p) = add_mset j (mset (dkeys (ddel j p)))"
  by (induction p) (auto simp: dict_ok_def keyset_def)

lemma mset_map_partition:
  "mset (map f xs) = mset (map f (filter P xs)) + mset (map f (filter (\<lambda>x. \<not> P x) xs))"
  by (induction xs) auto

lemma jmove_total:
  assumes "jmove u v" and "dict_ok (pend_of u)" and "once (total u)"
  shows "total v = total u \<and> dict_ok (pend_of v)"
  using assms
proof (induction rule: jmove.induct)
  case (take d j l p a c)
  have "count (total (d, j # l, p, a)) j \<le> 1" using take unfolding once_def by blast
  then have "j \<notin> set (dkeys p)" by (auto simp: not_in_iff [symmetric])
  then have "mset (dkeys (dset j c p)) = add_mset j (mset (dkeys p))" by (simp add: dkeys_dset_new)
  with take(1) show ?case by simp
next
  case (ack p j c d l a)
  then show ?case using mset_dkeys_ddel [of p j] dget_keyset_Some [of p j c] by simp
next
  case (give_back js c p d l a)
  have js: "mset js = mset (map fst (filter (\<lambda>(j, c'). c' = c) p))" by fact
  have "filter (\<lambda>x. fst x \<in> set js) p = filter (\<lambda>(j, c'). c' = c) p"
  proof (rule filter_cong [OF refl])
    fix x assume "x \<in> set p"
    have "set js = fst ` set (filter (\<lambda>(j, c'). c' = c) p)" using js by (metis set_map set_mset_mset)
    then show "(fst x \<in> set js) = (case x of (j, c') \<Rightarrow> c' = c)"
      using give_back(2) \<open>x \<in> set p\<close> by (auto simp: dict_ok_def distinct_map inj_on_def)
  qed
  then have "mset (dkeys p) = mset js + mset (dkeys (without (set js) p))"
    using js mset_map_partition [of fst p "\<lambda>x. fst x \<in> set js"] by (simp only: without_def)
  with give_back(2) show ?case by simp
qed simp

lemma jmoves_total:
  assumes "jmoves u v" and "dict_ok (pend_of u)" and "once (total u)"
  shows "total v = total u \<and> dict_ok (pend_of v)"
  using assms by (induction rule: rtranclp_induct) (use jmove_total in fastforce)+

lemma jmove_landed: "jmove u v \<Longrightarrow> landed u \<subseteq> landed v"
  by (induction rule: jmove.induct) auto

lemma jmoves_landed: "jmoves u v \<Longrightarrow> landed u \<subseteq> landed v"
  by (induction rule: rtranclp_induct) (use jmove_landed in blast)+

lemma jmove_acks: "jmove u v \<Longrightarrow> \<exists>b. acks_of_view v = acks_of_view u @ b"
  by (induction rule: jmove.induct) auto

lemma jmoves_acks: "jmoves u v \<Longrightarrow> \<exists>b. acks_of_view v = acks_of_view u @ b"
proof (induction rule: rtranclp_induct)
  case (step v w)
  with jmove_acks [of v w] show ?case by auto
qed simp

section \<open>The event loop as a store of jobs\<close>

definition close_held :: "close_sim \<Rightarrow> string multiset" where
  "close_held s = todo (ev s) + mset (q_lst s) + mset (dkeys (q_pending s))"

definition acked :: "close_sim \<Rightarrow> string list" where
  "acked s = map (\<lambda>(t, m, j). j) (q_acks s)"

definition close_ok :: "close_sim \<Rightarrow> bool" where
  "close_ok s \<longleftrightarrow> dict_ok (q_pending s) \<and> once (close_held s + mset (acked s))"

text \<open>One turn of the loop: the least event is handled. No job comes in from outside the heap; the jobs
  acknowledged by the event are the finished ones.\<close>

fun close_step :: "unit \<Rightarrow> close_sim \<Rightarrow> (close_sim \<times> string list \<times> string list) res" where
  "close_step u s =
     (case heappop (ev s) of
        None \<Rightarrow> Inr (s, [], [])
      | Some ((k, e), h) \<Rightarrow>
          rbind (close_handle (stime k) e (s\<lparr>ev := h\<rparr>)) (\<lambda>s'.
          Inr (s', [], drop (length (q_acks s)) (acked s'))))"

lemma view_facts:
  "total (jobs_view s) = close_held s + mset (acked s)"
  "dict_ok (pend_of (jobs_view s)) \<longleftrightarrow> dict_ok (q_pending s)"
  "map snd (acks_of_view (jobs_view s)) = acked s"
  "landed (jobs_view s) = set (q_lst s) \<union> keyset (q_pending s) \<union> set (acked s)"
proof -
  show "total (jobs_view s) = close_held s + mset (acked s)" "dict_ok (pend_of (jobs_view s)) \<longleftrightarrow> dict_ok (q_pending s)"
    "map snd (acks_of_view (jobs_view s)) = acked s"
    by (simp_all add: jobs_view_def close_held_def acked_def dict_ok_def comp_def case_prod_unfold)
  show "landed (jobs_view s) = set (q_lst s) \<union> keyset (q_pending s) \<union> set (acked s)"
    by (auto simp: jobs_view_def acked_def keyset_def owners_of_def image_image case_prod_unfold)
qed

lemma moves_ok:
  assumes "jmoves (jobs_view s) (jobs_view s')" and "close_ok s"
  shows "close_ok s'" and "close_held s + mset (acked s) = close_held s' + mset (acked s')"
    and "acked s' = acked s @ drop (length (q_acks s)) (acked s')"
proof -
  have t: "total (jobs_view s') = total (jobs_view s) \<and> dict_ok (pend_of (jobs_view s'))"
    using assms by (intro jmoves_total) (simp_all add: view_facts close_ok_def)
  then show "close_ok s'" "close_held s + mset (acked s) = close_held s' + mset (acked s')"
    using assms(2) by (simp_all add: view_facts close_ok_def)
  from jmoves_acks [OF assms(1)] obtain b where "acked s' = acked s @ b"
    by (metis map_append view_facts(3))
  then show "acked s' = acked s @ drop (length (q_acks s)) (acked s')" by (simp add: acked_def)
qed

lemma close_step_moves:
  assumes "close_step u s = Inr (s', a, f)"
  shows "jmoves (jobs_view s) (jobs_view s') \<and> a = [] \<and> f = drop (length (q_acks s)) (acked s')"
proof (cases "ev s")
  case Nil
  with assms show ?thesis by (auto simp: heappop_def acked_def)
next
  case (Cons x h)
  then obtain k e where x: "ev s = (k, e) # h" by (cases x) auto
  with assms have "close_handle (stime k) e (s\<lparr>ev := h\<rparr>) = Inr s'" "a = []" "f = drop (length (q_acks s)) (acked s')"
    by (auto simp: heappop_def)
  with handle_view [OF x] show ?thesis by blast
qed

interpretation close_store: job_store close_step close_held close_ok "\<lambda>_. True"
proof (unfold_locales, goal_cases)
  case (1 s x s' a f)
  then show ?case using close_step_moves moves_ok(1) by blast
next
  case (2 s x s' a f)
  from close_step_moves [OF 2(3)] have m: "jmoves (jobs_view s) (jobs_view s')" and a: "a = []"
    and f: "f = drop (length (q_acks s)) (acked s')" by auto
  from moves_ok(2) [OF m 2(1)] moves_ok(3) [OF m 2(1)]
  have "close_held s + mset (acked s) = close_held s' + mset (acked s @ f)" using f by simp
  with a show ?case by simp
qed

lemma store_moves:
  "store_run close_step xs s = Inr (s', a, f) \<Longrightarrow> jmoves (jobs_view s) (jobs_view s')"
proof (induction xs arbitrary: s a f)
  case (Cons x xs)
  then obtain s1 a1 f1 a2 f2 where 1: "close_step x s = Inr (s1, a1, f1)"
    and 2: "store_run close_step xs s1 = Inr (s', a2, f2)" by (auto simp del: close_step.simps)
  from close_step_moves [OF 1] Cons.IH [OF 2] show ?case by (blast intro: rtranclp_trans)
qed simp

text \<open>A run is a sequence of turns, and at most one event past the horizon taken out after them.\<close>

lemma run_close_steps:
  assumes "run_close fuel s = Some (Inr s')"
  shows "\<exists>n s1 f. store_run close_step (replicate n ()) s = Inr (s1, [], f)
    \<and> (s' = s1 \<or> (\<exists>x h. ev s1 = x # h \<and> s' = s1\<lparr>ev := h\<rparr>))"
  using assms unfolding run_close_def
proof (induction fuel arbitrary: s)
  case 0
  then show ?case by (intro exI [of _ 0]) (auto split: if_splits)
next
  case (Suc fuel)
  show ?case
  proof (cases "ev s")
    case Nil
    with Suc.prems show ?thesis by (intro exI [of _ 0]) (auto simp: heappop_def)
  next
    case (Cons x h)
    then obtain k e where x: "ev s = (k, e) # h" by (cases x) auto
    show ?thesis
    proof (cases "stime k > HORIZON_close")
      case True
      with Suc.prems x have "s' = s\<lparr>ev := h\<rparr>" by (simp add: heappop_def)
      with x show ?thesis by (intro exI [of _ 0]) simp
    next
      case False
      with Suc.prems x obtain s0 where 0: "close_handle (stime k) e (s\<lparr>ev := h\<rparr>) = Inr s0"
        and "run_events (\<lambda>t. t > HORIZON_close) close_handle fuel s0 = Some (Inr s')"
        by (auto simp: heappop_def split: sum.splits)
      from Suc.IH [OF this(2)] obtain n s1 f where n: "store_run close_step (replicate n ()) s0 = Inr (s1, [], f)"
        and s': "s' = s1 \<or> (\<exists>x h. ev s1 = x # h \<and> s' = s1\<lparr>ev := h\<rparr>)" by blast
      have "store_run close_step (replicate (Suc n) ()) s = Inr (s1, [], drop (length (q_acks s)) (acked s0) @ f)"
        using x 0 n by (simp add: heappop_def)
      with s' show ?thesis by blast
    qed
  qed
qed

section \<open>The properties\<close>

text \<open>C2: each event of the close simulation, with all its branches, refines the abstract queue: seen
  through \<open>jobs_view\<close> it is a sequence of arrivals at the tail, takes of the head, acknowledgements by
  the owner, and give-backs of everything an owner holds.\<close>

theorem close_refines_queue:
  assumes "ev s = (k, e) # h" and "close_handle (stime k) e (s\<lparr>ev := h\<rparr>) = Inr s'"
  shows "jmoves (jobs_view s) (jobs_view s')"
  by (rule handle_view [OF assms])

theorem close_refines_queue_witness:
  "\<exists>s'. close_handle 1 (PushC ''J1'' 1) (Sim\<lparr>ev := []\<rparr>) = Inr s' \<and> q_lst s' = [''J1'']
     \<and> jmoves ({#''J1''#}, [], [], []) (jobs_view s')"
proof -
  let ?s = "Sim\<lparr>ev := [(Stamp 1 0, PushC ''J1'' 1)]\<rparr>"
  have "case close_handle 1 (PushC ''J1'' 1) (Sim\<lparr>ev := []\<rparr>) of Inr s' \<Rightarrow> q_lst s' = [''J1''] | Inl e \<Rightarrow> False" by code_simp
  then obtain s' where s': "close_handle 1 (PushC ''J1'' 1) (Sim\<lparr>ev := []\<rparr>) = Inr s'" "q_lst s' = [''J1'']"
    by (auto split: sum.splits)
  have "jmoves (jobs_view ?s) (jobs_view s')"
    by (rule close_refines_queue [of ?s "Stamp 1 0" "PushC ''J1'' 1" "[]"]) (use s'(1) in simp_all)
  moreover have "jobs_view ?s = ({#''J1''#}, [], [], [])" by (simp add: jobs_view_def Sim_def owners_of_def)
  ultimately show ?thesis using s' by auto
qed

text \<open>C5: over any run of the close simulation, whatever its events and however many, no job is in two
  places or acknowledged twice, and no job that was listed, pending or acknowledged is lost.\<close>

theorem close_keeps_jobs:
  assumes "run_close fuel s = Some (Inr s')" and "dict_ok (q_pending s)" and "once (close_held s + mset (acked s))"
  shows "once (close_held s' + mset (acked s'))
    \<and> (\<forall>j. j \<in> set (q_lst s) \<union> keyset (q_pending s)
         \<longrightarrow> j \<in> set (q_lst s') \<union> keyset (q_pending s') \<union> set (acked s'))"
proof -
  from run_close_steps [OF assms(1)] obtain n s1 f
    where n: "store_run close_step (replicate n ()) s = Inr (s1, [], f)"
      and s': "s' = s1 \<or> (\<exists>x h. ev s1 = x # h \<and> s' = s1\<lparr>ev := h\<rparr>)" by blast
  have "close_ok s" using assms(2,3) by (simp add: close_ok_def)
  from close_store.run_keeps [OF this _ n] have "close_ok s1" by (simp add: list_all_iff)
  then have "once (close_held s1 + mset (acked s1))" by (simp add: close_ok_def)
  moreover have "acked s' = acked s1" "\<forall>j. count (close_held s') j \<le> count (close_held s1) j"
    and q: "q_lst s' = q_lst s1" "q_pending s' = q_pending s1"
    using s' by (auto simp: acked_def close_held_def)
  ultimately have "once (close_held s' + mset (acked s'))"
    unfolding once_def count_union by (metis add_le_mono1 le_trans)
  moreover have "landed (jobs_view s) \<subseteq> landed (jobs_view s1)" by (rule jmoves_landed [OF store_moves [OF n]])
  ultimately show ?thesis using q \<open>acked s' = acked s1\<close> by (auto simp: view_facts)
qed

theorem close_keeps_jobs_witness:
  "\<exists>s'. run_close 12 (at_ev 1 (EnqueueC ''J1'') Sim) = Some (Inr s') \<and> acked s' = [''J1'']
     \<and> once (close_held s' + mset (acked s'))"
proof -
  let ?s = "at_ev 1 (EnqueueC ''J1'') Sim"
  have "case run_close 12 ?s of Some (Inr s') \<Rightarrow> acked s' = [''J1''] | _ \<Rightarrow> False" by code_simp
  then obtain s' where s': "run_close 12 ?s = Some (Inr s')" "acked s' = [''J1'']"
    by (auto split: option.splits sum.splits)
  have "close_held ?s = {#''J1''#}" "q_acks ?s = []" "q_pending ?s = []"
    by (simp_all add: close_held_def at_ev_def Sim_def) (simp_all add: push_ev_def)
  with close_keeps_jobs [OF s'(1)] have "once (close_held s' + mset (acked s'))"
    by (simp add: once_def acked_def)
  with s' show ?thesis by (intro exI [of _ s'] conjI)
qed

end
