(* ===== verification/Close_Slots.thy ===== *)
theory Close_Slots
  imports Close_Inv
begin

text \<open>
  The worker slots of the close simulation: a consumer's \<open>busy\<close> counter is the number of its occupied
  slots, and every job end in the heap is for a slot that holds that job. From that, capacity: the
  assertion of \<open>set_busy\<close> and the search for a free slot cannot fail where the code calls them.
\<close>

section \<open>The slots view\<close>

text \<open>The occupied slots with their jobs, and the job ends in the heap.\<close>

definition filled :: "string option list \<Rightarrow> (nat \<times> string) set" where
  "filled ss = {(i, j). i < length ss \<and> ss ! i = Some j}"

fun ev_end :: "cons \<Rightarrow> close_ev \<Rightarrow> (nat \<times> string) multiset" where
  "ev_end m (JobEndC c i j) = (if c = m then {#(i, j)#} else {#})"
| "ev_end m e = {#}"

definition ends :: "cons \<Rightarrow> ('t stamp \<times> close_ev) list \<Rightarrow> (nat \<times> string) multiset" where
  "ends m h = sum_mset (image_mset (\<lambda>x. ev_end m (snd x)) (mset h))"

type_synonym sview = "string option list \<times> int \<times> (nat \<times> string) multiset"

definition slots_view :: "close_sim \<Rightarrow> cons \<Rightarrow> sview" where
  "slots_view s = (\<lambda>m. (c_slots (q_c s m), c_busy (q_c s m), ends m (ev s)))"

fun sview_ok :: "sview \<Rightarrow> bool" where
  "sview_ok (ss, b, es) \<longleftrightarrow> length ss = nat CONC_close \<and> b = int (card (filled ss)) \<and> es \<subseteq># mset_set (filled ss)"

definition slots_ok :: "close_sim \<Rightarrow> bool" where
  "slots_ok s \<longleftrightarrow> (\<forall>m. sview_ok (slots_view s m))"

lemma finite_filled [simp]: "finite (filled ss)"
proof -
  have "filled ss \<subseteq> (\<lambda>i. (i, the (ss ! i))) ` {..<length ss}" by (force simp: filled_def image_iff)
  then show ?thesis by (rule finite_subset) simp
qed

lemma filled_fill:
  "i < length ss \<Longrightarrow> ss ! i = None \<Longrightarrow> filled (ss[i := Some j]) = insert (i, j) (filled ss) \<and> (i, j) \<notin> filled ss"
  by (auto simp: filled_def nth_list_update split: if_splits)

lemma filled_clear:
  "(i, j) \<in> filled ss \<Longrightarrow> filled (ss[i := None]) = filled ss - {(i, j)}"
  by (auto simp: filled_def nth_list_update split: if_splits)

lemma card_filled: "card (filled ss) \<le> length ss"
proof -
  have "inj_on fst (filled ss)" by (auto simp: filled_def inj_on_def)
  then have "card (filled ss) = card (fst ` filled ss)" by (simp add: card_image)
  also have "\<dots> \<le> card {..<length ss}" by (rule card_mono) (auto simp: filled_def)
  finally show ?thesis by simp
qed

lemma free_slot_iff: "card (filled ss) < length ss \<Longrightarrow> \<exists>i. free_slot ss = Inr i"
proof (induction ss)
  case (Cons x ss)
  show ?case
  proof (cases x)
    case (Some j)
    have "filled (x # ss) = insert (0, j) ((\<lambda>(i, j). (Suc i, j)) ` filled ss)"
      by (auto simp: filled_def Some image_iff nth_Cons split: nat.splits)
    then have "card (filled (x # ss)) = Suc (card (filled ss))"
      by (simp add: image_iff card_image inj_on_def case_prod_unfold prod_eq_iff)
    with Cons Some show ?thesis by auto
  qed simp
qed simp

lemma free_slotD: "free_slot ss = Inr i \<Longrightarrow> i < length ss \<and> ss ! i = None"
  by (induction ss arbitrary: i rule: free_slot.induct) auto

lemma ends_simps [simp]:
  "ends m [] = {#}"
  "ends m (x # h) = ev_end m (snd x) + ends m h"
  by (simp_all add: ends_def)

lemma ends_push [simp]: "ends m (ev (push_ev t e s)) = ev_end m e + ends m (ev s)"
  by (simp add: ends_def)

section \<open>Frames\<close>

lemma slots_view_fields [simp]:
  "slots_view (s\<lparr>q_mark := x1\<rparr>) = slots_view s" "slots_view (s\<lparr>q_items := x2\<rparr>) = slots_view s"
  "slots_view (s\<lparr>q_where := x3\<rparr>) = slots_view s" "slots_view (s\<lparr>q_x := x4\<rparr>) = slots_view s"
  "slots_view (s\<lparr>q_entries := x5\<rparr>) = slots_view s" "slots_view (s\<lparr>q_runs := x6\<rparr>) = slots_view s"
  "slots_view (s\<lparr>q_pops := x7\<rparr>) = slots_view s" "slots_view (s\<lparr>q_wakes := x8\<rparr>) = slots_view s"
  "slots_view (s\<lparr>q_push_wakes := x9\<rparr>) = slots_view s" "slots_view (s\<lparr>q_busy_log := y1\<rparr>) = slots_view s"
  "slots_view (s\<lparr>q_calls := y2\<rparr>) = slots_view s" "slots_view (s\<lparr>q_failed_acks := y3\<rparr>) = slots_view s"
  "slots_view (s\<lparr>q_log := y4\<rparr>) = slots_view s" "slots_view (s\<lparr>q_idle := y5\<rparr>) = slots_view s"
  "slots_view (s\<lparr>q_idle_log := y6\<rparr>) = slots_view s" "slots_view (s\<lparr>q_lst := y7\<rparr>) = slots_view s"
  "slots_view (s\<lparr>q_pending := y8\<rparr>) = slots_view s" "slots_view (s\<lparr>q_acks := y9\<rparr>) = slots_view s"
  by (simp_all add: slots_view_def)

lemma slots_view_upd_c [simp]:
  "(\<And>st. c_slots (f st) = c_slots st \<and> c_busy (f st) = c_busy st) \<Longrightarrow> slots_view (upd_c c f s) = slots_view s"
  by (auto simp: slots_view_def upd_c_def fun_eq_iff)

lemma slots_view_plumbing [simp]:
  "slots_view (say t x s) = slots_view s"
  "slots_view (log_idle t c b w s) = slots_view s" "slots_view (snd (sadd t c w s)) = slots_view s"
  "slots_view (snd (srem t c w s)) = slots_view s" "slots_view (snd (length_close t c s)) = slots_view s"
  by (simp_all add: say_def log_idle_def sadd_def srem_def length_close_def Let_def)

lemma slots_view_at_ev [simp]: "(\<And>m. ev_end m e = {#}) \<Longrightarrow> slots_view (at_ev t e s) = slots_view s"
  by (simp add: slots_view_def at_ev_def) (simp add: push_ev_def)

lemma slots_view_set_busy:
  "set_busy t c d s = Inr s' \<Longrightarrow>
     slots_view s' = (slots_view s)(c := (c_slots (q_c s c), c_busy (q_c s c) + d, ends c (ev s)))"
  by (auto simp: set_busy_def Let_def slots_view_def upd_c_def fun_eq_iff)

lemma slots_view_add_items: "add_items j p s = Inr s' \<Longrightarrow> slots_view s' = slots_view s"
  by (auto simp: add_items_def split: option.splits)

lemma slots_view_add_where: "add_where j t p s = Inr s' \<Longrightarrow> slots_view s' = slots_view s"
  by (auto simp: add_where_def split: option.splits)

lemma slots_view_wake: "wake_close t n w s = Inr (k, sp, s') \<Longrightarrow> slots_view s' = slots_view s"
  by (auto simp: wake_close_def wake_loop_result Let_def split: if_splits)

lemmas slots_view_same = slots_view_add_items slots_view_add_where slots_view_wake

section \<open>Operations\<close>

lemma upd_c_same [simp]: "q_c (upd_c c f s) c = f (q_c s c)"
  by (simp add: upd_c_def)

lemma slots_view_slot:
  "slots_view (upd_c c (\<lambda>st. st\<lparr>c_slots := (c_slots st)[i := x]\<rparr>) s) =
     (slots_view s)(c := ((c_slots (q_c s c))[i := x], c_busy (q_c s c), ends c (ev s)))"
  by (auto simp: slots_view_def upd_c_def)

lemma slots_view_job_end:
  "slots_view (at_ev t (JobEndC c i j) s) =
     (slots_view s)(c := (c_slots (q_c s c), c_busy (q_c s c), add_mset (i, j) (ends c (ev s))))"
  by (simp add: slots_view_def at_ev_def fun_eq_iff) (simp add: push_ev_def)

lemma slots_view_c: "slots_view s c = (ss, b, es) \<Longrightarrow> c_slots (q_c s c) = ss \<and> c_busy (q_c s c) = b \<and> ends c (ev s) = es"
  by (simp add: slots_view_def)

lemma pop_job_slots:
  assumes "pop_job t c why j s = Inr s'"
  shows "\<exists>i. free_slot (c_slots (q_c s c)) = Inr i
    \<and> slots_view s' = (slots_view s)(c := ((c_slots (q_c s c))[i := Some j], c_busy (q_c s c) + 1, add_mset (i, j) (ends c (ev s))))"
proof -
  have eq: "c_slots (q_c s1 c) = fst (slots_view s1 c) \<and> c_busy (q_c s1 c) = fst (snd (slots_view s1 c))
     \<and> ends c (ev s1) = snd (snd (slots_view s1 c))" for s1
    by (simp add: slots_view_def)
  show ?thesis using assms
    by (auto simp: pop_job_def Let_def slots_view_slot slots_view_job_end eq
        dest!: slots_view_same slots_view_set_busy split: option.splits)
qed

section \<open>The invariant\<close>

lemma slots_ok_same: "slots_view s' = slots_view s \<Longrightarrow> slots_ok s \<Longrightarrow> slots_ok s'"
  by (simp add: slots_ok_def)

lemma slots_ok_upd: "slots_view s' = (slots_view s)(c := v) \<Longrightarrow> slots_ok s \<Longrightarrow> sview_ok v \<Longrightarrow> slots_ok s'"
  by (simp add: slots_ok_def)

lemma sview_fill:
  "sview_ok (ss, b, es) \<Longrightarrow> free_slot ss = Inr i \<Longrightarrow> sview_ok (ss[i := Some j], b + 1, add_mset (i, j) es)"
  using filled_fill [of i ss j] by (auto dest: free_slotD)

lemma sview_clear:
  assumes "sview_ok (ss, b, add_mset (i, j) es)"
  shows "sview_ok (ss[i := None], b - 1, es)"
proof -
  from assms have sub: "add_mset (i, j) es \<subseteq># mset_set (filled ss)" by simp
  then have "(i, j) \<in># mset_set (filled ss)" by (meson insert_subset_eq_iff)
  then have mem: "(i, j) \<in> filled ss" by simp
  have "es \<subseteq># mset_set (filled ss - {(i, j)})"
    using sub mset_set.remove [OF finite_filled mem] by simp
  moreover have "card (filled ss) = Suc (card (filled ss - {(i, j)}))"
    by (rule card.remove [OF finite_filled mem])
  ultimately show ?thesis using assms by (simp add: filled_clear [OF mem])
qed

lemma pop_job_ok: "pop_job t c why j s = Inr s' \<Longrightarrow> slots_ok s \<Longrightarrow> slots_ok s'"
  using pop_job_slots [of t c why j s s'] sview_fill slots_ok_upd
  by (metis slots_ok_def slots_view_def)

lemma pop_call_ok:
  assumes "pop_call t c want why s = Inr s'" and "slots_ok s"
  shows "slots_ok s'"
proof -
  from assms(1) obtain s2 where
    2: "rfold (pop_job t c why) (take (nat want) (q_lst s)) (s\<lparr>q_lst := drop (nat want) (q_lst s)\<rparr>) = Inr s2"
    and s': "slots_view s' = slots_view s2"
    by (auto simp: pop_call_def Let_def split: if_splits)
  have "slots_ok s2" by (rule rfold_invariant [OF 2]) (use assms(2) pop_job_ok in \<open>auto intro: slots_ok_same [of _ s]\<close>)
  with s' show ?thesis by (rule slots_ok_same)
qed

interpretation slots_pull: nudge_loop slots_ok
  by unfold_locales (auto dest: pop_call_ok intro: slots_ok_same [rotated])

lemma release_job_slots: "release_job t m j s = Inr s' \<Longrightarrow> slots_view s' = slots_view s"
  by (auto simp: release_job_def Let_def dest!: slots_view_same split: option.splits)

lemma ack_close_slots: "ack_close t m j s = Inr s' \<Longrightarrow> slots_view s' = slots_view s"
  by (auto simp: ack_close_def Let_def dest!: slots_view_same split: option.splits)

lemma on_release_slots:
  assumes "on_release t m s = Inr s'"
  shows "slots_view s' = slots_view s"
proof -
  from assms obtain s2 where
    2: "rfold (release_job t m) (map snd (held_ids m (q_pending s)))
          (s\<lparr>q_lst := fold (#) (map snd (held_ids m (q_pending s))) (q_lst s)\<rparr>) = Inr s2"
    and s': "slots_view s' = slots_view s2"
    by (auto simp: on_release_def Let_def)
  have "slots_view s2 = slots_view s"
    by (rule rfold_invariant [OF 2]) (use release_job_slots in auto)
  with s' show ?thesis by simp
qed

lemma on_close_slots [simp]: "slots_view (on_close t m s) = slots_view s"
proof -
  have "slots_view s2 = slots_view s1" if "srem t m w s1 = (b, s2)" for s1 s2 w b
    using slots_view_plumbing(4) [of t m w s1] that by simp
  then show ?thesis by (auto simp: on_close_def Let_def split: prod.split)
qed

lemma on_job_end_ok:
  assumes "on_job_end t m i j s = Inr s'" and "slots_ok s"
    and "sview_ok (c_slots (q_c s m), c_busy (q_c s m), add_mset (i, j) (ends m (ev s)))"
  shows "slots_ok s'"
proof (cases "c_alive (q_c s m)")
  case True
  from on_job_endD [OF assms(1) True] obtain rs s2 s4 where
    2: "(if c_closed (q_c s m) then Inr (s\<lparr>q_runs := rs, q_failed_acks := q_failed_acks (s\<lparr>q_runs := rs\<rparr>) @ [(t, m, j)]\<rparr>)
         else ack_close t m j (s\<lparr>q_runs := rs\<rparr>)) = Inr s2"
    and 4: "set_busy t m (-1) (upd_c m (\<lambda>st. st\<lparr>c_slots := (c_slots st)[i := None]\<rparr>) s2) = Inr s4"
    and s': "signal_close t m ''job end'' (snd (length_close t m s4)) = Inr s'" by blast
  have v2: "slots_view s2 = slots_view s"
    using 2 ack_close_slots [of t m j "s\<lparr>q_runs := rs\<rparr>" s2] by (auto split: if_splits)
  then have c2: "c_slots (q_c s2 m) = c_slots (q_c s m)" "c_busy (q_c s2 m) = c_busy (q_c s m)" "ends m (ev s2) = ends m (ev s)"
    by (simp_all add: slots_view_def fun_eq_iff)
  have "slots_view s4 = (slots_view s)(m := ((c_slots (q_c s m))[i := None], c_busy (q_c s m) - 1, ends m (ev s)))"
    using slots_view_set_busy [OF 4] by (simp add: slots_view_slot v2 c2) (simp add: upd_c_def c2)
  then have "slots_ok s4" by (rule slots_ok_upd [OF _ assms(2) sview_clear [OF assms(3)]])
  with slots_pull.signal_keeps [OF s'] slots_pull.looked show ?thesis by blast
qed (use assms in \<open>simp add: on_job_end_def\<close>)

lemma handle_slots:
  assumes "ev s = (k, e) # h" and "close_handle t e (s\<lparr>ev := h\<rparr>) = Inr s'" and "slots_ok s"
  shows "slots_ok s'"
proof -
  let ?s = "s\<lparr>ev := h\<rparr>"
  have v: "slots_view s m = (c_slots (q_c s m), c_busy (q_c s m), ev_end m e + ends m h)" for m
    using assms(1) by (simp add: slots_view_def)
  have ok: "slots_ok ?s"
    unfolding slots_ok_def
  proof
    fix m
    have "sview_ok (slots_view s m)" using assms(3) by (simp add: slots_ok_def)
    then have "length (c_slots (q_c s m)) = nat CONC_close" "c_busy (q_c s m) = int (card (filled (c_slots (q_c s m))))"
      "ends m h \<subseteq># mset_set (filled (c_slots (q_c s m)))"
      using v [of m] by (auto dest: subset_mset.order_trans [OF mset_subset_eq_add_right])
    then show "sview_ok (slots_view ?s m)" by (simp add: slots_view_def)
  qed
  have same: "slots_view x = slots_view ?s \<Longrightarrow> slots_ok x" for x using ok by (rule slots_ok_same [rotated])
  show ?thesis
  proof (cases e)
    case (EnqueueC j)
    with assms(2) show ?thesis by (auto intro!: same simp: on_enqueue_c_def)
  next
    case (PushC j tc)
    with assms(2) show ?thesis by (auto intro!: same simp: on_push_def Let_def dest!: slots_view_same)
  next
    case (ReleaseC m)
    with assms(2) on_release_slots [of t m ?s s'] show ?thesis by (auto intro!: same)
  next
    case (ReleaseWakeC m n)
    with assms(2) show ?thesis by (auto intro!: same simp: on_release_wake_def dest!: slots_view_same)
  next
    case (ExitC m)
    with assms(2) show ?thesis by (auto intro!: same simp: on_exit_def Let_def)
  next
    case (WakeArriveC m)
    with assms(2) slots_pull.wake_arrive_keeps [of t m ?s s'] ok show ?thesis by simp
  next
    case (NudgeC m)
    with assms(2) slots_pull.nudge_keeps [of t m ?s s'] ok show ?thesis by simp
  next
    case (LoopC m w)
    with assms(2) slots_pull.loop_keeps [of t m w ?s s'] ok show ?thesis by simp
  next
    case (JobEndC m i j)
    have "sview_ok (slots_view s m)" using assms(3) by (simp add: slots_ok_def)
    with v [of m] JobEndC have "sview_ok (c_slots (q_c ?s m), c_busy (q_c ?s m), add_mset (i, j) (ends m (ev ?s)))" by simp
    with assms(2) JobEndC on_job_end_ok [of t m i j ?s s'] ok show ?thesis by simp
  next
    case (SubscribeC m)
    with assms(2) show ?thesis by (auto intro!: same simp: on_subscribe_def Let_def)
  next
    case (CloseC m)
    with assms(2) show ?thesis by (auto intro!: same)
  qed
qed

end
