(* ===== verification/Close_Claims.thy ===== *)
theory Close_Claims
  imports Close_Slots
begin

text \<open>
  The properties of the close simulation beyond its jobs: capacity, what a closed consumer can no
  longer do, the release, and the wake.
\<close>

section \<open>Capacity\<close>

lemma slots_ok_take: "slots_ok s \<Longrightarrow> ev s = x # h \<Longrightarrow> slots_ok (s\<lparr>ev := h\<rparr>)"
proof -
  assume ok: "slots_ok s" and x: "ev s = x # h"
  show ?thesis
    unfolding slots_ok_def
  proof
    fix m
    have "sview_ok (slots_view s m)" using ok by (simp add: slots_ok_def)
    then show "sview_ok (slots_view (s\<lparr>ev := h\<rparr>) m)"
      using x by (auto simp: slots_view_def dest: subset_mset.order_trans [OF mset_subset_eq_add_right])
  qed
qed

lemma card_filled_index: "card (filled ss) = card {i. i < length ss \<and> ss ! i \<noteq> None}"
proof -
  have "fst ` filled ss = {i. i < length ss \<and> ss ! i \<noteq> None}" by (force simp: filled_def image_iff)
  moreover have "inj_on fst (filled ss)" by (auto simp: filled_def inj_on_def)
  ultimately show ?thesis by (metis card_image)
qed

lemma slots_ok_run:
  assumes "run_close fuel s = Some (Inr s')" and "slots_ok s"
  shows "slots_ok s'"
  by (rule run_events_invariant [where I = slots_ok, OF assms(1) [unfolded run_close_def] assms(2)])
     (blast intro: handle_slots slots_ok_take)+

lemma filled_none [simp]: "filled (replicate n None) = {}"
  by (auto simp: filled_def)

lemma slots_ok_Sim: "slots_ok Sim"
  by (auto simp: slots_ok_def slots_view_def Sim_def two_def consumer0_def split: cons.splits)

lemma slots_ok_at_ev: "(\<And>m. ev_end m e = {#}) \<Longrightarrow> slots_ok s \<Longrightarrow> slots_ok (at_ev t e s)"
  by (simp add: slots_ok_def)

text \<open>C11: in every run of the close simulation a consumer's busy counter is the number of its occupied
  worker slots, so it is never negative and never above its capacity.\<close>

theorem close_capacity:
  assumes "run_close fuel s = Some (Inr s')" and "slots_ok s"
  shows "c_busy (q_c s' m) = int (card {i. i < 3 \<and> c_slots (q_c s' m) ! i \<noteq> None})
    \<and> 0 \<le> c_busy (q_c s' m) \<and> c_busy (q_c s' m) \<le> CONC_close"
proof -
  have "sview_ok (slots_view s' m)" using slots_ok_run [OF assms] by (simp add: slots_ok_def)
  then have "length (c_slots (q_c s' m)) = 3" "c_busy (q_c s' m) = int (card (filled (c_slots (q_c s' m))))"
    by (simp_all add: slots_view_def CONC_close_def)
  with card_filled [of "c_slots (q_c s' m)"] card_filled_index [of "c_slots (q_c s' m)"]
  show ?thesis by (simp add: CONC_close_def)
qed

theorem close_capacity_witness:
  "\<exists>s'. run_close 12 (at_ev 1 (PushC ''J1'' 1) Sim) = Some (Inr s') \<and> c_busy (q_c s' C2) = 0 \<and> c_busy (q_c s' C2) \<le> CONC_close"
proof -
  let ?s = "at_ev 1 (PushC ''J1'' 1) Sim"
  have "case run_close 12 ?s of Some (Inr s') \<Rightarrow> c_busy (q_c s' C2) = 0 | _ \<Rightarrow> False" by code_simp
  then obtain s' where s': "run_close 12 ?s = Some (Inr s')" "c_busy (q_c s' C2) = 0"
    by (auto split: option.splits sum.splits)
  have "slots_ok ?s" by (rule slots_ok_at_ev [OF _ slots_ok_Sim]) simp
  with close_capacity [OF s'(1), of C2] s' show ?thesis by (intro exI [of _ s'] conjI) simp_all
qed

text \<open>
  The states the close simulation can be in: from the fresh one, anything but a job end may be put on
  the schedule at any time, as the generator does, and the first event of the heap is handled, or is
  dropped because it is past the end. Job ends are only put there by the pops.
\<close>

inductive close_reach :: "close_sim \<Rightarrow> bool" where
  fresh: "close_reach Sim"
| planned: "close_reach s \<Longrightarrow> (\<forall>m i j. e \<noteq> JobEndC m i j) \<Longrightarrow> close_reach (at_ev t e s)"
| handled: "close_reach s \<Longrightarrow> ev s = (k, e) # h \<Longrightarrow> close_handle (stime k) e (s\<lparr>ev := h\<rparr>) = Inr s' \<Longrightarrow> close_reach s'"
| dropped: "close_reach s \<Longrightarrow> ev s = x # h \<Longrightarrow> close_reach (s\<lparr>ev := h\<rparr>)"

lemma close_reach_slots: "close_reach s \<Longrightarrow> slots_ok s"
proof (induction rule: close_reach.induct)
  case (planned s e t)
  then have "ev_end m e = {#}" for m by (cases e) auto
  with planned.IH show ?case by (simp add: slots_ok_at_ev)
qed (blast intro: slots_ok_Sim handle_slots slots_ok_take)+

lemma close_reach_run:
  assumes "run_close fuel s = Some (Inr s')" and "close_reach s"
  shows "close_reach s'"
  by (rule run_events_invariant [where I = close_reach, OF assms(1) [unfolded run_close_def] assms(2)])
     (blast intro: handled dropped)+

text \<open>The job ends in the heap for a slot.\<close>

definition slot_ends :: "cons \<Rightarrow> nat \<Rightarrow> close_sim \<Rightarrow> (rat stamp \<times> close_ev) list" where
  "slot_ends m i s = filter (\<lambda>(k, e). \<exists>j. e = JobEndC m i j) (ev s)"

lemma ends_member: "(k, JobEndC m i j) \<in> set h \<Longrightarrow> (i, j) \<in># ends m h"
  by (induction h) auto

lemma ends_of_slot:
  "length (filter (\<lambda>(k, e). \<exists>j. e = JobEndC m i j) h) = size (filter_mset (\<lambda>x. fst x = i) (ends m h))"
proof (induction h)
  case (Cons x h)
  obtain k e where x: "x = (k, e)" by force
  show ?case using Cons x by (cases e) auto
qed simp

lemma slot_ends_once:
  assumes "sview_ok (slots_view s m)"
  shows "length (slot_ends m i s) \<le> 1"
proof -
  let ?F = "filled (c_slots (q_c s m))"
  have "ends m (ev s) \<subseteq># mset_set ?F" using assms by (simp add: slots_view_def)
  then have "filter_mset (\<lambda>x. fst x = i) (ends m (ev s)) \<subseteq># filter_mset (\<lambda>x. fst x = i) (mset_set ?F)"
    by (rule multiset_filter_mono)
  then have "length (slot_ends m i s) \<le> card {x \<in> ?F. fst x = i}"
    unfolding slot_ends_def ends_of_slot by (auto dest!: size_mset_mono)
  also have "\<dots> \<le> 1"
    using card_le_Suc0_iff_eq [of "{x \<in> ?F. fst x = i}"] finite_filled by (auto simp: filled_def simp del: finite_filled)
  finally show ?thesis .
qed

lemma set_busy_up:
  "0 \<le> c_busy (q_c s m) \<Longrightarrow> c_busy (q_c s m) < CONC_close \<Longrightarrow> \<exists>s'. set_busy t m 1 s = Inr s'"
  by (auto simp: set_busy_def Let_def rcheck_def upd_c_def)

lemma set_busy_down:
  "0 < c_busy (q_c s m) \<Longrightarrow> c_busy (q_c s m) \<le> CONC_close \<Longrightarrow> \<exists>s'. set_busy t m (-1) s = Inr s'"
  by (auto simp: set_busy_def Let_def rcheck_def upd_c_def)

text \<open>C18: in every state the close simulation can reach, the checks on capacity cannot fail where the code runs
  them. A consumer below capacity has a free slot and counting one more job passes. Every job end
  that is anywhere in the heap is for one of the three slots, that slot holds its job, no other job
  end is for the same slot, and counting the job off passes.\<close>

theorem capacity_checks_pass:
  assumes "close_reach s"
  shows "(c_busy (q_c s m) < CONC_close \<longrightarrow>
      (\<exists>i s'. free_slot (c_slots (q_c s m)) = Inr i \<and> i < 3 \<and> c_slots (q_c s m) ! i = None
         \<and> set_busy t m 1 s = Inr s'))
    \<and> (\<forall>k i j. (k, JobEndC m i j) \<in> set (ev s) \<longrightarrow>
         i < 3 \<and> c_slots (q_c s m) ! i = Some j \<and> slot_ends m i s = [(k, JobEndC m i j)]
         \<and> (\<exists>s'. set_busy t m (-1) s = Inr s'))"
proof (intro conjI impI allI)
  have view: "sview_ok (slots_view s m)" using close_reach_slots [OF assms] by (simp add: slots_ok_def)
  then have ok: "length (c_slots (q_c s m)) = 3" "c_busy (q_c s m) = int (card (filled (c_slots (q_c s m))))"
    "ends m (ev s) \<subseteq># mset_set (filled (c_slots (q_c s m)))"
    by (simp_all add: slots_view_def CONC_close_def)
  {
    assume low: "c_busy (q_c s m) < CONC_close"
    with ok obtain i where i: "free_slot (c_slots (q_c s m)) = Inr i"
      using free_slot_iff [of "c_slots (q_c s m)"] by (auto simp: CONC_close_def)
    with free_slotD [OF i] set_busy_up [OF _ low, of t] ok(1,2)
    show "\<exists>i s'. free_slot (c_slots (q_c s m)) = Inr i \<and> i < 3 \<and> c_slots (q_c s m) ! i = None \<and> set_busy t m 1 s = Inr s'"
      by auto
  }
  fix k i j
  assume h: "(k, JobEndC m i j) \<in> set (ev s)"
  from ends_member [OF h] ok(3) have "(i, j) \<in># mset_set (filled (c_slots (q_c s m)))" by (rule mset_subset_eqD [rotated])
  then have mem: "(i, j) \<in> filled (c_slots (q_c s m))" by simp
  then show "i < 3" "c_slots (q_c s m) ! i = Some j" using ok(1) by (simp_all add: filled_def)
  have "(k, JobEndC m i j) \<in> set (slot_ends m i s)" using h by (simp add: slot_ends_def)
  with slot_ends_once [OF view, of i] show "slot_ends m i s = [(k, JobEndC m i j)]"
    by (cases "slot_ends m i s") (auto simp: Suc_le_eq)
  have "0 < card (filled (c_slots (q_c s m)))" using mem card_gt_0_iff by fastforce
  then show "\<exists>s'. set_busy t m (-1) s = Inr s'"
    using ok(1,2) card_filled [of "c_slots (q_c s m)"] by (intro set_busy_down) (simp_all add: CONC_close_def)
qed

text \<open>The first event of the heap, handled.\<close>

definition close_next :: "close_sim \<Rightarrow> close_sim res" where
  "close_next s = (case ev s of [] \<Rightarrow> Inl IndexError | (k, e) # h \<Rightarrow> close_handle (stime k) e (s\<lparr>ev := h\<rparr>))"

lemma close_reach_next: "close_next s = Inr s' \<Longrightarrow> close_reach s \<Longrightarrow> close_reach s'"
  by (auto simp: close_next_def intro: handled split: list.splits)

theorem capacity_checks_pass_witness:
  "\<exists>s. close_reach s \<and> (\<exists>k. (k, JobEndC C2 0 ''J1'') \<in> set (ev s)) \<and> c_slots (q_c s C2) ! 0 = Some ''J1''
     \<and> (\<exists>s'. set_busy 2 C2 (-1) s = Inr s')"
proof -
  let ?s = "at_ev 1 (PushC ''J1'' 1) Sim"
  have "case rfold (\<lambda>_. close_next) [0 ..< 3] ?s of Inr s \<Rightarrow> \<exists>x \<in> set (ev s). snd x = JobEndC C2 0 ''J1'' | _ \<Rightarrow> False"
    by code_simp
  then obtain s x where s: "rfold (\<lambda>_. close_next) [0 ..< 3] ?s = Inr s" "x \<in> set (ev s)" "snd x = JobEndC C2 0 ''J1''"
    by (auto split: sum.splits)
  have "close_reach ?s" by (rule planned [OF fresh]) simp
  then have r: "close_reach s" using rfold_invariant [OF s(1), of close_reach] close_reach_next by blast
  from s(2,3) have "(fst x, JobEndC C2 0 ''J1'') \<in> set (ev s)" by (metis prod.collapse)
  with capacity_checks_pass [OF r, of C2 2] r show ?thesis by blast
qed

section \<open>After Close\<close>

text \<open>What decides whether a consumer can join \<open>:idle\<close> or acknowledge.\<close>

definition close_view :: "close_sim \<Rightarrow> (cons \<Rightarrow> bool \<times> bool) \<times> cons set \<times> cons set \<times> (rat \<times> cons \<times> string) list" where
  "close_view s = (\<lambda>m. (c_closed (q_c s m), c_consumer (q_c s m)), q_idle s, {m. SubscribeC m \<in> snd ` set (ev s)}, q_acks s)"

definition gone :: "cons \<Rightarrow> (rat \<times> cons \<times> string) list \<Rightarrow> close_sim \<Rightarrow> bool" where
  "gone m A s \<longleftrightarrow> (case close_view s of (f, i, sub, a) \<Rightarrow>
     f m = (True, False) \<and> m \<notin> i \<and> m \<notin> sub \<and> filter (\<lambda>(t, c, j). c = m) a = A)"

lemma goneD:
  assumes "gone m A s"
  shows "c_closed (q_c s m)" "\<not> c_consumer (q_c s m)" "m \<notin> q_idle s" "SubscribeC m \<notin> snd ` set (ev s)"
    "filter (\<lambda>(t, c, j). c = m) (q_acks s) = A"
  using assms by (auto simp: gone_def close_view_def)

lemma close_view_fields [simp]:
  "close_view (s\<lparr>q_mark := x1\<rparr>) = close_view s" "close_view (s\<lparr>q_items := x2\<rparr>) = close_view s"
  "close_view (s\<lparr>q_where := x3\<rparr>) = close_view s" "close_view (s\<lparr>q_x := x4\<rparr>) = close_view s"
  "close_view (s\<lparr>q_entries := x5\<rparr>) = close_view s" "close_view (s\<lparr>q_runs := x6\<rparr>) = close_view s"
  "close_view (s\<lparr>q_pops := x7\<rparr>) = close_view s" "close_view (s\<lparr>q_wakes := x8\<rparr>) = close_view s"
  "close_view (s\<lparr>q_push_wakes := x9\<rparr>) = close_view s" "close_view (s\<lparr>q_busy_log := y1\<rparr>) = close_view s"
  "close_view (s\<lparr>q_calls := y2\<rparr>) = close_view s" "close_view (s\<lparr>q_failed_acks := y3\<rparr>) = close_view s"
  "close_view (s\<lparr>q_log := y4\<rparr>) = close_view s" "close_view (s\<lparr>q_idle_log := y6\<rparr>) = close_view s"
  "close_view (s\<lparr>q_lst := y7\<rparr>) = close_view s" "close_view (s\<lparr>q_pending := y8\<rparr>) = close_view s"
  by (simp_all add: close_view_def)

lemma close_view_upd_c [simp]:
  "(\<And>st. c_closed (f st) = c_closed st \<and> c_consumer (f st) = c_consumer st) \<Longrightarrow> close_view (upd_c c f s) = close_view s"
  by (auto simp: close_view_def upd_c_def fun_eq_iff)

lemma close_view_plumbing [simp]:
  "close_view (say t x s) = close_view s" "close_view (log_idle t c b w s) = close_view s"
  by (simp_all add: say_def log_idle_def)

lemma close_view_at_ev [simp]: "(\<And>m. e \<noteq> SubscribeC m) \<Longrightarrow> close_view (at_ev t e s) = close_view s"
  by (auto simp: close_view_def at_ev_def) (auto simp: push_ev_def)

lemma close_view_set_busy: "set_busy t c d s = Inr s' \<Longrightarrow> close_view s' = close_view s"
  by (auto simp: set_busy_def Let_def)

lemma close_view_add_items: "add_items j p s = Inr s' \<Longrightarrow> close_view s' = close_view s"
  by (auto simp: add_items_def split: option.splits)

lemma close_view_add_where: "add_where j t p s = Inr s' \<Longrightarrow> close_view s' = close_view s"
  by (auto simp: add_where_def split: option.splits)

lemmas close_view_same = close_view_set_busy close_view_add_items close_view_add_where

lemma gone_same: "close_view s' = close_view s \<Longrightarrow> gone m A s' = gone m A s"
  by (simp add: gone_def)

lemma gone_sadd: "gone m A s \<Longrightarrow> c \<noteq> m \<Longrightarrow> gone m A (snd (sadd t c w s))"
  by (auto simp: sadd_def Let_def gone_def close_view_def say_def log_idle_def)

lemma gone_srem: "gone m A s \<Longrightarrow> gone m A (snd (srem t c w s))"
  by (auto simp: srem_def Let_def gone_def close_view_def say_def log_idle_def)

lemma gone_length: "gone m A s \<Longrightarrow> gone m A (snd (length_close t c s))"
proof -
  assume g: "gone m A s"
  show ?thesis
  proof (cases "q_lst s = [] \<and> c_consumer (q_c s c)")
    case True
    with goneD(2) [OF g] have "c \<noteq> m" by auto
    from gone_sadd [OF g this] True show ?thesis by (simp add: length_close_def gone_def)
  qed (use g in \<open>auto simp: length_close_def Let_def\<close>)
qed

lemma gone_wake: "wake_close t n w s = Inr (k, sp, s') \<Longrightarrow> gone m A s \<Longrightarrow> gone m A s'"
  unfolding wake_close_def wake_loop_result gone_def
  by (auto simp: Let_def split: if_splits) (auto simp: close_view_def log_idle_def)

lemma pop_job_close: "pop_job t c why j s = Inr s' \<Longrightarrow> close_view s' = close_view s"
  by (auto simp: pop_job_def Let_def dest!: close_view_same split: option.splits)

lemma pop_call_gone:
  assumes "pop_call t c want why s = Inr s'" and "gone m A s"
  shows "gone m A s'"
proof -
  from assms(1) obtain s2 where
    2: "rfold (pop_job t c why) (take (nat want) (q_lst s)) (s\<lparr>q_lst := drop (nat want) (q_lst s)\<rparr>) = Inr s2"
    and s': "close_view s' = close_view s2"
    by (auto simp: pop_call_def Let_def POP_close_def)
  have "close_view s2 = close_view s"
    by (rule rfold_invariant [OF 2]) (use pop_job_close in auto)
  with s' assms(2) show ?thesis by (simp add: gone_def)
qed

interpretation gone_pull: nudge_loop "gone m A" for m A
proof (unfold_locales, goal_cases)
  case (4 s t c)
  then show ?case by (rule gone_length)
next
  case (5 s t c want why s')
  then show ?case using pop_call_gone by blast
next
  case (8 s c t w)
  with goneD(2) [OF 8(1)] show ?case by (intro gone_sadd) auto
next
  case (9 s t c w)
  then show ?case by (rule gone_srem)
qed (simp_all add: gone_def)

lemma ack_close_gone:
  assumes "ack_close t c j s = Inr s'" and "gone m A s" and "c \<noteq> m"
  shows "gone m A s'"
proof -
  from assms(1) have "close_view s' = close_view (s\<lparr>q_acks := q_acks s @ [(t, c, j)]\<rparr>)"
    by (auto simp: ack_close_def Let_def dest!: close_view_same split: option.splits) (simp add: close_view_def)
  moreover have "gone m A (s\<lparr>q_acks := q_acks s @ [(t, c, j)]\<rparr>)"
    using assms(2,3) by (simp add: gone_def close_view_def)
  ultimately show ?thesis by (simp add: gone_def)
qed

lemma job_end_gone:
  assumes "on_job_end t c i j s = Inr s'" and "gone m A s"
  shows "gone m A s'"
proof (cases "c_alive (q_c s c)")
  case True
  from on_job_endD [OF assms(1) True] obtain rs s2 s4 where
    2: "(if c_closed (q_c s c) then Inr (s\<lparr>q_runs := rs, q_failed_acks := q_failed_acks (s\<lparr>q_runs := rs\<rparr>) @ [(t, c, j)]\<rparr>)
         else ack_close t c j (s\<lparr>q_runs := rs\<rparr>)) = Inr s2"
    and 4: "set_busy t c (-1) (upd_c c (\<lambda>st. st\<lparr>c_slots := (c_slots st)[i := None]\<rparr>) s2) = Inr s4"
    and s': "signal_close t c ''job end'' (snd (length_close t c s4)) = Inr s'" by blast
  have g: "gone m A (s\<lparr>q_runs := rs\<rparr>)" using assms(2) by (simp add: gone_def)
  have "gone m A s2"
  proof (cases "c_closed (q_c s c)")
    case True
    with 2 have "s2 = s\<lparr>q_runs := rs, q_failed_acks := q_failed_acks (s\<lparr>q_runs := rs\<rparr>) @ [(t, c, j)]\<rparr>" by simp
    with g show ?thesis by (simp add: gone_def)
  next
    case False
    with goneD(1) [OF assms(2)] have "c \<noteq> m" by auto
    with 2 False ack_close_gone [OF _ g] show ?thesis by simp
  qed
  then have "gone m A s4" using close_view_set_busy [OF 4] by (simp add: gone_def)
  from gone_pull.signal_keeps [OF s' gone_length [OF this]] show ?thesis .
qed (use assms in \<open>simp add: on_job_end_def\<close>)

lemma release_job_close: "release_job t c j s = Inr s' \<Longrightarrow> close_view s' = close_view s"
  by (auto simp: release_job_def Let_def dest!: close_view_same split: option.splits)

lemma on_release_close:
  assumes "on_release t c s = Inr s'"
  shows "close_view s' = close_view s"
proof -
  from assms obtain s2 where
    2: "rfold (release_job t c) (map snd (held_ids c (q_pending s)))
          (s\<lparr>q_lst := fold (#) (map snd (held_ids c (q_pending s))) (q_lst s)\<rparr>) = Inr s2"
    and s': "close_view s' = close_view s2"
    by (auto simp: on_release_def Let_def)
  have "close_view s2 = close_view s"
    by (rule rfold_invariant [OF 2]) (use release_job_close in auto)
  with s' show ?thesis by simp
qed

lemma on_close_srem:
  "on_close t c s = (let s2 = upd_c c (\<lambda>st. st\<lparr>c_closed := True, c_consumer := False\<rparr>) s;
       s3 = snd (srem t c ''leave()'' (s2\<lparr>q_mark := (q_mark s2)\<lparr>k_close := Some t, k_idle_at_close := Some (q_idle s2)\<rparr>\<rparr>))
     in at_ev (t + LEAVE + 2 / 100) (ReleaseC c)
          (say t (MClose c (map r_job (filter (\<lambda>r. r_c r = c \<and> r_end r = None) (q_runs s3))))
            (s3\<lparr>q_mark := (q_mark s3)\<lparr>k_left := Some (c \<in> q_idle s)\<rparr>\<rparr>)))"
  by (simp add: on_close_def Let_def srem_def upd_c_def log_idle_def say_def split: prod.split)

lemma on_close_gone: "gone m A s \<Longrightarrow> gone m A (on_close t c s)"
proof -
  assume g: "gone m A s"
  let ?s2 = "upd_c c (\<lambda>st. st\<lparr>c_closed := True, c_consumer := False\<rparr>) s"
  have "gone m A ?s2" using g by (auto simp: gone_def close_view_def upd_c_def)
  then have "gone m A (?s2\<lparr>q_mark := (q_mark ?s2)\<lparr>k_close := Some t, k_idle_at_close := Some (q_idle ?s2)\<rparr>\<rparr>)"
    by (simp add: gone_def)
  from gone_srem [OF this] show ?thesis unfolding on_close_srem Let_def by (simp add: gone_def)
qed

text \<open>\<open>Close\<close> itself puts the consumer there.\<close>

lemma on_close_makes_gone:
  assumes "SubscribeC m \<notin> snd ` set (ev s)"
  shows "gone m (filter (\<lambda>(t, c, j). c = m) (q_acks s)) (on_close t m s)"
  using assms unfolding on_close_srem Let_def
  by (auto simp: gone_def srem_def Let_def) (auto simp: close_view_def upd_c_def log_idle_def)

lemma handle_gone:
  assumes "gone m A s" and "ev s = (k, e) # h" and "close_handle t e (s\<lparr>ev := h\<rparr>) = Inr s'"
  shows "gone m A s'"
proof -
  let ?s = "s\<lparr>ev := h\<rparr>"
  have g: "gone m A ?s" using assms(1,2) by (auto simp: gone_def close_view_def)
  have same: "close_view x = close_view ?s \<Longrightarrow> gone m A x" for x using g by (simp add: gone_def)
  show ?thesis
  proof (cases e)
    case (EnqueueC j)
    with assms(3) show ?thesis by (auto intro!: same simp: on_enqueue_c_def)
  next
    case (PushC j tc)
    with assms(3) obtain s4 woken sp s3 p where 4: "wake_close t (length (q_lst s3)) (''Enqueue '' @ j) s3 = Inr (woken, sp, s4)"
      and s': "s' = s4\<lparr>q_push_wakes := p\<rparr>" and 3: "close_view s3 = close_view ?s"
      by (auto simp: on_push_def Let_def dest!: close_view_same)
    from gone_wake [OF 4 same [OF 3]] show ?thesis by (simp add: s' gone_def)
  next
    case (ReleaseC c)
    with assms(3) on_release_close [of t c ?s s'] show ?thesis by (auto intro!: same)
  next
    case (ReleaseWakeC c n)
    with assms(3) obtain woken sp s1 x where 1: "wake_close t n ''Close'' (?s\<lparr>q_mark := x\<rparr>) = Inr (woken, sp, s1)"
      and s': "close_view s' = close_view s1"
      by (auto simp: on_release_wake_def)
    from gone_wake [OF 1 same] s' show ?thesis by (simp add: gone_def)
  next
    case (ExitC c)
    with assms(3) show ?thesis by (auto intro!: same simp: on_exit_def Let_def)
  next
    case (WakeArriveC c)
    with assms(3) gone_pull.wake_arrive_keeps [OF _ g] show ?thesis by simp
  next
    case (NudgeC c)
    with assms(3) gone_pull.nudge_keeps [OF _ g] show ?thesis by simp
  next
    case (LoopC c w)
    with assms(3) gone_pull.loop_keeps [OF _ g] show ?thesis by simp
  next
    case (JobEndC c i j)
    with assms(3) job_end_gone [OF _ g] show ?thesis by simp
  next
    case (SubscribeC c)
    with goneD(4) [OF assms(1)] assms(2) have "c \<noteq> m" by force
    from g this have "gone m A (say t (MStarts c) (upd_c c (\<lambda>st. st\<lparr>c_alive := True, c_consumer := True, c_sub := True, c_free := True\<rparr>) ?s))"
      by (simp add: gone_def) (simp add: close_view_def upd_c_def)
    from gone_sadd [OF this \<open>c \<noteq> m\<close>, of t "''Subscribe''"] assms(3) SubscribeC show ?thesis
      by (auto simp: on_subscribe_def Let_def gone_def)
  next
    case (CloseC c)
    with assms(3) on_close_gone [OF g, of t c] show ?thesis by auto
  qed
qed

text \<open>C9: once a consumer has called \<open>Close\<close>, in every run from there, unless it subscribes anew, it is
  never in \<open>:idle\<close> again and no acknowledgement of its jobs gets through.\<close>

theorem closed_stays_out:
  assumes "run_close fuel (on_close t m s) = Some (Inr s')" and "SubscribeC m \<notin> snd ` set (ev s)"
  shows "m \<notin> q_idle s' \<and> c_closed (q_c s' m)
    \<and> filter (\<lambda>(t, c, j). c = m) (q_acks s') = filter (\<lambda>(t, c, j). c = m) (q_acks s)"
proof -
  let ?g = "gone m (filter (\<lambda>(t, c, j). c = m) (q_acks s))"
  have take: "?g (x\<lparr>ev := h\<rparr>)" if "?g x" "ev x = y # h" for x y h
    using that by (auto simp: gone_def close_view_def)
  have "?g s'"
    by (rule run_events_invariant [where I = ?g, OF assms(1) [unfolded run_close_def] on_close_makes_gone [OF assms(2)]])
       (blast intro: handle_gone take)+
  from goneD [OF this] show ?thesis by blast
qed

theorem closed_stays_out_witness:
  "\<exists>s'. run_close 12 (on_close (1 / 2) C2 (at_ev 1 (PushC ''J1'' 1) Sim)) = Some (Inr s')
     \<and> q_lst s' = [''J1''] \<and> C2 \<notin> q_idle s' \<and> c_closed (q_c s' C2)"
proof -
  let ?s = "at_ev 1 (PushC ''J1'' 1) Sim"
  have "case run_close 12 (on_close (1 / 2) C2 ?s) of Some (Inr s') \<Rightarrow> q_lst s' = [''J1''] | _ \<Rightarrow> False" by code_simp
  then obtain s' where s': "run_close 12 (on_close (1 / 2) C2 ?s) = Some (Inr s')" "q_lst s' = [''J1'']"
    by (auto split: option.splits sum.splits)
  have "SubscribeC C2 \<notin> snd ` set (ev ?s)" by (simp add: at_ev_def Sim_def)
  from closed_stays_out [OF s'(1) this] s' show ?thesis by (intro exI [of _ s'] conjI) simp_all
qed

section \<open>The wake\<close>

text \<open>C22: the wake's loop computes this closed form, whatever the count: it reaches at most one consumer.
  With no count or nobody in \<open>:idle\<close> nothing happens, two members are the failing assertion, and one
  member is taken out, and woken when it has a subscriber.\<close>

theorem wake_closed_form:
  "wake_close t n why s =
     (if n = 0 \<or> q_idle s = {} then Inr (0, [], say t (MWake why n [] 0) s)
      else if q_idle s = {C1, C2} then Inl AssertionError
      else let m = the_elem (q_idle s); s1 = log_idle t m False ''SPOP'' (s\<lparr>q_idle := {}\<rparr>)
           in if c_sub (q_c s m)
              then Inr (1, [m], say t (MWake why n [m] 1)
                     (at_ev (t + travel (WAKE_PATH m) V_close) (WakeArriveC m) (s1\<lparr>q_wakes := q_wakes s @ [(t, m)]\<rparr>)))
              else Inr (0, [m], say t (MWake why n [m] 0) s1))"
proof -
  consider (none) "n = 0 \<or> q_idle s = {}" | (one) m where "n > 0" "q_idle s = {m}" | (both) "n > 0" "q_idle s = {C1, C2}"
    using cons_sets [of "q_idle s"] by blast
  then show ?thesis
  proof cases
    case none
    then have "wake_close_loop t n 0 [] s = Inr (0, [], s)" by (auto simp: wake_loop_result)
    with none show ?thesis by (simp add: wake_close_def)
  next
    case one
    then have "q_idle s \<noteq> {C1, C2}" by auto
    with one show ?thesis
      by (cases "c_sub (q_c s m)") (simp_all only: wake_close_def wake_loop_result, simp_all add: Let_def)
  next
    case both
    then have "wake_close_loop t n 0 [] s = Inl AssertionError" by (simp add: wake_loop_result)
    with both show ?thesis by (simp add: wake_close_def)
  qed
qed

end
