(* ===== verification/Close_Release.thy ===== *)
theory Close_Release
  imports Close_Inv
begin

text \<open>
  The release script against the pops before it: what a consumer took from the head of the list, one
  pop call after the other, its \<open>Close\<close> puts back in reverse order, and pending is as it was.
\<close>

definition pend_view :: "close_sim \<Rightarrow> (string, pend) dict \<times> string list \<times> (cons \<Rightarrow> nat)" where
  "pend_view s = (q_pending s, q_lst s, \<lambda>m. c_seq (q_c s m))"

lemma pend_view_fields [simp]:
  "pend_view (s\<lparr>q_mark := x1\<rparr>) = pend_view s" "pend_view (s\<lparr>q_items := x2\<rparr>) = pend_view s"
  "pend_view (s\<lparr>q_where := x3\<rparr>) = pend_view s" "pend_view (s\<lparr>q_x := x4\<rparr>) = pend_view s"
  "pend_view (s\<lparr>q_entries := x5\<rparr>) = pend_view s" "pend_view (s\<lparr>q_runs := x6\<rparr>) = pend_view s"
  "pend_view (s\<lparr>q_pops := x7\<rparr>) = pend_view s" "pend_view (s\<lparr>q_busy_log := y1\<rparr>) = pend_view s"
  by (simp_all add: pend_view_def)

lemma pend_view_plumbing [simp]:
  "pend_view (say t x s) = pend_view s" "pend_view (at_ev t e s) = pend_view s"
  "(\<And>st. c_seq (f st) = c_seq st) \<Longrightarrow> pend_view (upd_c c f s) = pend_view s"
  by (auto simp: pend_view_def say_def at_ev_def push_ev_def upd_c_def fun_eq_iff)

lemma pend_view_same:
  "set_busy t c d s = Inr s' \<Longrightarrow> pend_view s' = pend_view s"
  "add_items j p s = Inr s' \<Longrightarrow> pend_view s' = pend_view s"
  "add_where j t w s = Inr s' \<Longrightarrow> pend_view s' = pend_view s"
  by (auto simp: set_busy_def add_items_def add_where_def Let_def split: option.splits)

lemma pop_job_pending:
  assumes "pop_job t m why j s = Inr s'"
  shows "\<exists>row. q_pending s' = dset j \<lparr>p_owner = m, p_row = row, p_t = t, p_seq = Suc (c_seq (q_c s m))\<rparr> (q_pending s)
    \<and> q_lst s' = q_lst s \<and> c_seq (q_c s' m) = Suc (c_seq (q_c s m))"
proof -
  have "\<exists>row. pend_view s' = (dset j \<lparr>p_owner = m, p_row = row, p_t = t, p_seq = Suc (c_seq (q_c s m))\<rparr> (q_pending s),
      q_lst s, (\<lambda>c. c_seq (q_c s c))(m := Suc (c_seq (q_c s m))))"
    using assms by (auto simp: pop_job_def Let_def dest!: pend_view_same split: option.splits)
      (auto simp: pend_view_def upd_c_def fun_eq_iff)
  then show ?thesis by (auto simp: pend_view_def fun_eq_iff dest: spec [of _ m])
qed

lemma pop_call_pending:
  assumes "pop_call t m 1 why s = Inr s'"
  shows "\<exists>j row. q_lst s = j # q_lst s' \<and> c_seq (q_c s' m) = Suc (c_seq (q_c s m))
    \<and> q_pending s' = dset j \<lparr>p_owner = m, p_row = row, p_t = t, p_seq = Suc (c_seq (q_c s m))\<rparr> (q_pending s)"
proof -
  from assms have "take 1 (q_lst s) \<noteq> []" by (simp add: pop_call_def Let_def)
  then obtain j l where l: "q_lst s = j # l" by (cases "q_lst s") auto
  with assms obtain s2 where 2: "pop_job t m why j (s\<lparr>q_lst := l\<rparr>) = Inr s2" and "pend_view s' = pend_view s2"
    by (auto simp: pop_call_def Let_def POP_close_def)
  then have "q_pending s' = q_pending s2" "q_lst s' = q_lst s2" "c_seq (q_c s' m) = c_seq (q_c s2 m)"
    by (auto simp: pend_view_def fun_eq_iff)
  with pop_job_pending [OF 2] l show ?thesis by auto
qed

text \<open>Pops one after the other: new entries at the end of pending, numbered in pop order.\<close>

lemma pops_pending:
  assumes "rfold (\<lambda>t. pop_call t m 1 why) ts s = Inr s'" and "distinct (q_lst s)" and "set (q_lst s) \<inter> keyset (q_pending s) = {}"
  shows "\<exists>new. q_pending s' = q_pending s @ new \<and> q_lst s = map fst new @ q_lst s' \<and> length new = length ts
    \<and> (\<forall>x \<in> set new. p_owner (snd x) = m)
    \<and> map (\<lambda>x. p_seq (snd x)) new = [Suc (c_seq (q_c s m))..<Suc (c_seq (q_c s m) + length ts)]"
  using assms
proof (induction ts arbitrary: s)
  case Nil
  then show ?case by (intro exI [of _ "[]"]) simp
next
  case (Cons t ts)
  from Cons.prems(1) obtain s1 where 1: "pop_call t m 1 why s = Inr s1" and 2: "rfold (\<lambda>t. pop_call t m 1 why) ts s1 = Inr s'"
    by auto
  from pop_call_pending [OF 1] obtain j row where l: "q_lst s = j # q_lst s1"
    and q: "c_seq (q_c s1 m) = Suc (c_seq (q_c s m))"
    and p: "q_pending s1 = dset j \<lparr>p_owner = m, p_row = row, p_t = t, p_seq = Suc (c_seq (q_c s m))\<rparr> (q_pending s)" by blast
  have "j \<notin> set (dkeys (q_pending s))" using Cons.prems(3) l by (auto simp: keyset_def)
  then have p: "q_pending s1 = q_pending s @ [(j, \<lparr>p_owner = m, p_row = row, p_t = t, p_seq = Suc (c_seq (q_c s m))\<rparr>)]"
    by (simp add: p dkeys_dset_new)
  have d: "distinct (q_lst s1)" "set (q_lst s1) \<inter> keyset (q_pending s1) = {}"
    using Cons.prems(2,3) l p by auto
  from Cons.IH [OF 2 d] obtain new where "q_pending s' = q_pending s1 @ new" "q_lst s1 = map fst new @ q_lst s'"
    "length new = length ts" "\<forall>x \<in> set new. p_owner (snd x) = m"
    "map (\<lambda>x. p_seq (snd x)) new = [Suc (c_seq (q_c s1 m))..<Suc (c_seq (q_c s1 m) + length ts)]" by blast
  then show ?case
    using p l q
    by (intro exI [of _ "(j, \<lparr>p_owner = m, p_row = row, p_t = t, p_seq = Suc (c_seq (q_c s m))\<rparr>) # new"])
       (simp add: upt_conv_Cons del: upt_Suc)
qed

text \<open>What the release reads back.\<close>

lemma held_ids_new:
  assumes "\<forall>x \<in> set P. p_owner (snd x) \<noteq> m" and "\<forall>x \<in> set new. p_owner (snd x) = m"
    and "map (\<lambda>x. p_seq (snd x)) new = [a..<b]"
  shows "map snd (held_ids m (P @ new)) = map fst new"
proof -
  have "filter (\<lambda>(j, p). p_owner p = m) P = []" "filter (\<lambda>(j, p). p_owner p = m) new = new"
    using assms(1,2) by (auto simp: filter_empty_conv filter_id_conv)
  then have h: "held_ids m (P @ new) = sort (map (\<lambda>(j, p). (p_seq p, j)) new)" by (simp add: held_ids_def)
  have "sorted_wrt (<) (map (\<lambda>x. p_seq (snd x)) new)" using assms(3) by simp
  then have "sorted (map (\<lambda>(j, p). (p_seq p, j)) new)"
    by (induction new) (auto simp: less_eq_prod_def)
  then have "held_ids m (P @ new) = map (\<lambda>(j, p). (p_seq p, j)) new" unfolding h by (rule sorted_sort_id)
  then show ?thesis by (simp add: comp_def case_prod_unfold)
qed

lemma release_job_pending: "release_job t m j s = Inr s' \<Longrightarrow> q_pending s' = ddel j (q_pending s) \<and> q_lst s' = q_lst s"
proof -
  assume "release_job t m j s = Inr s'"
  then have "pend_view s' = (ddel j (q_pending s), q_lst s, \<lambda>m. c_seq (q_c s m))"
    by (auto simp: release_job_def Let_def dest!: pend_view_same split: option.splits) (simp add: pend_view_def)
  then show ?thesis by (simp add: pend_view_def)
qed

lemma release_jobs_pending:
  "rfold (release_job t m) js s = Inr s' \<Longrightarrow> q_pending s' = without (set js) (q_pending s) \<and> q_lst s' = q_lst s"
proof (induction js arbitrary: s)
  case (Cons j js)
  then obtain s1 where 1: "release_job t m j s = Inr s1" and 2: "rfold (release_job t m) js s1 = Inr s'" by auto
  have "without (set js) (ddel j (q_pending s)) = without (set (j # js)) (q_pending s)"
    using fold_ddel [of "j # js"] fold_ddel [of js] by (metis fold_simps(2))
  with Cons.IH [OF 2] release_job_pending [OF 1] show ?case by simp
qed simp

lemma on_release_result:
  assumes "on_release t m s = Inr s'" and "js = map snd (held_ids m (q_pending s))"
  shows "q_lst s' = rev js @ q_lst s \<and> q_pending s' = without (set js) (q_pending s)"
proof -
  from assms(1) obtain s2 where 2: "rfold (release_job t m) js (s\<lparr>q_lst := rev js @ q_lst s\<rparr>) = Inr s2"
    and "pend_view s' = pend_view s2"
    by (auto simp: on_release_def Let_def fold_Cons assms(2))
  with release_jobs_pending [OF 2] show ?thesis by (simp add: pend_view_def)
qed

text \<open>C6: what a consumer that held nothing takes with any number of pop calls, its release puts back: the
  jobs are at the front of the list again, in the reverse of the order it took them, the rest of the
  list follows, and pending is as it was before the pops.\<close>

theorem release_undoes_pops:
  assumes "rfold (\<lambda>t. pop_call t m 1 why) ts s = Inr s1" and "on_release t' m s1 = Inr s2"
    and "distinct (q_lst s)" and "set (q_lst s) \<inter> keyset (q_pending s) = {}"
    and "\<forall>x \<in> set (q_pending s). p_owner (snd x) \<noteq> m"
  shows "q_lst s2 = rev (take (length ts) (q_lst s)) @ drop (length ts) (q_lst s) \<and> q_pending s2 = q_pending s"
proof -
  from pops_pending [OF assms(1,3,4)] obtain new where p: "q_pending s1 = q_pending s @ new"
    and l: "q_lst s = map fst new @ q_lst s1" "length new = length ts"
    and n: "\<forall>x \<in> set new. p_owner (snd x) = m"
      "map (\<lambda>x. p_seq (snd x)) new = [Suc (c_seq (q_c s m))..<Suc (c_seq (q_c s m) + length ts)]" by blast
  have js: "map snd (held_ids m (q_pending s1)) = map fst new" unfolding p by (rule held_ids_new [OF assms(5) n])
  have "without (set (map fst new)) (q_pending s @ new) = q_pending s"
    using assms(4) l(1) by (auto simp: without_def keyset_def filter_id_conv filter_empty_conv)
  with on_release_result [OF assms(2) js [symmetric]] p l show ?thesis by simp
qed

text \<open>The witness: C2 takes both listed jobs and closes.\<close>

definition two_listed :: close_sim where
  "two_listed = Sim\<lparr>q_lst := [''J1'', ''J2''], q_x := [(''J1'', 420), (''J2'', 384)]\<rparr>"

theorem release_undoes_pops_witness:
  "\<exists>s1 s2. rfold (\<lambda>t. pop_call t C2 1 ''wake'') [1, 2] two_listed = Inr s1 \<and> on_release 3 C2 s1 = Inr s2
     \<and> q_lst s2 = [''J2'', ''J1''] \<and> q_pending s2 = []"
proof -
  have "case rfold (\<lambda>t. pop_call t C2 1 ''wake'') [1, 2] two_listed of Inl e \<Rightarrow> False
      | Inr s1 \<Rightarrow> (case on_release 3 C2 s1 of Inl e \<Rightarrow> False | Inr s2 \<Rightarrow> True)" by code_simp
  then obtain s1 s2 where s: "rfold (\<lambda>t. pop_call t C2 1 ''wake'') [1, 2] two_listed = Inr s1" "on_release 3 C2 s1 = Inr s2"
    by (auto simp del: rfold.simps split: sum.splits)
  have "q_lst two_listed = [''J1'', ''J2'']" "q_pending two_listed = []" by (simp_all add: two_listed_def Sim_def)
  with release_undoes_pops [OF s] have "q_lst s2 = [''J2'', ''J1''] \<and> q_pending s2 = []" by simp
  with s show ?thesis by blast
qed

end
