(* ===== verification/Close_Facts.thy ===== *)
theory Close_Facts
  imports Close_Sim
begin

text \<open>
  The checks of \<open>gen_close.build\<close> on the finished simulation (section 3 of the storyboard), in their
  order, with the missing marks and empty logs as error values; the result is the loop length.
\<close>

definition VT_close :: rat where "VT_close = 16"
definition HOLD_close :: rat where "HOLD_close = 1"
definition XFADE_close :: rat where "XFADE_close = 1 / 2"

fun need :: "'a option \<Rightarrow> 'a res" where
  "need None = Inl KeyError"
| "need (Some x) = Inr x"

definition pops_by :: "cons \<Rightarrow> close_sim \<Rightarrow> (rat \<times> string \<times> string) list" where
  "pops_by c s = map (\<lambda>(t, m, j, w). (t, j, w)) (filter (\<lambda>(t, m, j, w). m = c) (q_pops s))"

text \<open>The end of the last pending entry, and the loop length in whole seconds.\<close>

definition end_close :: "close_sim \<Rightarrow> rat res" where
  "end_close s = (if q_acks s = [] then Inl ValueError else Inr (Max (set (map fst (q_acks s))) + 3 / 10))"

definition loop_close_length :: "rat \<Rightarrow> rat" where
  "loop_close_length en = of_int \<lceil>en + HOLD_close + XFADE_close + 1 / 2\<rceil>"

text \<open>The wakes of the burst and what C2 pops on its one wake.\<close>

definition burst_facts :: "close_sim \<Rightarrow> unit res" where
  "burst_facts s =
     rbind (rcheck (q_push_wakes s = [(''J1'', 1, 1), (''J2'', 2, 0), (''J3'', 3, 0)])) (\<lambda>_.
     let c2_pops = pops_by C2 s
     in rbind (rcheck (map (\<lambda>(t, j, w). j) c2_pops = [''J1'', ''J2'', ''J3'']
               \<and> set (map (\<lambda>(t, j, w). w) c2_pops) = {''wake''})) (\<lambda>_.
        rbind (rcheck (int (card (set (map fst c2_pops))) = \<lceil>(of_int CONC_close :: rat) / of_int POP_close\<rceil>)) (\<lambda>_.
        rbind (rmap (\<lambda>(j, _). rbind (need (dget (q_where s) j)) (\<lambda>l. rbind (rnth l 0) (\<lambda>x. Inr (fst x)))) ENQ_close) (\<lambda>landed.
        rbind (rnth (q_wakes s) 0) (\<lambda>(tw, c).
        rcheck (c = C2 \<and> tw + travel (WAKE_PATH C2) V_close > Max (set landed)))))))"

text \<open>C2 around its \<open>Close\<close>: out of \<open>:idle\<close> before, and never in it again.\<close>

definition leave_facts :: "rat \<Rightarrow> rat \<Rightarrow> close_sim \<Rightarrow> unit res" where
  "leave_facts close rel_t s =
     rbind (need (k_stays (q_mark s) C2)) (\<lambda>(t_stay, busy_stay).
     rbind (rcheck (busy_stay = CONC_close \<and> t_stay < close)) (\<lambda>_.
     rbind (need (k_idle_at_close (q_mark s))) (\<lambda>i.
     rbind (rcheck (C2 \<notin> i)) (\<lambda>_.
     rbind (need (k_left (q_mark s))) (\<lambda>lft.
     rbind (rcheck (\<not> lft \<and> close < rel_t)) (\<lambda>_.
     rbind (rcheck (filter (\<lambda>(t, b, w). b) (q_idle_log s C2) = [])) (\<lambda>_.
     rcheck (list_all (\<lambda>t. t < close) (c_ticks (q_c s C2))))))))))"

definition release_facts :: "string list \<Rightarrow> string list \<Rightarrow> close_sim \<Rightarrow> bool" where
  "release_facts rel_ids rel_list s \<longleftrightarrow>
     rel_ids = [''J1'', ''J2'', ''J3''] \<and> rel_list = [''J3'', ''J2'', ''J1''] \<and> \<not> c_beat (q_c s C2)
     \<and> map e_how (filter (\<lambda>e. e_owner e = C2) (q_entries s)) = replicate 3 ''release''"

text \<open>The wake after the release, and what C1 pops on it.\<close>

definition takeover_facts :: "rat \<Rightarrow> rat \<Rightarrow> nat \<Rightarrow> cons list \<Rightarrow> close_sim \<Rightarrow> unit res" where
  "takeover_facts close rel_t woken spopped s =
     rbind (need (k_idle_at_wake (q_mark s))) (\<lambda>i.
     rbind (rcheck (i = {C1} \<and> woken = 1 \<and> spopped = [C1])) (\<lambda>_.
     let c1_pops = pops_by C1 s
     in rbind (rcheck (map (\<lambda>(t, j, w). j) c1_pops = [''J3'', ''J2'', ''J1'']
               \<and> set (map (\<lambda>(t, j, w). w) c1_pops) = {''wake''})) (\<lambda>_.
        let lst_pop = fst (last c1_pops)
        in rbind (rcheck (lst_pop - close < 1)) (\<lambda>_.
           rcheck (filter (\<lambda>t. rel_t \<le> t \<and> t \<le> lst_pop) (c_ticks (q_c s C1)) = [])))))"

definition ack_facts :: "close_sim \<Rightarrow> bool" where
  "ack_facts s \<longleftrightarrow>
     sort (map (\<lambda>(t, m, j). j) (q_acks s)) = [''J1'', ''J2'', ''J3''] \<and> set (map (\<lambda>(t, m, j). m) (q_acks s)) = {C1}
     \<and> q_failed_acks s = []
     \<and> (let c2_runs = filter (\<lambda>r. r_c r = C2) (q_runs s)
        in length c2_runs = 3 \<and> list_all (\<lambda>r. case r_frac r of None \<Rightarrow> False | Some f \<Rightarrow> f < 1) c2_runs)
     \<and> list_all (\<lambda>e. e_end e - e_t e < VT_close * (3 / 10)) (q_entries s)"

definition place_facts :: "close_sim \<Rightarrow> bool" where
  "place_facts s \<longleftrightarrow>
     list_all (\<lambda>(j, l). map snd l = [''list'', ''pending:C2'', ''list'', ''pending:C1'', ''done'']
       \<and> map fst l = sort (map fst l)) (q_where s)"

definition end_facts_close :: "rat \<Rightarrow> close_sim \<Rightarrow> bool" where
  "end_facts_close en s \<longleftrightarrow>
     q_lst s = [] \<and> q_pending s = [] \<and> q_idle s = {C1} \<and> c_busy (q_c s C1) = 0 \<and> \<not> c_alive (q_c s C2)
     \<and> list_all (\<lambda>m. list_all (\<lambda>(t, b, w). t \<le> en) (q_idle_log s m)) [C1, C2]
     \<and> en + 1 \<le> en + HOLD_close \<and> en + HOLD_close + XFADE_close + 1 / 2 \<le> loop_close_length en"

definition close_facts :: "close_sim \<Rightarrow> rat res" where
  "close_facts s =
     rbind (end_close s) (\<lambda>en.
     rbind (need (k_close (q_mark s))) (\<lambda>close.
     rbind (need (k_release (q_mark s))) (\<lambda>(rel_t, rel_ids, rel_list).
     rbind (need (k_close_wake (q_mark s))) (\<lambda>(wake_t, woken, spopped).
     rbind (burst_facts s) (\<lambda>_.
     rbind (leave_facts close rel_t s) (\<lambda>_.
     rbind (rcheck (release_facts rel_ids rel_list s)) (\<lambda>_.
     rbind (takeover_facts close rel_t woken spopped s) (\<lambda>_.
     rbind (rcheck (ack_facts s)) (\<lambda>_.
     rbind (rcheck (place_facts s)) (\<lambda>_.
     rbind (rcheck (end_facts_close en s)) (\<lambda>_.
     Inr (loop_close_length en))))))))))))"

end
