(* ===== verification/Close_Run.thy ===== *)
theory Close_Run
  imports Close_Facts
begin

text \<open>
  The drawn close story, evaluated: the run ends within 60 events and every check of \<open>build\<close> holds.
\<close>

lemma close_run_facts:
  "\<exists>s. run_close 60 close_init = Some (Inr s) \<and> close_facts s = Inr 11"
proof -
  have "case run_close 60 close_init of Some (Inr s) \<Rightarrow> close_facts s = Inr 11 | _ \<Rightarrow> False" by code_simp
  then show ?thesis by (auto split: option.splits sum.splits)
qed

text \<open>C21: with fuel for 60 events or more the drawn close scenario runs to the end without a failing
  assertion, and every check of \<open>build\<close> on it passes: C2's jobs come back in reverse order and C1,
  woken by the release, acknowledges each once; the loop is 11 s.\<close>

theorem close_story_holds:
  assumes "60 \<le> fuel"
  shows "\<exists>s. run_close fuel close_init = Some (Inr s) \<and> close_facts s = Inr 11"
proof -
  from close_run_facts obtain s where s: "run_close 60 close_init = Some (Inr s)" "close_facts s = Inr 11" by blast
  have "run_close fuel close_init = Some (Inr s)"
    unfolding run_close_def by (rule run_events_mono [OF s(1) [unfolded run_close_def] assms])
  with s(2) show ?thesis by blast
qed

theorem close_story_holds_witness:
  "\<exists>s. run_close 100 close_init = Some (Inr s) \<and> close_facts s = Inr 11"
  using close_story_holds [of 100] by simp

end
