(* ===== verification/Svg.thy ===== *)
theory Svg
  imports Timeline
begin

text \<open>
  From the keyframe store to the SVG text: \<open>kfu.legend\<close>, \<open>fill\<close> and \<open>render\<close>. A text is the list of its
  UTF-8 bytes. Files are a parameter, a map from paths to contents; \<open>render\<close> gives the text it would
  write, and what it does with the motion file is \<open>render_files\<close> in \<open>Motion\<close>.
\<close>

section \<open>Python's string operations\<close>

text \<open>\<open>s.replace(old, new)\<close>: from the left, no overlaps; an empty \<open>old\<close> matches everywhere.\<close>

function replace_all :: "string \<Rightarrow> string \<Rightarrow> string \<Rightarrow> string" where
  "replace_all old new s =
     (if old = [] then concat (map (\<lambda>c. new @ [c]) s) @ new
      else if prefix old s then new @ replace_all old new (drop (length old) s)
      else (case s of [] \<Rightarrow> [] | c # cs \<Rightarrow> c # replace_all old new cs))"
  by pat_completeness auto
termination
proof (relation "measure (\<lambda>(old, new, s). length s)", goal_cases)
  case (2 old new s)
  then have "s \<noteq> []" "old \<noteq> []" by auto
  then show ?case by simp
qed auto

declare replace_all.simps [simp del]

text \<open>\<open>s.split(sep)\<close>, as the pieces between the separators taken from the left.\<close>

function split_on :: "string \<Rightarrow> string \<Rightarrow> string list" where
  "split_on sep s =
     (if sep = [] \<or> s = [] then [s]
      else if prefix sep s then [] # split_on sep (drop (length sep) s)
      else (case split_on sep (tl s) of [] \<Rightarrow> [s] | p # ps \<Rightarrow> (hd s # p) # ps))"
  by pat_completeness auto
termination
proof (relation "measure (\<lambda>(sep, s). length s)", goal_cases)
  case (2 sep s)
  then show ?case by (cases s; cases sep) auto
next
  case (3 sep s)
  then show ?case by (cases s) auto
qed auto

declare split_on.simps [simp del]

definition py_space :: "char \<Rightarrow> bool" where
  "py_space c \<longleftrightarrow> c \<in> {CHR '' '', CHR 0x09, CHR 0x0A, CHR 0x0B, CHR 0x0C, CHR 0x0D, CHR 0x1C, CHR 0x1D, CHR 0x1E, CHR 0x1F}"

definition lstrip_ws :: "string \<Rightarrow> string" where
  "lstrip_ws s = dropWhile py_space s"

definition strip_ws :: "string \<Rightarrow> string" where
  "strip_ws s = rev (dropWhile py_space (rev (lstrip_ws s)))"

definition nl :: string where "nl = [CHR 0x0A]"

section \<open>Legend\<close>

text \<open>The templates of \<open>SWATCH\<close>, filled with the attribute and the three heights.\<close>

definition swatch :: "string \<Rightarrow> string \<Rightarrow> int \<Rightarrow> int \<Rightarrow> int \<Rightarrow> string res" where
  "swatch kind a y y6 y3 =
     (if kind = ''box'' then Inr (''<rect '' @ a @ '' x=\"0\" y=\"'' @ show_int y6 @ ''\" width=\"12\" height=\"12\" rx=\"3\"/>'')
      else if kind = ''dot'' then Inr (''<circle '' @ a @ '' cx=\"6\" cy=\"'' @ show_int y @ ''\" r=\"6\"/>'')
      else if kind = ''bar'' then Inr (''<rect '' @ a @ '' x=\"0\" y=\"'' @ show_int y3 @ ''\" width=\"12\" height=\"6\" rx=\"2\"/>'')
      else if kind = ''pip'' then Inr (''<circle '' @ a @ '' cx=\"6\" cy=\"'' @ show_int y @ ''\" r=\"5\"/>'')
      else Inl KeyError)"

fun legend_rows :: "int \<Rightarrow> int \<Rightarrow> (string \<times> string \<times> string) list \<Rightarrow> string list res" where
  "legend_rows dy i [] = Inr []"
| "legend_rows dy i ((kind, c, label) # items) =
     (let a = (if CHR ''='' \<in> set c then c else ''style=\"fill: '' @ c @ ''\"'')
      in rbind (swatch kind a (i * dy) (i * dy - 6) (i * dy - 3)) (\<lambda>sw.
         rbind (legend_rows dy (i + 1) items) (\<lambda>rows.
         Inr ((''    '' @ sw @ ''<text class=\"lg\" x=\"20\" y=\"'' @ show_int (i * dy) @ ''\">'' @ label @ ''</text>'') # rows))))"

definition legend :: "(string \<times> string \<times> string) list \<Rightarrow> int \<Rightarrow> int \<Rightarrow> int \<Rightarrow> string res" where
  "legend items x y dy =
     rbind (legend_rows dy 0 items) (\<lambda>rows.
     Inr (join nl ([''  <g transform=\"translate('' @ show_int x @ '' '' @ show_int y @ '')\">''] @ rows @ [''  </g>''])))"

section \<open>Fill and render\<close>

definition fill :: "string \<Rightarrow> rat \<Rightarrow> string option \<Rightarrow> kfu \<Rightarrow> string" where
  "fill s still lg K =
     (let l = (case lg of None \<Rightarrow> LEGEND K | Some x \<Rightarrow> x);
          s1 = replace_all ''<!--LEGEND-->'' (strip_ws l)
                 (replace_all ''{STILL}'' (fmt_g still) (replace_all ''{D}'' (fmt_g (loop_D K)) s))
      in if elements K \<noteq> [] then replace_all ''<!--ELEMENTS-->'' (join nl (elements K)) s1 else s1)"

definition word_char :: "char \<Rightarrow> bool" where
  "word_char c \<longleftrightarrow> c = CHR ''_'' \<or> (CHR ''0'' \<le> c \<and> c \<le> CHR ''9'') \<or> (CHR ''A'' \<le> c \<and> c \<le> CHR ''Z'') \<or> (CHR ''a'' \<le> c \<and> c \<le> CHR ''z'')"

text \<open>
  The matches of the pattern for \<open>id="..."\<close> attributes, from the left: a word boundary, \<open>id="\<close>, one or more
  characters that are no quote, a quote. \<open>w\<close> says whether the character before is a word character.
\<close>

function find_ids :: "bool \<Rightarrow> string \<Rightarrow> string list" where
  "find_ids w [] = []"
| "find_ids w (c # cs) =
     (let r = drop 4 (c # cs); v = takeWhile (\<lambda>x. x \<noteq> CHR 0x22) r; rest = dropWhile (\<lambda>x. x \<noteq> CHR 0x22) r
      in if \<not> w \<and> prefix ''id=\"'' (c # cs) \<and> v \<noteq> [] \<and> rest \<noteq> []
         then v # find_ids False (tl rest)
         else find_ids (word_char c) cs)"
  by pat_completeness auto
termination
proof (relation "measure (\<lambda>(w, s). length s)", goal_cases)
  case (2 w c cs r v rest)
  have "length rest \<le> length r" using 2(3) by (simp add: length_dropWhile_le)
  also have "\<dots> \<le> length cs" using 2(1) by simp
  finally show ?case by simp
qed auto

declare find_ids.simps [simp del]

definition missing_ids :: "string \<Rightarrow> kfu \<Rightarrow> string list" where
  "missing_ids text K = filter (\<lambda>n. n \<notin> set (find_ids False text)) (map fst (rules K))"

definition read_tpl :: "(string \<Rightarrow> string option) \<Rightarrow> string \<Rightarrow> string res" where
  "read_tpl files tpl =
     (if prefix ''<svg'' (lstrip_ws tpl) then Inr tpl
      else (case files tpl of None \<Rightarrow> Inl FileNotFoundError | Some s \<Rightarrow> Inr s))"

definition rule_names :: "kfu \<Rightarrow> string" where
  "rule_names K = join nl (map (\<lambda>(n, _). ''    #'' @ n @ '' { animation-name: '' @ n @ ''; }'') (rules K))"

definition render :: "(string \<Rightarrow> string option) \<Rightarrow> string \<Rightarrow> rat \<Rightarrow> string option \<Rightarrow> kfu \<Rightarrow> string res" where
  "render files tpl still lg K =
     rbind (read_tpl files tpl) (\<lambda>src.
     let text = fill src still lg K
     in rbind (rcheck (missing_ids text K = [])) (\<lambda>_.
        rbind (rmap (\<lambda>(n, pts). css (loop_D K) n pts) (rules K)) (\<lambda>frames.
        Inr (replace_all ''/*KEYFRAMES*/'' (strip_ws (rule_names K @ nl @ join nl frames)) text))))"

end
