(* ===== verification/Ack_Story.thy ===== *)
theory Ack_Story
  imports Svg Walks
begin

text \<open>
  \<open>gen_ack.build\<close>: two jobs, one acknowledged, one not and back at the front of the list after its
  deadline, at the next sweep. The local variables of \<open>build\<close> are the record \<open>ack_st\<close>, the closures
  \<open>place\<close> and \<open>pop\<close> are operations on it; an iterator is the list of what is left of it. The
  text of the written file is the result of \<open>render_ack\<close>.
\<close>

section \<open>Constants\<close>

definition VT_ack :: rat where "VT_ack = 4"
definition WORK_ack :: rat where "WORK_ack = 2"
definition SWEEP_PHASE :: rat where "SWEEP_PHASE = 3 / 10"
definition ENQ_ack :: "(string, rat) dict" where "ENQ_ack = [(''A'', 4 / 10), (''B'', 9 / 10)]"
definition DOT_V_ack :: rat where "DOT_V_ack = 420"
definition HEAD_ack :: "rat \<times> rat" where "HEAD_ack = (420, 160)"
definition SLOT_ack :: "(nat, rat) dict" where "SLOT_ack = [(0, 420), (1, 384), (2, 348)]"
definition ROW_ack :: "(nat, rat \<times> rat) dict" where "ROW_ack = [(0, (212, 273)), (1, (212, 321))]"
definition PROD_ack :: "rat \<times> rat" where "PROD_ack = (90, 160)"
definition POP_EDGE :: "(rat \<times> rat) list" where "POP_EDGE = [(470, 175), (740, 175)]"
definition ACK_EDGE :: "(rat \<times> rat) list" where "ACK_EDGE = [(780, 210), (780, 240), (450, 240), (450, 260)]"

definition walk_ack :: "string \<Rightarrow> rat \<Rightarrow> (rat \<times> rat) list \<Rightarrow> kfu \<Rightarrow> (rat \<times> kfu) res" where
  "walk_ack name t pts K = walk name t pts DOT_V_ack K"

section \<open>State\<close>

record ack_st =
  ak_kfu :: kfu
  ak_item :: "(string, point list) dict"
  ak_where :: "(string, (rat \<times> string) list) dict"
  ak_lst :: "string list"
  ak_pops :: "(rat \<times> string) list"
  ak_acks :: "(rat \<times> string) list"
  ak_busy :: "span list"
  ak_deadlines :: "(string, rat) dict"
  ak_bars :: "(nat, bar_span list) dict"
  ak_rows_free :: "nat list"
  ak_dots :: "string list"
  ak_ack_dots :: "string list"
  ak_rows :: "nat list"

definition ack_start :: "kfu \<Rightarrow> ack_st" where
  "ack_start K =
     \<lparr>ak_kfu = K\<lparr>rules := [], elements := []\<rparr>, ak_item = map (\<lambda>(k, _). (k, [])) ENQ_ack,
      ak_where = map (\<lambda>(k, _). (k, [])) ENQ_ack, ak_lst = [], ak_pops = [], ak_acks = [], ak_busy = [],
      ak_deadlines = [], ak_bars = [(0, []), (1, [])], ak_rows_free = [0, 1], ak_dots = [''dot0'', ''dot1'', ''dot2''],
      ak_ack_dots = [''ackd0'', ''ackd2''], ak_rows = [0, 1, 0]\<rparr>"

text \<open>A lookup that raises, \<open>next\<close> of an iterator, \<open>list.remove\<close>, \<open>d[k] += xs\<close>.\<close>

definition dlook :: "('k, 'v) dict \<Rightarrow> 'k \<Rightarrow> 'v res" where
  "dlook d k = (case dget d k of None \<Rightarrow> Inl KeyError | Some v \<Rightarrow> Inr v)"

fun rnext :: "'a list \<Rightarrow> ('a \<times> 'a list) res" where
  "rnext [] = Inl StopIteration"
| "rnext (x # xs) = Inr (x, xs)"

definition rremove :: "'a \<Rightarrow> 'a list \<Rightarrow> 'a list res" where
  "rremove x xs = (if x \<in> set xs then Inr (remove1 x xs) else Inl ValueError)"

definition dextend :: "'k \<Rightarrow> 'v list \<Rightarrow> ('k, 'v list) dict \<Rightarrow> ('k, 'v list) dict res" where
  "dextend k xs d = rbind (dlook d k) (\<lambda>l. Inr (dset k (l @ xs) d))"

definition item_add :: "string \<Rightarrow> point list \<Rightarrow> ack_st \<Rightarrow> ack_st res" where
  "item_add k pts s = rbind (dextend k pts (ak_item s)) (\<lambda>d. Inr (s\<lparr>ak_item := d\<rparr>))"

definition place_ack :: "string \<Rightarrow> rat \<Rightarrow> string \<Rightarrow> ack_st \<Rightarrow> ack_st res" where
  "place_ack k t p s = rbind (dextend k [(t, p)] (ak_where s)) (\<lambda>d. Inr (s\<lparr>ak_where := d\<rparr>))"

section \<open>Enqueue and pop\<close>

definition ack_enqueue :: "string \<times> rat \<Rightarrow> ack_st \<Rightarrow> ack_st res" where
  "ack_enqueue = (\<lambda>(k, t) s.
     let s1 = s\<lparr>ak_lst := ak_lst s @ [k]\<rparr>
     in rbind (dlook SLOT_ack (length (ak_lst s1) - 1)) (\<lambda>x.
        rbind (item_add k [at_pt t (fst PROD_ack) (snd PROD_ack) (VInt 0) None,
                 at_pt (t + 1 / 10) (fst PROD_ack + 12) (snd PROD_ack) (VInt 1) None,
                 at_pt (t + 7 / 10) x (snd HEAD_ack) (VInt 1) None] s1) (\<lambda>s2.
        place_ack k (t + 7 / 10) ''list'' s2)))"

text \<open>The rest of the list moves up one slot.\<close>

definition move_up :: "rat \<Rightarrow> nat \<times> string \<Rightarrow> ack_st \<Rightarrow> ack_st res" where
  "move_up t = (\<lambda>(i, k) s.
     rbind (dlook SLOT_ack (i + 1)) (\<lambda>x1.
     rbind (dlook SLOT_ack i) (\<lambda>x0.
     item_add k [at_pt (t + 35 / 100) x1 (snd HEAD_ack) (VInt 1) None,
                 at_pt (t + 8 / 10) x0 (snd HEAD_ack) (VInt 1) None] s)))"

text \<open>The acknowledgement at the end of \<open>pop\<close>: the dot to Redis, the entry's end, the bar's stop.\<close>

definition pop_acked :: "rat \<Rightarrow> string \<Rightarrow> nat \<Rightarrow> rat \<times> rat \<Rightarrow> rat \<Rightarrow> ack_st \<Rightarrow> (rat \<times> ack_st) res" where
  "pop_acked t k row rxy done_t s =
     rbind (rnext (ak_ack_dots s)) (\<lambda>(dot, dots).
     rbind (walk_ack dot done_t ACK_EDGE (ak_kfu s)) (\<lambda>(a, K).
     rbind (item_add k [at_pt a (fst rxy) (snd rxy) (VInt 1) None, at_pt (a + 3 / 10) (fst rxy) (snd rxy) (VInt 0) None]
              (s\<lparr>ak_ack_dots := dots, ak_kfu := K\<rparr>)) (\<lambda>s1.
     rbind (place_ack k a ''done'' s1) (\<lambda>s2.
     let s3 = s2\<lparr>ak_acks := ak_acks s2 @ [(a, k)]\<rparr>
     in rbind (dextend row [(t, a, Some ((a - t) / VT_ack))] (ak_bars s3)) (\<lambda>bars.
        rbind (rcheck (a - t < VT_ack)) (\<lambda>_.
        Inr (a, s3\<lparr>ak_bars := bars, ak_rows_free := ak_rows_free s3 @ [row]\<rparr>)))))))"

definition ack_pop :: "rat \<Rightarrow> bool \<Rightarrow> ack_st \<Rightarrow> ((rat \<times> rat option \<times> nat) \<times> ack_st) res" where
  "ack_pop t acked s =
     (case ak_lst s of [] \<Rightarrow> Inl IndexError
      | k # rest \<Rightarrow>
        rbind (rnext (ak_rows s)) (\<lambda>(row, rows).
        rbind (rremove row (ak_rows_free s)) (\<lambda>free.
        rbind (dlook SLOT_ack 0) (\<lambda>hx.
        rbind (dlook ROW_ack row) (\<lambda>rxy.
        rbind (item_add k [at_pt t hx (snd HEAD_ack) (VInt 1) None, at_pt (t + 35 / 100) hx (snd rxy) (VInt 1) None,
                 at_pt (t + 7 / 10) (fst rxy) (snd rxy) (VInt 1) None]
                 (s\<lparr>ak_lst := rest, ak_rows := rows, ak_rows_free := free\<rparr>)) (\<lambda>s1.
        rbind (rfold (move_up t) (enumerate 0 rest) s1) (\<lambda>s2.
        rbind (place_ack k t ''pending'' s2) (\<lambda>s3.
        let s4 = s3\<lparr>ak_deadlines := dset k (t + VT_ack) (ak_deadlines s3)\<rparr>
        in rbind (rnext (ak_dots s4)) (\<lambda>(dot, dots).
           rbind (walk_ack dot t POP_EDGE (ak_kfu s4)) (\<lambda>(arrive, K).
           let done_t = arrive + WORK_ack;
               s5 = s4\<lparr>ak_dots := dots, ak_kfu := K, ak_busy := ak_busy s4 @ [(arrive, done_t)],
                       ak_pops := ak_pops s4 @ [(t, k)]\<rparr>
           in if acked
              then rbind (pop_acked t k row rxy done_t s5) (\<lambda>(a, s6). Inr ((done_t, Some a, row), s6))
              else rbind (dextend row [(t, t + VT_ack, None)] (ak_bars s5)) (\<lambda>bars.
                   Inr ((done_t, None, row), s5\<lparr>ak_bars := bars\<rparr>))))))))))))"

section \<open>The sweep\<close>

definition sweep_ticks :: "rat list" where
  "sweep_ticks = map (\<lambda>k. of_nat k + SWEEP_PHASE) [0..<40]"

definition first_tick :: "rat \<Rightarrow> rat res" where
  "first_tick d = (case List.find (\<lambda>x. x \<ge> d) sweep_ticks of None \<Rightarrow> Inl StopIteration | Some x \<Rightarrow> Inr x)"

definition flash_ack :: "string \<Rightarrow> span list \<Rightarrow> cssv \<Rightarrow> ack_st \<Rightarrow> ack_st" where
  "flash_ack name spans peak s = s\<lparr>ak_kfu := flash name spans peak (12 / 100) (25 / 100) (ak_kfu s)\<rparr>"

text \<open>The first tick at or after B's deadline puts B back to the front.\<close>

definition sweep_back :: "rat \<Rightarrow> nat \<Rightarrow> rat \<Rightarrow> ack_st \<Rightarrow> (rat \<times> ack_st) res" where
  "sweep_back doneB rowB dlB s =
     rbind (rcheck (doneB < dlB)) (\<lambda>_.
     let s1 = flash_ack ''noack'' [(doneB, doneB + 16 / 10)] (VInt 1) s
     in rbind (first_tick dlB) (\<lambda>req.
        rbind (rcheck (0 \<le> req - dlB \<and> req - dlB < 1)) (\<lambda>_.
        rbind (dlook ROW_ack rowB) (\<lambda>rxy.
        rbind (item_add ''B'' [at_pt req (fst rxy) (snd rxy) (VInt 1) None,
                 at_pt (req + 7 / 10) (fst HEAD_ack) (snd HEAD_ack) (VInt 1) None]
                 (flash_ack ''late1'' [(dlB, req)] (VInt 1) s1)) (\<lambda>s2.
        rbind (place_ack ''B'' req ''list'' (s2\<lparr>ak_lst := ''B'' # ak_lst s2\<rparr>)) (\<lambda>s3.
        Inr (req, flash_ack ''front'' [(req, req + 16 / 10)] (VInt 1)
                    (s3\<lparr>ak_rows_free := ak_rows_free s3 @ [rowB]\<rparr>))))))))"

section \<open>The checks and the drawing\<close>

definition py_int :: "rat \<Rightarrow> int" where
  "py_int x = (if x \<ge> 0 then \<lfloor>x\<rfloor> else \<lceil>x\<rceil>)"

definition ack_checks :: "ack_st \<Rightarrow> bool" where
  "ack_checks s \<longleftrightarrow>
     map snd (ak_pops s) = [''A'', ''B'', ''B''] \<and> map snd (ak_acks s) = [''A'', ''B'']
     \<and> list_all (\<lambda>(k, l). map snd l = (if k = ''A'' then [''list'', ''pending'', ''done'']
                                       else [''list'', ''pending'', ''list'', ''pending'', ''done''])
          \<and> map fst l = sort (map fst l)) (ak_where s)
     \<and> list_all (\<lambda>(a, b). snd a \<le> fst b) (zip (ak_busy s) (tl (ak_busy s)))
     \<and> ak_lst s = [] \<and> sort (ak_rows_free s) = [0, 1]
     \<and> list_all (\<lambda>b. snd b \<le> loop_D (ak_kfu s)) (ak_busy s)"

definition ack_draw :: "nat \<Rightarrow> nat \<Rightarrow> ack_st \<Rightarrow> kfu res" where
  "ack_draw rowB rowB2 s =
     (let K1 = fold (\<lambda>(k, pts). kf (''item'' @ k) pts) (ak_item s) (ak_kfu s)
      in rbind (rcheck (rowB = 1 \<and> rowB2 = 0)) (\<lambda>_.
         let K2 = flash ''ok0'' (map (\<lambda>(a, _). (a, a + 14 / 10)) (ak_acks s)) (VInt 1) (12 / 100) (25 / 100) K1
         in rbind (rfold (\<lambda>(row, spans). bar (''bar'' @ show_nat row) spans) (ak_bars s) K2) (\<lambda>K3.
            let K4 = flash ''c-glow'' (ak_busy s) (VFlt (14 / 100)) (12 / 100) (25 / 100) K3
            in rbind (bar ''c-bar'' (map (\<lambda>(a, e). (a, e, None)) (ak_busy s)) K4) (\<lambda>K5.
               let K6 = flash ''enq-glow'' (map (\<lambda>(_, t). (t - 5 / 100, t + 3 / 10)) ENQ_ack) (VFlt (25 / 100))
                          (12 / 100) (25 / 100) K5
               in Inr (ring ''ring'' (filter (\<lambda>x. x < loop_D K6) sweep_ticks) (6 / 10) K6)))))"

definition the_ack :: "rat option \<Rightarrow> rat res" where
  "the_ack a = (case a of None \<Rightarrow> Inl TypeError | Some x \<Rightarrow> Inr x)"

text \<open>\<open>build\<close>: the state at the end, B's first deadline, the sweep's tick and the reduced-motion frame.\<close>

definition build_ack :: "kfu \<Rightarrow> (ack_st \<times> rat \<times> rat \<times> rat) res" where
  "build_ack K =
     rbind (rfold ack_enqueue ENQ_ack (ack_start K)) (\<lambda>s0.
     rbind (ack_pop (14 / 10) True s0) (\<lambda>((doneA, ackA, _), s1).
     rbind (the_ack ackA) (\<lambda>ackA.
     rbind (ack_pop (ackA + 3 / 10) False s1) (\<lambda>((doneB, _, rowB), s2).
     rbind (dlook (ak_deadlines s2) ''B'') (\<lambda>dlB.
     rbind (sweep_back doneB rowB dlB s2) (\<lambda>(req, s3).
     rbind (ack_pop (req + 9 / 10) True s3) (\<lambda>((doneB2, ackB2, rowB2), s4).
     rbind (the_ack ackB2) (\<lambda>ackB2.
     let en = ackB2 + 3 / 10;
         s5 = s4\<lparr>ak_kfu := (ak_kfu s4)\<lparr>loop_D := of_int (py_int (en + 15 / 10) + 1)\<rparr>\<rparr>
     in rbind (rcheck (en + 1 \<le> loop_D (ak_kfu s5))) (\<lambda>_.
        rbind (rcheck (ack_checks s5)) (\<lambda>_.
        rbind (ack_draw rowB rowB2 s5) (\<lambda>K'.
        Inr (s5\<lparr>ak_kfu := K'\<rparr>, dlB, req, py_round 2 (dlB - 8 / 10)))))))))))))"

text \<open>The last statement of \<open>build\<close>: the picture from its template file.\<close>

definition render_ack :: "(string \<Rightarrow> string option) \<Rightarrow> kfu \<Rightarrow> string res" where
  "render_ack files K =
     rbind (build_ack K) (\<lambda>(s, _, _, still). render files ''ack.tpl.svg'' still None (ak_kfu s))"

end
