(* ===== verification/Ack_Claims.thy ===== *)
theory Ack_Claims
  imports Ack_Story
begin

text \<open>
  What \<open>gen_ack.pop\<close> does to the story's state, the sweep's delay, and the story itself. Everything
  but the drawn keyframes is the \<open>core\<close> of a state.
\<close>

section \<open>The core of a state\<close>

definition no_kfu :: kfu where
  "no_kfu = \<lparr>loop_D = 0, rules = [], LEGEND = [], elements = []\<rparr>"

definition core :: "ack_st \<Rightarrow> ack_st" where
  "core s = s\<lparr>ak_item := [], ak_kfu := no_kfu\<rparr>"

lemma core_simps [simp]:
  "core (s\<lparr>ak_item := d\<rparr>) = core s" "core (s\<lparr>ak_kfu := K\<rparr>) = core s"
  "core (s\<lparr>ak_lst := x1\<rparr>) = (core s)\<lparr>ak_lst := x1\<rparr>" "core (s\<lparr>ak_where := x2\<rparr>) = (core s)\<lparr>ak_where := x2\<rparr>"
  "core (s\<lparr>ak_pops := x3\<rparr>) = (core s)\<lparr>ak_pops := x3\<rparr>" "core (s\<lparr>ak_acks := x4\<rparr>) = (core s)\<lparr>ak_acks := x4\<rparr>"
  "core (s\<lparr>ak_busy := x5\<rparr>) = (core s)\<lparr>ak_busy := x5\<rparr>" "core (s\<lparr>ak_deadlines := x6\<rparr>) = (core s)\<lparr>ak_deadlines := x6\<rparr>"
  "core (s\<lparr>ak_bars := x7\<rparr>) = (core s)\<lparr>ak_bars := x7\<rparr>" "core (s\<lparr>ak_rows_free := x8\<rparr>) = (core s)\<lparr>ak_rows_free := x8\<rparr>"
  "core (s\<lparr>ak_dots := x9\<rparr>) = (core s)\<lparr>ak_dots := x9\<rparr>" "core (s\<lparr>ak_ack_dots := y1\<rparr>) = (core s)\<lparr>ak_ack_dots := y1\<rparr>"
  "core (s\<lparr>ak_rows := y2\<rparr>) = (core s)\<lparr>ak_rows := y2\<rparr>"
  by (simp_all add: core_def)

lemma core_fields [simp]:
  "ak_lst (core s) = ak_lst s" "ak_where (core s) = ak_where s" "ak_pops (core s) = ak_pops s"
  "ak_acks (core s) = ak_acks s" "ak_busy (core s) = ak_busy s" "ak_deadlines (core s) = ak_deadlines s"
  "ak_bars (core s) = ak_bars s" "ak_rows_free (core s) = ak_rows_free s" "ak_dots (core s) = ak_dots s"
  "ak_ack_dots (core s) = ak_ack_dots s" "ak_rows (core s) = ak_rows s"
  by (simp_all add: core_def)

lemma core_eqD:
  assumes "core s' = core s"
  shows "ak_lst s' = ak_lst s" "ak_where s' = ak_where s" "ak_pops s' = ak_pops s" "ak_acks s' = ak_acks s"
    "ak_busy s' = ak_busy s" "ak_deadlines s' = ak_deadlines s" "ak_bars s' = ak_bars s"
    "ak_rows_free s' = ak_rows_free s" "ak_dots s' = ak_dots s" "ak_ack_dots s' = ak_ack_dots s" "ak_rows s' = ak_rows s"
  using assms core_fields by metis+

definition dpush :: "'k \<Rightarrow> 'v \<Rightarrow> ('k, 'v list) dict \<Rightarrow> ('k, 'v list) dict" where
  "dpush k x d = dset k (the (dget d k) @ [x]) d"

lemma dextend_one: "k \<in> keyset d \<Longrightarrow> dextend k [x] d = Inr (dpush k x d)"
  using keyset_dget [of k d] by (auto simp: dextend_def dlook_def dpush_def)

lemma keyset_dpush [simp]: "k \<in> keyset d \<Longrightarrow> keyset (dpush k x d) = keyset d"
  by (auto simp: dpush_def)

lemma item_add_ok:
  assumes "k \<in> keyset (ak_item s)"
  shows "\<exists>s'. item_add k pts s = Inr s' \<and> core s' = core s \<and> keyset (ak_item s') = keyset (ak_item s) \<and> ak_kfu s' = ak_kfu s"
  using keyset_dget [OF assms] assms by (auto simp: item_add_def dextend_def dlook_def)

lemma place_ok:
  "k \<in> keyset (ak_where s) \<Longrightarrow> place_ack k t p s = Inr (s\<lparr>ak_where := dpush k (t, p) (ak_where s)\<rparr>)"
  by (simp add: place_ack_def dextend_one)

lemma move_ups_ok:
  assumes "length xs + i \<le> 2" and "set xs \<subseteq> keyset (ak_item s)"
  shows "\<exists>s'. rfold (move_up t) (enumerate i xs) s = Inr s' \<and> core s' = core s
    \<and> keyset (ak_item s') = keyset (ak_item s) \<and> ak_kfu s' = ak_kfu s"
  using assms
proof (induction xs arbitrary: i s)
  case (Cons x xs)
  then have "i = 0 \<or> i = 1" by auto
  then obtain x1 x0 where "dlook SLOT_ack (i + 1) = Inr x1" "dlook SLOT_ack i = Inr x0"
    by (auto simp: dlook_def SLOT_ack_def)
  moreover have x: "x \<in> keyset (ak_item s)" using Cons.prems(2) by simp
  moreover obtain s1 where s1: "item_add x [at_pt (t + 35 / 100) x1 (snd HEAD_ack) (VInt 1) None,
      at_pt (t + 8 / 10) x0 (snd HEAD_ack) (VInt 1) None] s = Inr s1" "core s1 = core s"
    "keyset (ak_item s1) = keyset (ak_item s)" "ak_kfu s1 = ak_kfu s"
    using item_add_ok [OF x] by blast
  moreover obtain s2 where "rfold (move_up t) (enumerate (Suc i) xs) s1 = Inr s2" "core s2 = core s1"
    "keyset (ak_item s2) = keyset (ak_item s1)" "ak_kfu s2 = ak_kfu s1"
    using Cons.IH [of "Suc i" s1] Cons.prems s1(3) by auto
  ultimately show ?case by (simp add: move_up_def)
qed simp

section \<open>Pop\<close>

definition pop_time :: rat where "pop_time = travel POP_EDGE DOT_V_ack"
definition ack_time :: rat where "ack_time = pop_time + WORK_ack + travel ACK_EDGE DOT_V_ack"

lemma walk_ack_edges:
  "\<exists>K'. walk_ack n t POP_EDGE K = Inr (t + pop_time, K') \<and> loop_D K' = loop_D K"
  "\<exists>K'. walk_ack n t ACK_EDGE K = Inr (t + travel ACK_EDGE DOT_V_ack, K') \<and> loop_D K' = loop_D K"
  by (auto simp: walk_ack_def walk_def POP_EDGE_def ACK_EDGE_def DOT_V_ack_def pop_time_def travel_def kf_def Let_def)

lemma times_ack: "pop_time = 97 / 140" "ack_time = 1532 / 420"
  by (simp_all add: pop_time_def ack_time_def travel_def POP_EDGE_def ACK_EDGE_def DOT_V_ack_def WORK_ack_def)


text \<open>The state after a pop, as far as it is not drawn.\<close>

definition popped :: "rat \<Rightarrow> bool \<Rightarrow> string \<Rightarrow> nat \<Rightarrow> ack_st \<Rightarrow> ack_st" where
  "popped t acked k row s =
     s\<lparr>ak_lst := tl (ak_lst s), ak_rows := tl (ak_rows s),
       ak_rows_free := remove1 row (ak_rows_free s) @ (if acked then [row] else []),
       ak_where := (if acked then dpush k (t + ack_time, ''done'') (dpush k (t, ''pending'') (ak_where s))
                    else dpush k (t, ''pending'') (ak_where s)),
       ak_deadlines := dset k (t + VT_ack) (ak_deadlines s), ak_dots := tl (ak_dots s),
       ak_ack_dots := (if acked then tl (ak_ack_dots s) else ak_ack_dots s),
       ak_busy := ak_busy s @ [(t + pop_time, t + pop_time + WORK_ack)], ak_pops := ak_pops s @ [(t, k)],
       ak_acks := ak_acks s @ (if acked then [(t + ack_time, k)] else []),
       ak_bars := dpush row (if acked then (t, t + ack_time, Some (ack_time / VT_ack)) else (t, t + VT_ack, None)) (ak_bars s)\<rparr>"

definition pop_ready :: "bool \<Rightarrow> ack_st \<Rightarrow> bool" where
  "pop_ready acked s \<longleftrightarrow>
     ak_lst s \<noteq> [] \<and> length (ak_lst s) \<le> 3 \<and> set (ak_lst s) \<subseteq> keyset (ak_item s) \<and> hd (ak_lst s) \<in> keyset (ak_where s)
     \<and> ak_rows s \<noteq> [] \<and> hd (ak_rows s) \<in> set (ak_rows_free s) \<and> hd (ak_rows s) < 2 \<and> hd (ak_rows s) \<in> keyset (ak_bars s)
     \<and> ak_dots s \<noteq> [] \<and> (acked \<longrightarrow> ak_ack_dots s \<noteq> [])"

lemma ack_pop_ok:
  assumes "pop_ready acked s"
  shows "\<exists>s'. ack_pop t acked s =
      Inr ((t + pop_time + WORK_ack, if acked then Some (t + ack_time) else None, hd (ak_rows s)), s')
    \<and> core s' = popped t acked (hd (ak_lst s)) (hd (ak_rows s)) (core s)
    \<and> keyset (ak_item s') = keyset (ak_item s) \<and> loop_D (ak_kfu s') = loop_D (ak_kfu s)"
proof -
  obtain k rest row rows dot dots where l: "ak_lst s = k # rest" "ak_rows s = row # rows" "ak_dots s = dot # dots"
    using assms by (auto simp: pop_ready_def neq_Nil_conv)
  have k: "k \<in> keyset (ak_item s)" "set rest \<subseteq> keyset (ak_item s)" "length rest \<le> 2" "k \<in> keyset (ak_where s)"
    and r: "row \<in> set (ak_rows_free s)" "row < 2" "row \<in> keyset (ak_bars s)"
    and d: "acked \<longrightarrow> ak_ack_dots s \<noteq> []"
    using assms l by (auto simp: pop_ready_def)
  have "row = 0 \<or> row = 1" using r(2) by auto
  then obtain rx ry where rxy: "dlook ROW_ack row = Inr (rx, ry)" by (auto simp: dlook_def ROW_ack_def)
  have hx: "dlook SLOT_ack 0 = Inr 420" by (simp add: dlook_def SLOT_ack_def)
  let ?s0 = "s\<lparr>ak_lst := rest, ak_rows := rows, ak_rows_free := remove1 row (ak_rows_free s)\<rparr>"
  let ?p1 = "[at_pt t 420 (snd HEAD_ack) (VInt 1) None, at_pt (t + 35 / 100) 420 (snd (rx, ry)) (VInt 1) None,
                 at_pt (t + 7 / 10) (fst (rx, ry)) (snd (rx, ry)) (VInt 1) None]"
  have "k \<in> keyset (ak_item ?s0)" using k(1) by simp
  from item_add_ok [OF this] obtain s1 where s1: "item_add k ?p1 ?s0 = Inr s1" "core s1 = core ?s0"
    "keyset (ak_item s1) = keyset (ak_item s)" "ak_kfu s1 = ak_kfu s" by auto
  have "set rest \<subseteq> keyset (ak_item s1)" "length rest + 0 \<le> 2" using k s1 by auto
  from move_ups_ok [OF this(2,1)] obtain s2 where s2: "rfold (move_up t) (enumerate 0 rest) s1 = Inr s2" "core s2 = core s1"
    "keyset (ak_item s2) = keyset (ak_item s1)" "ak_kfu s2 = ak_kfu s1" by blast
  have c2: "core s2 = core ?s0" using s1 s2 by simp
  note f2 = core_eqD [OF c2]
  have w: "k \<in> keyset (ak_where s2)" using k(4) f2 by simp
  let ?s3 = "s2\<lparr>ak_where := dpush k (t, ''pending'') (ak_where s2)\<rparr>"
  let ?s4 = "?s3\<lparr>ak_deadlines := dset k (t + VT_ack) (ak_deadlines ?s3)\<rparr>"
  obtain K where K: "walk_ack dot t POP_EDGE (ak_kfu ?s4) = Inr (t + pop_time, K)" "loop_D K = loop_D (ak_kfu ?s4)"
    using walk_ack_edges(1) by blast
  let ?s5 = "?s4\<lparr>ak_dots := dots, ak_kfu := K, ak_busy := ak_busy ?s4 @ [(t + pop_time, t + pop_time + WORK_ack)],
                       ak_pops := ak_pops ?s4 @ [(t, k)]\<rparr>"
  have start: "ack_pop t acked s =
     (if acked then rbind (pop_acked t k row (rx, ry) (t + pop_time + WORK_ack) ?s5)
                     (\<lambda>(a, s6). Inr ((t + pop_time + WORK_ack, Some a, row), s6))
      else rbind (dextend row [(t, t + VT_ack, None)] (ak_bars ?s5)) (\<lambda>bars.
                   Inr ((t + pop_time + WORK_ack, None, row), ?s5\<lparr>ak_bars := bars\<rparr>)))"
    using l rxy hx r(1) s1(1) s2(1) place_ok [OF w, of t "''pending''"] K(1) f2
    by (simp add: ack_pop_def rremove_def Let_def)
  show ?thesis
  proof (cases acked)
    case False
    with start l r(3) f2 s1 s2 K show ?thesis
      by (simp add: dextend_one popped_def c2)
  next
    case True
    with d obtain adot adots where ad: "ak_ack_dots s = adot # adots" by (auto simp: neq_Nil_conv)
    obtain K2 where K2: "walk_ack adot (t + pop_time + WORK_ack) ACK_EDGE (ak_kfu ?s5) = Inr (t + ack_time, K2)"
      "loop_D K2 = loop_D (ak_kfu ?s5)"
      using walk_ack_edges(2) [of adot "t + pop_time + WORK_ack" "ak_kfu ?s5"] by (auto simp: ack_time_def add.assoc)
    let ?s6 = "?s5\<lparr>ak_ack_dots := adots, ak_kfu := K2\<rparr>"
    let ?p2 = "[at_pt (t + ack_time) (fst (rx, ry)) (snd (rx, ry)) (VInt 1) None,
        at_pt (t + ack_time + 3 / 10) (fst (rx, ry)) (snd (rx, ry)) (VInt 0) None]"
    have "k \<in> keyset (ak_item ?s6)" using k(1) s1 s2 by simp
    from item_add_ok [OF this] obtain s7 where s7: "item_add k ?p2 ?s6 = Inr s7" "core s7 = core ?s6"
      "keyset (ak_item s7) = keyset (ak_item ?s6)" "ak_kfu s7 = ak_kfu ?s6" by blast
    note f7 = core_eqD [OF s7(2)]
    have w7: "k \<in> keyset (ak_where s7)" using f7 w by simp
    have "pop_acked t k row (rx, ry) (t + pop_time + WORK_ack) ?s5 = Inr (t + ack_time,
        s7\<lparr>ak_where := dpush k (t + ack_time, ''done'') (ak_where s7), ak_acks := ak_acks s7 @ [(t + ack_time, k)],
           ak_bars := dpush row (t, t + ack_time, Some (ack_time / VT_ack)) (ak_bars s7),
           ak_rows_free := ak_rows_free s7 @ [row]\<rparr>)"
      using ad f2 f7 K2 s7(1) r(3) place_ok [OF w7, of "t + ack_time" "''done''"]
      by (simp add: pop_acked_def dextend_one rcheck_def times_ack VT_ack_def)
    with start True l f2 f7 s1 s2 s7 K K2 ad show ?thesis
      by (simp add: popped_def c2)
  qed
qed


section \<open>The sweep\<close>

lemma first_tick_find:
  assumes "0 \<le> d" and "d \<le> 39 + 3 / 10"
  shows "\<exists>k. k < 40 \<and> first_tick d = Inr (of_nat k + SWEEP_PHASE) \<and> d \<le> of_nat k + SWEEP_PHASE
    \<and> (0 < k \<longrightarrow> of_nat k + SWEEP_PHASE < d + 1)"
proof -
  let ?k = "LEAST k. d \<le> of_nat k + SWEEP_PHASE"
  have ex: "d \<le> of_nat 39 + SWEEP_PHASE" using assms by (simp add: SWEEP_PHASE_def)
  have k: "d \<le> of_nat ?k + SWEEP_PHASE" "?k \<le> 39"
    using LeastI [of "\<lambda>k. d \<le> of_nat k + SWEEP_PHASE", OF ex] Least_le [of "\<lambda>k. d \<le> of_nat k + SWEEP_PHASE", OF ex] by auto
  have less: "of_nat j + SWEEP_PHASE < d" if "j < ?k" for j
    using not_less_Least [OF that] by (simp add: not_le)
  have "List.find (\<lambda>x. x \<ge> d) sweep_ticks = Some (of_nat ?k + SWEEP_PHASE)"
    unfolding find_Some_iff using k less
    by (intro exI [of _ ?k]) (auto simp: sweep_ticks_def not_le)
  then have "first_tick d = Inr (of_nat ?k + SWEEP_PHASE)" by (simp add: first_tick_def)
  moreover have "of_nat ?k + SWEEP_PHASE < d + 1" if "0 < ?k"
    using less [of "?k - 1"] that by (simp add: of_nat_diff)
  ultimately show ?thesis using k by (intro exI [of _ ?k]) simp
qed

lemma flash_ack_simps [simp]:
  "core (flash_ack n sp v s) = core s" "ak_item (flash_ack n sp v s) = ak_item s"
  "loop_D (ak_kfu (flash_ack n sp v s)) = loop_D (ak_kfu s)"
  by (simp_all add: flash_ack_def flash_def kf_def)

lemma sweep_back_ok:
  assumes "doneB < dlB" and "first_tick dlB = Inr req" and "0 \<le> req - dlB" "req - dlB < 1" and "rowB < 2"
    and "''B'' \<in> keyset (ak_item s)" and "''B'' \<in> keyset (ak_where s)"
  shows "\<exists>s'. sweep_back doneB rowB dlB s = Inr (req, s')
    \<and> core s' = (core s)\<lparr>ak_lst := ''B'' # ak_lst s, ak_where := dpush ''B'' (req, ''list'') (ak_where s),
                         ak_rows_free := ak_rows_free s @ [rowB]\<rparr>
    \<and> keyset (ak_item s') = keyset (ak_item s) \<and> loop_D (ak_kfu s') = loop_D (ak_kfu s)"
proof -
  have "rowB = 0 \<or> rowB = 1" using assms(5) by auto
  then obtain rx ry where rxy: "dlook ROW_ack rowB = Inr (rx, ry)" by (auto simp: dlook_def ROW_ack_def)
  let ?s1 = "flash_ack ''late1'' [(dlB, req)] (VInt 1) (flash_ack ''noack'' [(doneB, doneB + 16 / 10)] (VInt 1) s)"
  let ?p = "[at_pt req (fst (rx, ry)) (snd (rx, ry)) (VInt 1) None,
                 at_pt (req + 7 / 10) (fst HEAD_ack) (snd HEAD_ack) (VInt 1) None]"
  have f: "core ?s1 = core s" "keyset (ak_item ?s1) = keyset (ak_item s)" "loop_D (ak_kfu ?s1) = loop_D (ak_kfu s)"
    by simp_all
  then obtain s2 where s2: "item_add ''B'' ?p ?s1 = Inr s2" "core s2 = core s" "keyset (ak_item s2) = keyset (ak_item s)"
    "ak_kfu s2 = ak_kfu ?s1" using item_add_ok [of "''B''" ?s1 ?p] assms(6) by auto
  note f2 = core_eqD [OF s2(2)]
  have "''B'' \<in> keyset (ak_where (s2\<lparr>ak_lst := ''B'' # ak_lst s2\<rparr>))" using assms(7) f2 by simp
  from place_ok [OF this] show ?thesis
    using assms(1-4) rxy s2 f f2
    by (simp add: sweep_back_def Let_def rcheck_def)
qed

section \<open>The story\<close>

lemma ack_enqueued:
  "\<exists>s0. rfold ack_enqueue ENQ_ack (ack_start K) = Inr s0 \<and> keyset (ak_item s0) = {''A'', ''B''}
    \<and> core s0 = (core (ack_start K))\<lparr>ak_lst := [''A'', ''B''], ak_where := [(''A'', [(11 / 10, ''list'')]), (''B'', [(16 / 10, ''list'')])]\<rparr>"
  by (simp add: ENQ_ack_def ack_start_def ack_enqueue_def item_add_def place_ack_def dextend_def dlook_def SLOT_ack_def Let_def core_def)


lemma ack_draw_ok:
  assumes "\<And>K. \<exists>K'. rfold (\<lambda>(row, spans). bar (''bar'' @ show_nat row) spans) (ak_bars s) K = Inr K' \<and> loop_D K' = loop_D K"
    and "\<And>K. \<exists>K'. bar ''c-bar'' (map (\<lambda>(a, e). (a, e, None)) (ak_busy s)) K = Inr K' \<and> loop_D K' = loop_D K"
  shows "\<exists>K'. ack_draw 1 0 s = Inr K' \<and> loop_D K' = loop_D (ak_kfu s)"
proof -
  have items: "loop_D (fold (\<lambda>(k, pts). kf (''item'' @ k) pts) xs K) = loop_D K" for xs K
    by (induction xs arbitrary: K) (auto simp: kf_def)
  let ?K2 = "flash ''ok0'' (map (\<lambda>(a, _). (a, a + 14 / 10)) (ak_acks s)) (VInt 1) (12 / 100) (25 / 100)
      (fold (\<lambda>(k, pts). kf (''item'' @ k) pts) (ak_item s) (ak_kfu s))"
  obtain K3 where K3: "rfold (\<lambda>(row, spans). bar (''bar'' @ show_nat row) spans) (ak_bars s) ?K2 = Inr K3" "loop_D K3 = loop_D ?K2"
    using assms(1) by blast
  let ?K4 = "flash ''c-glow'' (ak_busy s) (VFlt (14 / 100)) (12 / 100) (25 / 100) K3"
  obtain K5 where K5: "bar ''c-bar'' (map (\<lambda>(a, e). (a, e, None)) (ak_busy s)) ?K4 = Inr K5" "loop_D K5 = loop_D ?K4"
    using assms(2) by blast
  show ?thesis using K3 K5 items by (simp add: ack_draw_def Let_def rcheck_def flash_def ring_def kf_def)
qed


lemma core_get:
  assumes "core s = r"
  shows "ak_lst s = ak_lst r" "ak_where s = ak_where r" "ak_pops s = ak_pops r" "ak_acks s = ak_acks r"
    "ak_busy s = ak_busy r" "ak_deadlines s = ak_deadlines r" "ak_bars s = ak_bars r"
    "ak_rows_free s = ak_rows_free r" "ak_dots s = ak_dots r" "ak_ack_dots s = ak_ack_dots r" "ak_rows s = ak_rows r"
  using assms by auto

lemma py_int_17: "py_int (1559 / 105 + 3 / 10 + 15 / 10) = 16"
  by (simp add: py_int_def floor_unique)

lemma tick_B: "first_tick (1963 / 210) = Inr (103 / 10)"
  by (simp add: first_tick_def sweep_ticks_def SWEEP_PHASE_def upt_rec)

lemma ack_end:
  assumes "core s = \<lparr>ak_kfu = no_kfu, ak_item = [], 
      ak_where = [(''A'', [(11 / 10, ''list''), (14 / 10, ''pending''), (106 / 21, ''done'')]),
        (''B'', [(16 / 10, ''list''), (1123 / 210, ''pending''), (103 / 10, ''list''), (56 / 5, ''pending''), (1559 / 105, ''done'')])],
      ak_lst = [], ak_pops = [(14 / 10, ''A''), (1123 / 210, ''B''), (56 / 5, ''B'')], ak_acks = [(106 / 21, ''A''), (1559 / 105, ''B'')],
      ak_busy = [(293 / 140, 573 / 140), (2537 / 420, 3377 / 420), (333 / 28, 389 / 28)],
      ak_deadlines = [(''A'', 27 / 5), (''B'', 76 / 5)],
      ak_bars = [(0, [(14 / 10, 106 / 21, Some (383 / 420)), (56 / 5, 1559 / 105, Some (383 / 420))]), (1, [(1123 / 210, 1963 / 210, None)])],
      ak_rows_free = [1, 0], ak_dots = [], ak_ack_dots = [], ak_rows = []\<rparr>"
    and "loop_D (ak_kfu s) = 17"
  shows "ack_checks s" and "\<exists>K'. ack_draw 1 0 s = Inr K' \<and> loop_D K' = 17"
proof -
  note f = core_get [OF assms(1), simplified]
  show "ack_checks s" using f assms(2) by (simp add: ack_checks_def)
  have "\<exists>K'. rfold (\<lambda>(row, spans). bar (''bar'' @ show_nat row) spans) (ak_bars s) K = Inr K' \<and> loop_D K' = loop_D K" for K
    unfolding f by (simp add: bar_def bar_spans_def kf_def)
  moreover have "\<exists>K'. bar ''c-bar'' (map (\<lambda>(a, e). (a, e, None)) (ak_busy s)) K = Inr K' \<and> loop_D K' = loop_D K" for K
    unfolding f by (simp add: bar_def bar_spans_def kf_def)
  ultimately show "\<exists>K'. ack_draw 1 0 s = Inr K' \<and> loop_D K' = 17" using ack_draw_ok assms(2) by metis
qed


lemma core_start: "core (ack_start K) =
    \<lparr>ak_kfu = no_kfu, ak_item = [], ak_where = [(''A'', []), (''B'', [])], ak_lst = [], ak_pops = [], ak_acks = [], ak_busy = [],
     ak_deadlines = [], ak_bars = [(0, []), (1, [])], ak_rows_free = [0, 1], ak_dots = [''dot0'', ''dot1'', ''dot2''],
     ak_ack_dots = [''ackd0'', ''ackd2''], ak_rows = [0, 1, 0]\<rparr>"
  by (simp add: core_def ack_start_def ENQ_ack_def)

lemma ack_story:
  "\<exists>s. build_ack K = Inr (s, 1963 / 210, 103 / 10, py_round 2 (1963 / 210 - 8 / 10)) \<and> loop_D (ak_kfu s) = 17
     \<and> ak_pops s = [(14 / 10, ''A''), (1123 / 210, ''B''), (56 / 5, ''B'')]
     \<and> ak_acks s = [(106 / 21, ''A''), (1559 / 105, ''B'')] \<and> ak_lst s = []"
proof -
  obtain s0 where s0: "rfold ack_enqueue ENQ_ack (ack_start K) = Inr s0" "keyset (ak_item s0) = {''A'', ''B''}"
    and "core s0 = (core (ack_start K))\<lparr>ak_lst := [''A'', ''B''],
      ak_where := [(''A'', [(11 / 10, ''list'')]), (''B'', [(16 / 10, ''list'')])]\<rparr>"
    using ack_enqueued by blast
  note c0 = this(3) [unfolded core_start, simplified]
  have "pop_ready True s0" using core_get [OF c0] s0(2) by (simp add: pop_ready_def)
  from ack_pop_ok [OF this, of "14 / 10"] core_get [OF c0, simplified]
  obtain s1 where s1: "ack_pop (14 / 10) True s0 = Inr ((573 / 140, Some (106 / 21), 0), s1)"
    "keyset (ak_item s1) = {''A'', ''B''}" and "core s1 = popped (14 / 10) True ''A'' 0 (core s0)"
    using s0(2) by (auto simp: times_ack WORK_ack_def)
  note c1 = this(3) [unfolded c0 popped_def, simplified dpush_def times_ack WORK_ack_def VT_ack_def, simplified]
  have "pop_ready False s1" using core_get [OF c1] s1(2) by (simp add: pop_ready_def)
  from ack_pop_ok [OF this, of "1123 / 210"] core_get [OF c1, simplified]
  obtain s2 where s2: "ack_pop (1123 / 210) False s1 = Inr ((3377 / 420, None, 1), s2)"
    "keyset (ak_item s2) = {''A'', ''B''}" and "core s2 = popped (1123 / 210) False ''B'' 1 (core s1)"
    using s1(2) by (auto simp: times_ack WORK_ack_def)
  note c2 = this(3) [unfolded c1 popped_def, simplified dpush_def times_ack WORK_ack_def VT_ack_def, simplified]
  have "dlook (ak_deadlines s2) ''B'' = Inr (1963 / 210)" using core_get [OF c2] by (simp add: dlook_def)
  moreover obtain s3 where s3: "sweep_back (3377 / 420) 1 (1963 / 210) s2 = Inr (103 / 10, s3)"
    "keyset (ak_item s3) = {''A'', ''B''}" and "core s3 = (core s2)\<lparr>ak_lst := ''B'' # ak_lst s2,
      ak_where := dpush ''B'' (103 / 10, ''list'') (ak_where s2), ak_rows_free := ak_rows_free s2 @ [1]\<rparr>"
    using sweep_back_ok [OF _ tick_B, of "3377 / 420" 1 s2] core_get [OF c2] s2(2) by auto
  note c3 = this(3) [unfolded c2 core_get [OF c2], simplified dpush_def, simplified]
  have "pop_ready True s3" using core_get [OF c3] s3(2) by (simp add: pop_ready_def)
  from ack_pop_ok [OF this, of "56 / 5"] core_get [OF c3, simplified]
  obtain s4 where s4: "ack_pop (56 / 5) True s3 = Inr ((389 / 28, Some (1559 / 105), 0), s4)"
    and "core s4 = popped (56 / 5) True ''B'' 0 (core s3)"
    by (auto simp: times_ack WORK_ack_def)
  note c4 = this(2) [unfolded c3 popped_def, simplified dpush_def times_ack WORK_ack_def VT_ack_def, simplified]
  let ?s5 = "s4\<lparr>ak_kfu := (ak_kfu s4)\<lparr>loop_D := 17\<rparr>\<rparr>"
  have c5: "core ?s5 = core s4" by simp
  have "ack_checks ?s5" and "\<exists>K'. ack_draw 1 0 ?s5 = Inr K' \<and> loop_D K' = 17"
    by (rule ack_end; simp add: c4)+
  then obtain K' where "ack_checks ?s5" "ack_draw 1 0 ?s5 = Inr K'" "loop_D K' = 17" by blast
  then show ?thesis
    using s0(1) s1(1) s2(1) s3(1) s4 \<open>dlook (ak_deadlines s2) ''B'' = Inr (1963 / 210)\<close> core_get [OF c4] py_int_17
    by (simp add: build_ack_def the_ack_def Let_def rcheck_def)
qed

section \<open>The properties\<close>

text \<open>C33: \<open>pop\<close> never fails on a state that is ready for it, whatever the time: it takes the head of the list;
  the dot flies along \<open>POP_EDGE\<close> to the consumer, which is busy from the arrival on for \<open>WORK\<close>; then
  either the acknowledgement flies along \<open>ACK_EDGE\<close> and lands, always before the deadline \<open>VT\<close>
  after the pop, and the row is given back, or the job stays pending with the row taken.\<close>

theorem pop_acks_before_deadline:
  assumes "pop_ready acked s"
  shows "\<exists>done_t a s'. ack_pop t acked s = Inr ((done_t, a, hd (ak_rows s)), s')
    \<and> done_t = t + travel POP_EDGE DOT_V_ack + WORK_ack
    \<and> ak_busy s' = ak_busy s @ [(t + travel POP_EDGE DOT_V_ack, done_t)]
    \<and> a = (if acked then Some (done_t + travel ACK_EDGE DOT_V_ack) else None)
    \<and> ak_lst s = hd (ak_lst s) # ak_lst s' \<and> dget (ak_deadlines s') (hd (ak_lst s)) = Some (t + VT_ack)
    \<and> t < done_t \<and> done_t < t + VT_ack \<and> (a = None \<longleftrightarrow> \<not> acked) \<and> (\<forall>x. a = Some x \<longrightarrow> done_t < x \<and> x < t + VT_ack)
    \<and> mset (ak_rows_free s) = mset (ak_rows_free s') + (if acked then {#} else {#hd (ak_rows s)#})
    \<and> ak_acks s' = ak_acks s @ (case a of None \<Rightarrow> [] | Some x \<Rightarrow> [(x, hd (ak_lst s))])"
proof -
  from ack_pop_ok [OF assms, of t] obtain s' where
    s': "ack_pop t acked s = Inr ((t + pop_time + WORK_ack, if acked then Some (t + ack_time) else None, hd (ak_rows s)), s')"
    and c: "core s' = popped t acked (hd (ak_lst s)) (hd (ak_rows s)) (core s)" by blast
  note f = core_get [OF c, unfolded popped_def, simplified]
  have ready: "ak_lst s \<noteq> []" "hd (ak_rows s) \<in> set (ak_rows_free s)" using assms by (auto simp: pop_ready_def)
  have t: "travel POP_EDGE DOT_V_ack = pop_time" "pop_time + (WORK_ack + travel ACK_EDGE DOT_V_ack) = ack_time"
    by (simp_all add: pop_time_def ack_time_def)
  moreover have "0 < pop_time" "pop_time + WORK_ack < ack_time" "ack_time < VT_ack" "0 < WORK_ack"
    by (simp_all add: times_ack WORK_ack_def VT_ack_def)
  ultimately show ?thesis
    using ready f unfolding s' t(1) by (auto simp: t(2) update_conv' add.assoc)
qed

theorem pop_acks_before_deadline_witness:
  "\<exists>s done_t a s'. pop_ready True s \<and> ack_pop 1 True s = Inr ((done_t, a, 0), s') \<and> a \<noteq> None"
proof -
  obtain s0 where s0: "keyset (ak_item s0) = {''A'', ''B''}"
    and "core s0 = (core (ack_start no_kfu))\<lparr>ak_lst := [''A'', ''B''],
      ak_where := [(''A'', [(11 / 10, ''list'')]), (''B'', [(16 / 10, ''list'')])]\<rparr>"
    using ack_enqueued by blast
  note c0 = this(2) [unfolded core_start, simplified]
  have "pop_ready True s0" "hd (ak_rows s0) = 0" using core_get [OF c0] s0 by (simp_all add: pop_ready_def)
  with pop_acks_before_deadline [of True s0 1] show ?thesis by fastforce
qed

text \<open>The first sweep at or after a deadline comes less than a second after it, for every deadline from
  the first tick's second on that the 40 ticks of the story cover.\<close>

lemma sweep_within_a_second:
  assumes "3 / 10 < d" and "d \<le> 39 + 3 / 10"
  shows "\<exists>req. first_tick d = Inr req \<and> d \<le> req \<and> req < d + 1 \<and> (\<exists>k < 40. req = of_nat k + SWEEP_PHASE)"
proof -
  from first_tick_find [of d] assms obtain k where k: "k < 40" "first_tick d = Inr (of_nat k + SWEEP_PHASE)"
    "d \<le> of_nat k + SWEEP_PHASE" "0 < k \<longrightarrow> of_nat k + SWEEP_PHASE < d + 1" by auto
  moreover have "0 < k" using k(3) assms(1) by (cases k) (auto simp: SWEEP_PHASE_def)
  ultimately show ?thesis by auto
qed

text \<open>C34: the acknowledgement story runs to its end from any keyframe store, with no failing assertion: A is
  delivered once, B twice, each acknowledged once and in that order, B after the sweep that follows its
  missed deadline; the list ends empty and the loop is 17 s.\<close>

theorem ack_story_holds:
  "\<exists>s dl req still. build_ack K = Inr (s, dl, req, still) \<and> loop_D (ak_kfu s) = 17
     \<and> map snd (ak_pops s) = [''A'', ''B'', ''B''] \<and> map snd (ak_acks s) = [''A'', ''B'']
     \<and> dl \<le> req \<and> req < dl + 1 \<and> fst (last (ak_pops s)) = req + 9 / 10 \<and> ak_lst s = []"
proof -
  obtain s where "build_ack K = Inr (s, 1963 / 210, 103 / 10, py_round 2 (1963 / 210 - 8 / 10))" "loop_D (ak_kfu s) = 17"
    "ak_pops s = [(14 / 10, ''A''), (1123 / 210, ''B''), (56 / 5, ''B'')]"
    "ak_acks s = [(106 / 21, ''A''), (1559 / 105, ''B'')]" "ak_lst s = []"
    using ack_story [of K] by blast
  then show ?thesis
    by (intro exI [of _ s] exI [of _ "1963 / 210"] exI [of _ "103 / 10"] exI conjI) simp_all
qed

end

