(* ===== verification/Draw.thy ===== *)
theory Draw
  imports Svg Consumers
begin

text \<open>
  What the drawing parts of the generators share: markup elements, dictionaries of lists, the order
  of the consumers' names, and the seam check, that a track ends in the state it starts in.
\<close>

section \<open>Consumers by name\<close>

instantiation cons :: linorder
begin

definition less_eq_cons :: "cons \<Rightarrow> cons \<Rightarrow> bool" where
  "less_eq_cons a b \<longleftrightarrow> a = C1 \<or> b = C2"

definition less_cons :: "cons \<Rightarrow> cons \<Rightarrow> bool" where
  "less_cons a b \<longleftrightarrow> a = C1 \<and> b = C2"

instance
proof
  fix a b c :: cons
  show "a \<le> a" by (cases a) (simp_all add: less_eq_cons_def)
  show "a \<le> b \<or> b \<le> a" by (cases a; cases b) (simp_all add: less_eq_cons_def)
  show "a \<le> b \<Longrightarrow> b \<le> a \<Longrightarrow> a = b" by (cases a; cases b) (simp_all add: less_eq_cons_def)
  show "a \<le> b \<Longrightarrow> b \<le> c \<Longrightarrow> a \<le> c" by (cases a; cases b) (simp_all add: less_eq_cons_def)
  show "a < b \<longleftrightarrow> a \<le> b \<and> \<not> b \<le> a" by (cases a; cases b) (simp_all add: less_eq_cons_def less_cons_def)
qed

end

fun cons_name :: "cons \<Rightarrow> string" where
  "cons_name C1 = ''C1''"
| "cons_name C2 = ''C2''"

lemma cons_name_order: "cons_name a \<le> cons_name b \<longleftrightarrow> a \<le> b"
  by (cases a; cases b) (simp_all add: less_eq_cons_def less_eq_char_def)

section \<open>Markup and dictionaries\<close>

definition add_element :: "string \<Rightarrow> kfu \<Rightarrow> kfu" where
  "add_element e K = K\<lparr>elements := elements K @ [e]\<rparr>"

text \<open>\<open>d.setdefault(k, []).append(v)\<close>\<close>

definition dappend :: "'k \<Rightarrow> 'v \<Rightarrow> ('k, 'v list) dict \<Rightarrow> ('k, 'v list) dict" where
  "dappend k v d = dset k ((case dget d k of None \<Rightarrow> [] | Some l \<Rightarrow> l) @ [v]) d"

text \<open>The bytes of the characters that are not ASCII, and the number of characters of a text.\<close>

definition arrow :: string where "arrow = [CHR 0xE2, CHR 0x86, CHR 0x92]"
definition tick_mark :: string where "tick_mark = [CHR 0xE2, CHR 0x9C, CHR 0x93]"
definition cross_mark :: string where "cross_mark = [CHR 0xE2, CHR 0x9C, CHR 0x95]"
definition mid_dot :: string where "mid_dot = [CHR 0xC2, CHR 0xB7]"
definition at_least :: string where "at_least = [CHR 0xE2, CHR 0x89, CHR 0xA5]"

definition py_len :: "string \<Rightarrow> nat" where
  "py_len s = length (filter (\<lambda>c. \<not> (CHR 0x80 \<le> c \<and> c < CHR 0xC0)) s)"

definition read_file :: "(string \<Rightarrow> string option) \<Rightarrow> string \<Rightarrow> string res" where
  "read_file files path = (case files path of None \<Rightarrow> Inl FileNotFoundError | Some x \<Rightarrow> Inr x)"

section \<open>The seam\<close>

text \<open>Python compares numbers by value, and dictionaries without regard to their order.\<close>

fun cssv_eq :: "cssv \<Rightarrow> cssv \<Rightarrow> bool" where
  "cssv_eq (VStr a) (VStr b) = (a = b)"
| "cssv_eq (VInt a) (VInt b) = (a = b)"
| "cssv_eq (VInt a) (VFlt b) = (of_int a = b)"
| "cssv_eq (VFlt a) (VInt b) = (a = of_int b)"
| "cssv_eq (VFlt a) (VFlt b) = (a = b)"
| "cssv_eq _ _ = False"

definition props_eq :: "props \<Rightarrow> props \<Rightarrow> bool" where
  "props_eq a b \<longleftrightarrow> length a = length b
     \<and> list_all (\<lambda>(k, v). case dget b k of None \<Rightarrow> False | Some w \<Rightarrow> cssv_eq v w) a"

definition hidden :: "props \<Rightarrow> bool" where
  "hidden p \<longleftrightarrow> (case dget p ''opacity'' of None \<Rightarrow> False | Some v \<Rightarrow> cssv_eq v (VInt 0))"

definition same_ends :: "point list \<Rightarrow> bool" where
  "same_ends ps \<longleftrightarrow> hidden (snd (hd ps)) \<and> hidden (snd (last ps)) \<or> props_eq (snd (hd ps)) (snd (last ps))"

definition seam :: "rat \<Rightarrow> string \<times> point list \<Rightarrow> unit res" where
  "seam D = (\<lambda>(name, pts). rbind (padded D name pts) (\<lambda>ps. rcheck (same_ends ps)))"

definition seams :: "kfu \<Rightarrow> unit res" where
  "seams K = rfold (\<lambda>r _. seam (loop_D K) r) (rules K) ()"

end
