(* ===== verification/Close_Draw.thy ===== *)
theory Close_Draw
  imports Close_Facts Draw
begin

text \<open>
  The drawing half of \<open>gen_close.build\<close>: \<open>collapse\<close>, \<open>chip\<close>, \<open>pulse\<close>, the markup of rows and consumers,
  every track of the picture, the seam check, the choice of the still frame, and the written file.
\<close>

section \<open>Helpers\<close>

definition CHIP_IN :: rat where "CHIP_IN = 25 / 100"
definition CHIP_OUT :: rat where "CHIP_OUT = 15 / 100"
definition STEPS_FOR :: rat where "STEPS_FOR = 13 / 10"

text \<open>States that would show for less than \<open>gap\<close> leave the end of the list, the one at 0 stays.\<close>

definition pop_quick :: "rat \<Rightarrow> rat \<Rightarrow> (rat \<times> nat) list \<Rightarrow> (rat \<times> nat) list" where
  "pop_quick gap t out = rev (dropWhile (\<lambda>p. t - fst p < gap \<and> fst p > 0) (rev out))"

definition collapse_step :: "rat \<Rightarrow> (rat \<times> nat) list \<Rightarrow> rat \<times> nat \<Rightarrow> (rat \<times> nat) list" where
  "collapse_step gap out = (\<lambda>(t, i).
     let out1 = pop_quick gap t out
     in if out1 = [] \<or> snd (last out1) \<noteq> i then out1 @ [(t, i)] else out1)"

definition collapse :: "rat \<Rightarrow> (rat \<times> nat) list \<Rightarrow> (rat \<times> nat) list" where
  "collapse gap changes = foldl (collapse_step gap) [] (sort changes)"

definition chip_in :: props where "chip_in = op_tr (VInt 1) (tr 0 0)"
definition chip_out :: props where "chip_out = op_tr (VInt 0) (tr 16 0)"

definition chip_pts :: "(rat \<times> bool \<times> string) list \<Rightarrow> bool \<Rightarrow> rat \<Rightarrow> point list" where
  "chip_pts lg start_in xf0 =
     (let pts = (0, if start_in then chip_in else chip_out) #
            concat (map (\<lambda>(t, m, _). if m then [(t, chip_out), (t + CHIP_IN, chip_in)]
                                     else [(t, chip_in), (t + CHIP_OUT, chip_out)]) lg);
          end_in = (if lg = [] then start_in else fst (snd (last lg)))
      in if end_in \<noteq> start_in then pts @ [(xf0, snd (last pts)), (xf0 + XFADE_close, snd (hd pts))] else pts)"

definition chip :: "cons \<Rightarrow> (rat \<times> bool \<times> string) list \<Rightarrow> bool \<Rightarrow> rat \<Rightarrow> kfu \<Rightarrow> kfu" where
  "chip m lg start_in xf0 K = kf (''chip-'' @ cons_name m) (chip_pts lg start_in xf0) K"

definition pulse_close :: "string \<Rightarrow> rat list \<Rightarrow> kfu \<Rightarrow> kfu" where
  "pulse_close name ts K =
     kf name ((0, op_tr (VInt 0) ''scale(1)'') #
       concat (map (\<lambda>t. [(t, op_tr (VInt 0) ''scale(1)''), (t + 1 / 10, op_tr (VFlt (9 / 10)) ''scale(1.3)''),
                         (t + 6 / 10, op_tr (VInt 0) ''scale(2.4)'')]) ts)) K"

section \<open>Markup\<close>

fun CY :: "cons \<Rightarrow> int" where
  "CY C1 = 96"
| "CY C2 = 284"

fun STATES_close :: "cons \<Rightarrow> string list" where
  "STATES_close C1 = [''not started'', ''idle'', ''1/3 busy'', ''2/3 busy'', ''3/3 busy'']"
| "STATES_close C2 = [''idle'', ''1/3 busy'', ''2/3 busy'', ''3/3 busy'', ''Close()'', ''gone'']"

definition consumer_svg :: "cons \<Rightarrow> (nat \<times> string) list \<Rightarrow> string" where
  "consumer_svg m used_labels =
     (let y0 = CY m; n = cons_name m
      in join nl (
        [''  <g id=\"c-'' @ n @ ''\" class=\"a\">'',
         ''    <rect class=\"box wk\" x=\"740\" y=\"'' @ show_int y0 @ ''\" width=\"196\" height=\"96\" rx=\"8\"/>'',
         ''    <rect id=\"glow-'' @ n @ ''\" class=\"a glow\" x=\"740\" y=\"'' @ show_int y0 @ ''\" width=\"196\" height=\"96\" rx=\"8\"/>'',
         ''    <text class=\"t\" x=\"754\" y=\"'' @ show_int (y0 + 17) @ ''\" style=\"text-anchor:start\">Consumer '' @ n @ ''</text>''] @
        map (\<lambda>(k, name). ''    <text id=\"st-'' @ n @ ''-'' @ show_nat k @ ''\" class=\"''
            @ (if name = ''Close()'' then ''a m st st-on'' else ''a m st'') @ ''\" x=\"922\" y=\"'' @ show_int (y0 + 17)
            @ ''\">'' @ name @ ''</text>'') (enumerate 0 (STATES_close m)) @
        [''    <text class=\"m\" x=\"754\" y=\"'' @ show_int (y0 + 34) @ ''\" style=\"text-anchor:start\">DistributedQueue '' @ mid_dot @ '' 3 slots</text>''] @
        concat (map (\<lambda>s. let y = y0 + 51 + 16 * int s in
           [''    <rect class=\"track\" x=\"786\" y=\"'' @ show_int (y - 2) @ ''\" width=\"136\" height=\"4\" rx=\"2\"/>'',
            ''    <rect id=\"bar-'' @ n @ ''-'' @ show_nat s @ ''\" class=\"a lin bar\" x=\"786\" y=\"'' @ show_int (y - 2) @ ''\" width=\"136\" height=\"4\" rx=\"2\"/>''])
          [0..<nat CONC_close]) @
        map (\<lambda>(s, job). ''    <text id=\"jl-'' @ n @ ''-'' @ show_nat s @ ''-'' @ job @ ''\" class=\"a m\" x=\"768\" y=\"''
            @ show_int (y0 + 51 + 16 * int s) @ ''\">'' @ job @ ''</text>'') used_labels @
        [''    <circle class=\"pip\" cx=\"920\" cy=\"'' @ show_int y0 @ ''\" r=\"4\"/>'',
         ''    <circle id=\"ring-'' @ n @ ''\" class=\"a pring\" cx=\"920\" cy=\"'' @ show_int y0 @ ''\" r=\"5\"/>'', ''  </g>'']))"

type_synonym tags = "(nat \<times> cons, span list) dict"

text \<open>The row heights are whole numbers, printed as ints.\<close>

definition row_mid :: "nat \<Rightarrow> int res" where
  "row_mid r = rbind (rnth ROW_Y r) (\<lambda>y. Inr (\<lfloor>y\<rfloor> + 15))"

definition row_lines :: "nat \<Rightarrow> string list res" where
  "row_lines r =
     rbind (row_mid r) (\<lambda>c. Inr
       [''  <rect class=\"track\" x=\"294\" y=\"'' @ show_int (c - 3) @ ''\" width=\"160\" height=\"6\" rx=\"3\"/>'',
        ''  <rect id=\"dl-r'' @ show_nat r @ ''\" class=\"a lin bar\" x=\"294\" y=\"'' @ show_int (c - 3) @ ''\" width=\"160\" height=\"6\" rx=\"3\"/>'',
        ''  <text id=\"ok-r'' @ show_nat r @ ''\" class=\"a ok\" x=\"374\" y=\"'' @ show_int (c + 13) @ ''\">'' @ tick_mark @ '' acked by C1</text>''])"

definition tag_line :: "nat \<times> cons \<Rightarrow> string res" where
  "tag_line = (\<lambda>(r, m).
     rbind (row_mid r) (\<lambda>c. Inr
       (''  <g id=\"tag-r'' @ show_nat r @ ''-'' @ cons_name m @ ''\" class=\"a\"><rect class=\"chip\" x=\"248\" y=\"'' @ show_int (c - 9)
        @ ''\" width=\"36\" height=\"18\" rx=\"9\"/><text class=\"ttxt\" x=\"266\" y=\"'' @ show_int c @ ''\">'' @ cons_name m @ ''</text></g>'')))"

definition rows_svg :: "tags \<Rightarrow> string res" where
  "rows_svg tags =
     rbind (rmap row_lines [0..<length ROW_Y]) (\<lambda>rs.
     rbind (rmap tag_line (sort (dkeys tags))) (\<lambda>ts.
     Inr (join nl (concat rs @ ts))))"

section \<open>Jobs, rows, consumers\<close>

text \<open>The wake dots, the pop dots, and each pop dot's arrival against the run it starts.\<close>

definition draw_wake :: "nat \<times> rat \<times> cons \<Rightarrow> kfu \<Rightarrow> kfu res" where
  "draw_wake = (\<lambda>(i, t, m) K.
     rbind (walk (''wd'' @ show_nat i) t (WAKE_PATH m) V_close
       (add_element (''  <circle id=\"wd'' @ show_nat i @ ''\" class=\"a lin wdot\" cx=\"0\" cy=\"0\" r=\"5\"/>'') K)) (\<lambda>(_, K').
     Inr K'))"

definition run_start :: "cons \<Rightarrow> string \<Rightarrow> crun list \<Rightarrow> rat res" where
  "run_start m j rs = (case List.find (\<lambda>r. r_c r = m \<and> r_job r = j) rs of None \<Rightarrow> Inl StopIteration | Some r \<Rightarrow> Inr (r_start r))"

definition draw_pop :: "crun list \<Rightarrow> nat \<times> rat \<times> cons \<times> string \<times> string \<Rightarrow> kfu \<Rightarrow> kfu res" where
  "draw_pop rs = (\<lambda>(i, t, m, j, _) K.
     rbind (walk (''gd'' @ show_nat i) t (POP_PATH m) V_close
       (add_element (''  <circle id=\"gd'' @ show_nat i @ ''\" class=\"a lin dot\" cx=\"0\" cy=\"0\" r=\"6\"/>'') K)) (\<lambda>(arrive, K').
     rbind (run_start m j rs) (\<lambda>st.
     rbind (rcheck (\<bar>arrive - st\<bar> < 1 / 10 ^ 9)) (\<lambda>_. Inr K'))))"

definition item_markup :: "string \<Rightarrow> string" where
  "item_markup j = ''  <g id=\"item'' @ j @ ''\" class=\"a\"><rect class=\"item\" x=\"0\" y=\"0\" width=\"30\" height=\"30\" rx=\"5\"/>''
     @ ''<text class=\"itxt\" x=\"15\" y=\"15\">'' @ j @ ''</text></g>''"

definition draw_jobs :: "close_sim \<Rightarrow> kfu \<Rightarrow> kfu res" where
  "draw_jobs s K =
     (let K1 = fold (\<lambda>(j, pts). kf (''item'' @ j) pts) (q_items s) K;
          K2 = flash ''enq-glow'' (map (\<lambda>t. (t - 5 / 100, t + 25 / 100)) (q_calls s)) (VFlt (25 / 100)) (12 / 100) (25 / 100) K1
      in rbind (rfold draw_wake (enumerate 0 (q_wakes s)) K2) (\<lambda>K3.
         rbind (rfold (draw_pop (q_runs s)) (enumerate 0 (q_pops s)) K3) (\<lambda>K4.
         Inr (fold (\<lambda>(j, _). add_element (item_markup j)) ENQ_close K4))))"

definition tags_of :: "centry list \<Rightarrow> tags" where
  "tags_of es = foldl (\<lambda>d e. dappend (e_row e, e_owner e) (e_t e + POP_MOVE, e_end e) d) [] es"

definition draw_row_close :: "centry list \<Rightarrow> nat \<Rightarrow> kfu \<Rightarrow> kfu res" where
  "draw_row_close es r K =
     rbind (bar (''dl-r'' @ show_nat r)
       (map (\<lambda>e. (e_t e, e_end e, Some ((e_end e - e_t e) / VT_close))) (filter (\<lambda>e. e_row e = r) es)) K) (\<lambda>K1.
     Inr (flash (''ok-r'' @ show_nat r)
       (map (\<lambda>e. (e_end e, e_end e + 12 / 10)) (filter (\<lambda>e. e_row e = r \<and> e_how e = ''ack'') es)) (VInt 1) (12 / 100) (25 / 100) K1))"

definition draw_rows :: "close_sim \<Rightarrow> kfu \<Rightarrow> kfu res" where
  "draw_rows s K =
     (let K1 = fold (\<lambda>((r, m), spans). flash (''tag-r'' @ show_nat r @ ''-'' @ cons_name m) spans (VInt 1) (15 / 100) (25 / 100))
                 (tags_of (q_entries s)) K
      in rfold (draw_row_close (q_entries s)) [0..<3] K1)"

text \<open>A run without an end would be a tuple with None, which no arithmetic takes.\<close>

definition run_end :: "crun \<Rightarrow> rat res" where
  "run_end r = (case r_end r of None \<Rightarrow> Inl TypeError | Some e \<Rightarrow> Inr e)"

definition run_bar :: "crun \<Rightarrow> bar_span res" where
  "run_bar r = rbind (run_end r) (\<lambda>e.
     Inr (r_start r, e, case r_frac r of None \<Rightarrow> None | Some f \<Rightarrow> if f = 0 then None else Some f))"

definition run_span :: "crun \<Rightarrow> span res" where
  "run_span r = rbind (run_end r) (\<lambda>e. Inr (r_reserved r, e))"

definition runs_by :: "cons \<Rightarrow> close_sim \<Rightarrow> crun list" where
  "runs_by m s = filter (\<lambda>r. r_c r = m) (q_runs s)"

definition labels_close :: "cons \<Rightarrow> close_sim \<Rightarrow> (nat \<times> string) list" where
  "labels_close m s = map (\<lambda>r. (r_slot r, r_job r)) (runs_by m s)"

definition draw_consumer :: "rat \<Rightarrow> close_sim \<Rightarrow> cons \<Rightarrow> kfu \<Rightarrow> kfu res" where
  "draw_consumer xf0 s m K =
     (let runs = runs_by m s; n = cons_name m
      in rbind (rfold (\<lambda>sl K. rbind (rmap run_bar (filter (\<lambda>r. r_slot r = sl) runs))
                  (\<lambda>sps. bar (''bar-'' @ n @ ''-'' @ show_nat sl) sps K)) [0..<nat CONC_close] K) (\<lambda>K1.
         rbind (rfold (\<lambda>r K. rbind (run_span r) (\<lambda>sp.
                  Inr (flash (''jl-'' @ n @ ''-'' @ show_nat (r_slot r) @ ''-'' @ r_job r) [sp] (VInt 1) (12 / 100) (25 / 100) K))) runs K1) (\<lambda>K2.
         rbind (rmap run_span runs) (\<lambda>sps.
         Inr (pulse_close (''ring-'' @ n) (filter (\<lambda>t. t + 6 / 10 \<le> xf0) (c_ticks (q_c s m)))
               (flash (''glow-'' @ n) sps (VFlt (14 / 100)) (12 / 100) (25 / 100) K2))))))"

section \<open>States, chips, notes\<close>

text \<open>The moments of the run that the drawing uses, read from the marks.\<close>

record close_times =
  ct_close :: rat
  ct_rel :: rat
  ct_wake :: rat
  ct_stay :: rat
  ct_exit :: rat
  ct_end :: rat

definition xf0_of :: "close_times \<Rightarrow> rat" where "xf0_of T = ct_end T + HOLD_close"
definition xf1_of :: "close_times \<Rightarrow> rat" where "xf1_of T = xf0_of T + XFADE_close"

definition close_times_of :: "close_sim \<Rightarrow> close_times res" where
  "close_times_of s =
     rbind (end_close s) (\<lambda>en.
     rbind (need (k_close (q_mark s))) (\<lambda>cl.
     rbind (need (k_release (q_mark s))) (\<lambda>(rel_t, _).
     rbind (need (k_close_wake (q_mark s))) (\<lambda>(wake_t, _).
     rbind (need (k_stays (q_mark s) C2)) (\<lambda>(t_stay, _).
     rbind (need (k_exit (q_mark s))) (\<lambda>ex.
     Inr \<lparr>ct_close = cl, ct_rel = rel_t, ct_wake = wake_t, ct_stay = t_stay, ct_exit = ex, ct_end = en\<rparr>))))))"

text \<open>Busy counts are not negative (\<open>set_busy\<close> asserts it), so they are state numbers.\<close>

definition busy_states :: "(rat \<times> int) list \<Rightarrow> nat \<Rightarrow> (rat \<times> nat) list" where
  "busy_states lg k = map (\<lambda>(t, b). (t, k + nat b)) lg"

definition fade_box :: "rat \<Rightarrow> rat \<Rightarrow> close_times \<Rightarrow> props \<Rightarrow> props \<Rightarrow> point list" where
  "fade_box t0 d T a b = [(0, a), (t0, a), (t0 + d, b), (xf0_of T, b), (xf1_of T, a)]"

definition draw_states :: "close_times \<Rightarrow> close_sim \<Rightarrow> kfu \<Rightarrow> kfu res" where
  "draw_states T s K =
     (let xm = xf0_of T + XFADE_close / 2;
          b1 = busy_states (q_busy_log s C1) 1;
          b2 = busy_states (filter (\<lambda>(t, b). t < ct_close T) (q_busy_log s C2)) 0
      in rbind (states ''st-C1-'' (collapse (15 / 100) ([(0, 0), (C1_START, 1)] @ b1 @ [(xm, 0)])) 5 (8 / 100) K) (\<lambda>K1.
         rbind (states ''st-C2-'' (collapse (15 / 100) ([(0, 0)] @ b2 @ [(ct_close T, 4), (ct_exit T, 5), (xm, 0)])) 6 (8 / 100) K1) (\<lambda>K2.
         let K3 = kf ''c-C1'' (fade_box C1_START (3 / 10) T (op (VFlt (15 / 100))) (op (VInt 1))) K2;
             K4 = kf ''c-C2'' (fade_box (ct_exit T) (1 / 2) T (op (VInt 1)) (op (VFlt (15 / 100)))) K3
         in Inr (chip C2 (q_idle_log s C2) True (xf0_of T) (chip C1 (q_idle_log s C1) False (xf0_of T) K4)))))"

text \<open>Where each job landed, and the notes; the labels under \<open>:idle\<close> are shown one at a time.\<close>

definition landed_of :: "close_sim \<Rightarrow> (string, rat) dict res" where
  "landed_of s =
     rmap (\<lambda>(j, _). rbind (need (dget (q_where s) j)) (\<lambda>l. rbind (rnth l 0) (\<lambda>x. Inr (j, fst x)))) ENQ_close"

definition nowake_spans :: "close_sim \<Rightarrow> span list res" where
  "nowake_spans s =
     rbind (landed_of s) (\<lambda>landed.
     rmap (\<lambda>(j, _, _). rbind (need (dget landed j)) (\<lambda>t. Inr (t, t + 1 / 2))) (filter (\<lambda>(j, n, w). w = 0) (q_push_wakes s)))"

definition apart :: "span list \<Rightarrow> bool" where
  "apart sps \<longleftrightarrow> list_all (\<lambda>(a, b). snd a + 25 / 100 \<le> fst b) (zip sps (tl sps))"

definition note_kf :: "string \<Rightarrow> span list \<Rightarrow> kfu \<Rightarrow> kfu" where
  "note_kf name spans K = flash name spans (VInt 1) (12 / 100) (25 / 100) K"

definition draw_notes :: "close_times \<Rightarrow> close_sim \<Rightarrow> kfu \<Rightarrow> kfu res" where
  "draw_notes T s K =
     rbind (nowake_spans s) (\<lambda>nowake.
     let steps_end = ct_wake T + STEPS_FOR;
         nudge = [(ct_stay T, ct_stay T + 11 / 10)]
     in rbind (rcheck (ct_close T < ct_rel T \<and> ct_rel T < ct_wake T)) (\<lambda>_.
        let K1 = note_kf ''note-nudge'' nudge (note_kf ''why-nowake'' nowake K);
            K2 = fold (\<lambda>(k, t0). note_kf k [(t0, steps_end)])
                   [(''note-leave'', ct_close T), (''note-release'', ct_rel T), (''note-wake'', ct_wake T)] K1;
            under_idle = sort (concat (map (merge (37 / 100)) [nowake, nudge, [(ct_close T, steps_end)]]))
        in rbind (rcheck (apart under_idle)) (\<lambda>_.
           Inr (note_kf ''replay'' [(xf0_of T - 1 / 10, xf1_of T + 2 / 10)]
                 (note_kf ''why-c2'' [(ct_rel T, ct_exit T + 16 / 10)] K2)))))"

section \<open>The still frame, the template, the file\<close>

definition still_close :: "close_times \<Rightarrow> close_sim \<Rightarrow> rat res" where
  "still_close T s =
     (let chip_gone = ct_wake T + CHIP_OUT;
          dot_arrive = ct_wake T + travel (WAKE_PATH C1) V_close;
          still = py_round 2 ((chip_gone + dot_arrive) / 2)
      in rbind (rcheck (ct_rel T + REL \<le> still \<and> chip_gone \<le> still \<and> still < dot_arrive \<and> still < ct_wake T + STEPS_FOR)) (\<lambda>_.
         rbind (rcheck (ct_exit T > still)) (\<lambda>_.
         rbind (rcheck (\<not> list_ex (\<lambda>(t, _). ct_wake T < t \<and> t \<le> still) (q_idle_log s C1))) (\<lambda>_.
         Inr still))))"

definition close_template :: "string \<Rightarrow> close_sim \<Rightarrow> string res" where
  "close_template tpl0 s =
     (let t1 = replace_all ''{VT}'' (fmt_g VT_close) tpl0;
          t2 = (if POP_close > 1
                then replace_all ''right away, one call per free slot,'' ''right away in one call,''
                      (replace_all ''one DequeueWithAckId call per free slot'' ''one DequeueBatchWithAckIds call for all free slots''
                        (replace_all ''DequeueWithAckId per free slot'' ''DequeueBatchWithAckIds: all free slots'' t1))
                else t1)
      in rbind (rcheck (POP_close = 1 \<or> \<not> sublist ''DequeueWithAckId '' t2)) (\<lambda>_.
         rbind (rows_svg (tags_of (q_entries s))) (\<lambda>rs.
         Inr (replace_all ''<!--CONSUMERS-->'' (consumer_svg C1 (labels_close C1 s) @ nl @ consumer_svg C2 (labels_close C2 s))
               (replace_all ''<!--ROWS-->'' rs t2)))))"

definition draw_close :: "close_sim \<Rightarrow> kfu \<Rightarrow> (kfu \<times> rat) res" where
  "draw_close s K =
     rbind (close_times_of s) (\<lambda>T.
     rbind (draw_jobs s K) (\<lambda>K1.
     rbind (draw_rows s K1) (\<lambda>K2.
     rbind (rfold (draw_consumer (xf0_of T) s) [C1, C2] K2) (\<lambda>K3.
     rbind (draw_states T s K3) (\<lambda>K4.
     rbind (draw_notes T s K4) (\<lambda>K5.
     rbind (seams K5) (\<lambda>_.
     rbind (still_close T s) (\<lambda>still.
     Inr (K5, still)))))))))"

text \<open>\<open>build\<close> on the finished simulation: the checks, the drawing, and the text of the written file.\<close>

definition build_close :: "(string \<Rightarrow> string option) \<Rightarrow> close_sim \<Rightarrow> kfu \<Rightarrow> (kfu \<times> string) res" where
  "build_close files s K =
     rbind (close_facts s) (\<lambda>D.
     rbind (draw_close s (K\<lparr>rules := [], elements := [], loop_D := D\<rparr>)) (\<lambda>(K1, still).
     rbind (read_file files ''close.tpl.svg'') (\<lambda>tpl0.
     rbind (close_template tpl0 s) (\<lambda>tpl.
     rbind (render files tpl still None K1) (\<lambda>out.
     Inr (K1, out))))))"

end
