(* ===== verification/Draw_Store.thy ===== *)
theory Draw_Store
  imports Draw Walks
begin

text \<open>
  What every keyframe builder keeps. The locale \<open>painter\<close> is the contract of a relation between the
  store before and after: it holds of \<open>kf\<close>, of an added element, and of steps in a row. Inside it, every builder of \<open>kfu\<close> and every loop of builders has it.
\<close>

section \<open>The contract\<close>

locale painter =
  fixes P :: "kfu \<Rightarrow> kfu \<Rightarrow> bool"
  assumes same: "P K K"
    and seq: "P K K1 \<Longrightarrow> P K1 K2 \<Longrightarrow> P K K2"
    and kf: "P K (kf name pts K)"
    and elem: "P K (add_element e K)"
begin

lemma P_kf: "P K K1 \<Longrightarrow> P K (kf name pts K1)"
  using seq kf by blast

lemma P_elem: "P K K1 \<Longrightarrow> P K (add_element e K1)"
  using seq elem by blast

lemma P_fold:
  assumes "P K K1" and "\<And>x A B. x \<in> set xs \<Longrightarrow> P A B \<Longrightarrow> P A (f x B)"
  shows "P K (fold f xs K1)"
  using assms by (induction xs arbitrary: K1) auto

text \<open>A loop whose state holds the store, found by \<open>g\<close>.\<close>

lemma P_rfold_in:
  assumes "rfold f xs a = Inr b" and "P K (g a)" and "\<And>x a b. x \<in> set xs \<Longrightarrow> f x a = Inr b \<Longrightarrow> P (g a) (g b)"
  shows "P K (g b)"
  using assms
proof (induction xs arbitrary: a)
  case (Cons x xs)
  from Cons.prems(1) obtain a1 where a1: "f x a = Inr a1" "rfold f xs a1 = Inr b" by auto
  have "P K (g a1)" using seq [OF Cons.prems(2) Cons.prems(3) [OF _ a1(1)]] by simp
  from Cons.IH [OF a1(2) this] show ?case using Cons.prems(3) by (meson list.set_intros(2))
qed simp

lemma P_rfold:
  assumes "rfold f xs K1 = Inr K2" and "P K K1" and "\<And>x A B. x \<in> set xs \<Longrightarrow> f x A = Inr B \<Longrightarrow> P A B"
  shows "P K K2"
  by (rule P_rfold_in [where g = "\<lambda>x. x", OF assms])

lemma P_flash: "P K K1 \<Longrightarrow> P K (flash name sps peak rise fall K1)"
  by (simp add: flash_def flash_pts_def P_kf)

lemma P_ring: "P K K1 \<Longrightarrow> P K (ring name ts gap K1)"
  by (simp add: ring_def P_kf)

lemma P_bar: "bar name sps K1 = Inr K2 \<Longrightarrow> P K K1 \<Longrightarrow> P K K2"
  by (auto simp: bar_def P_kf)

lemma P_states: "states pre cs n fade K1 = Inr K2 \<Longrightarrow> P K K1 \<Longrightarrow> P K K2"
  by (auto simp: states_def Let_def split: if_splits intro!: P_fold P_kf)

lemma P_walk: "walk name t pts v K1 = Inr (a, K2) \<Longrightarrow> P K K1 \<Longrightarrow> P K K2"
  by (auto simp: walk_def Let_def P_kf split: list.splits if_splits prod.splits)

lemma P_walk_wake: "walk_wake name t pts v eop hold K1 = Inr (a, K2) \<Longrightarrow> P K K1 \<Longrightarrow> P K K2"
  by (auto simp: walk_wake_def Let_def P_kf split: list.splits if_splits prod.splits)

lemmas P_builders = same P_kf P_elem P_flash P_ring

end

section \<open>A store that only grows, by tracks in time order\<close>

definition track_sorted :: "string \<times> point list \<Rightarrow> bool" where
  "track_sorted r \<longleftrightarrow> sorted (map fst (snd r))"

definition extends :: "kfu \<Rightarrow> kfu \<Rightarrow> bool" where
  "extends K K' \<longleftrightarrow> loop_D K' = loop_D K \<and> LEGEND K' = LEGEND K \<and> prefix (elements K) (elements K')
     \<and> prefix (rules K) (rules K') \<and> list_all track_sorted (drop (length (rules K)) (rules K'))"

lemma extends_trans: "extends K K1 \<Longrightarrow> extends K1 K2 \<Longrightarrow> extends K K2"
  by (auto simp: extends_def prefix_def)

interpretation store: painter extends
proof
  show "extends K K" for K by (simp add: extends_def)
  show "extends K K1 \<Longrightarrow> extends K1 K2 \<Longrightarrow> extends K K2" for K K1 K2 by (rule extends_trans)
  show "extends K (kf name pts K)" for pts name K by (simp add: extends_def kf_def track_sorted_def)
  show "extends K (add_element e K)" for K e by (simp add: extends_def add_element_def)
qed

lemma extends_sorted: "extends K K' \<Longrightarrow> rules K = [] \<Longrightarrow> list_all track_sorted (rules K')"
  by (simp add: extends_def)

text \<open>What the seam check gives: every track fits the loop and ends in the state it starts in.\<close>

definition seamless :: "rat \<Rightarrow> string \<times> point list \<Rightarrow> bool" where
  "seamless D r \<longleftrightarrow> (\<exists>ps. padded D (fst r) (snd r) = Inr ps \<and> same_ends ps)"

lemma seam_iff: "seam D r = Inr u \<longleftrightarrow> seamless D r"
  by (auto simp: seam_def seamless_def split: prod.splits)

lemma seams_iff: "seams K = Inr u \<longleftrightarrow> list_all (seamless (loop_D K)) (rules K)"
proof -
  have "rfold (\<lambda>r _. seam D r) rs v = Inr u \<longleftrightarrow> list_all (seamless D) rs" for D rs v
    by (induction rs) (auto simp: seam_iff)
  then show ?thesis by (simp add: seams_def)
qed

lemma seamless_fits: "seamless D r \<Longrightarrow> snd r \<noteq> [] \<and> fst (last (snd r)) \<le> D"
  using padded_Inr_iff by (auto simp: seamless_def)

end
