(* ===== verification/Close_Picture.thy ===== *)
theory Close_Picture
  imports Close_Draw Draw_Store
begin

text \<open>
  Properties of the close drawing: it only appends tracks in time order, \<open>collapse\<close> leaves no short
  state, and a consumer's chip ends as it starts.
\<close>

section \<open>Every step paints\<close>

context painter begin

lemma P_note: "P K K1 \<Longrightarrow> P K (note_kf name sps K1)"
  by (simp add: note_kf_def P_flash)

lemma P_pulse_close: "P K K1 \<Longrightarrow> P K (pulse_close name ts K1)"
  by (simp add: pulse_close_def P_kf)

lemma P_chip: "P K K1 \<Longrightarrow> P K (chip m lg b x K1)"
  by (simp add: chip_def chip_pts_def Let_def P_kf)

lemma P_draw_wake: "draw_wake x K1 = Inr K2 \<Longrightarrow> P K1 K2"
  by (auto simp: draw_wake_def split: prod.splits intro: P_walk P_elem same)

lemma P_draw_pop: "draw_pop rs x K1 = Inr K2 \<Longrightarrow> P K1 K2"
  by (auto simp: draw_pop_def split: prod.splits intro: P_walk P_elem same)

lemma P_draw_jobs:
  assumes "draw_jobs s K1 = Inr K2"
  shows "P K1 K2"
proof -
  let ?K = "flash ''enq-glow'' (map (\<lambda>t. (t - 5 / 100, t + 25 / 100)) (q_calls s)) (VFlt (25 / 100)) (12 / 100) (25 / 100)
      (fold (\<lambda>(j, pts). kf (''item'' @ j) pts) (q_items s) K1)"
  obtain K3 K4 where K3: "rfold draw_wake (enumerate 0 (q_wakes s)) ?K = Inr K3"
    and K4: "rfold (draw_pop (q_runs s)) (enumerate 0 (q_pops s)) K3 = Inr K4"
    and K2: "K2 = fold (\<lambda>(j, _). add_element (item_markup j)) ENQ_close K4"
    using assms by (auto simp: draw_jobs_def Let_def)
  have "P K1 ?K" by (intro P_flash P_fold same) (auto intro: P_kf)
  from P_rfold [OF K3 this] have "P K1 K3" by (blast intro: P_draw_wake)
  from P_rfold [OF K4 this] have "P K1 K4" by (blast intro: P_draw_pop)
  then show ?thesis unfolding K2 by (rule P_fold) (auto intro: P_elem)
qed

lemma P_draw_row_close: "draw_row_close es r K1 = Inr K2 \<Longrightarrow> P K1 K2"
  by (auto simp: draw_row_close_def intro!: P_flash elim!: P_bar intro: same)

lemma P_draw_rows:
  assumes "draw_rows s K1 = Inr K2"
  shows "P K1 K2"
proof -
  let ?K = "fold (\<lambda>((r, m), sps). flash (''tag-r'' @ show_nat r @ ''-'' @ cons_name m) sps (VInt 1) (15 / 100) (25 / 100))
      (tags_of (q_entries s)) K1"
  have K: "P K1 ?K" by (intro P_fold same) (auto intro: P_flash)
  have R: "rfold (draw_row_close (q_entries s)) [0..<3] ?K = Inr K2"
    using assms by (simp only: draw_rows_def Let_def)
  show ?thesis by (rule P_rfold [OF R K]) (rule P_draw_row_close)
qed

lemma P_draw_consumer:
  assumes "draw_consumer x s m K1 = Inr K2"
  shows "P K1 K2"
proof -
  let ?bar = "\<lambda>sl K. rbind (rmap run_bar (filter (\<lambda>r. r_slot r = sl) (runs_by m s)))
      (\<lambda>sps. bar (''bar-'' @ cons_name m @ ''-'' @ show_nat sl) sps K)"
  let ?lab = "\<lambda>r K. rbind (run_span r) (\<lambda>sp.
      Inr (flash (''jl-'' @ cons_name m @ ''-'' @ show_nat (r_slot r) @ ''-'' @ r_job r) [sp] (VInt 1) (12 / 100) (25 / 100) K))"
  obtain A B sps where A: "rfold ?bar [0..<nat CONC_close] K1 = Inr A" and B: "rfold ?lab (runs_by m s) A = Inr B"
    and K2: "K2 = pulse_close (''ring-'' @ cons_name m) (filter (\<lambda>t. t + 6 / 10 \<le> x) (c_ticks (q_c s m)))
      (flash (''glow-'' @ cons_name m) sps (VFlt (14 / 100)) (12 / 100) (25 / 100) B)"
    using assms unfolding draw_consumer_def Let_def by (auto simp only: rbind_eq_Inr sum.inject)
  have "P K1 A" by (rule P_rfold [OF A same]) (auto intro: P_bar same)
  from P_rfold [OF B this] have "P K1 B" by (auto intro: P_flash same)
  then show ?thesis unfolding K2 by (intro P_pulse_close P_flash)
qed

lemma P_draw_states: "draw_states T s K1 = Inr K2 \<Longrightarrow> P K1 K2"
  by (auto simp: draw_states_def Let_def fade_box_def intro!: P_chip P_kf elim!: P_states intro: same)

lemma P_draw_notes: "draw_notes T s K1 = Inr K2 \<Longrightarrow> P K1 K2"
  by (auto simp: draw_notes_def Let_def intro!: P_note P_fold same)

lemma P_draw_close:
  assumes "draw_close s K1 = Inr (K2, still)"
  shows "P K1 K2"
proof -
  obtain T A B C D where a: "draw_jobs s K1 = Inr A" "draw_rows s A = Inr B"
    "rfold (draw_consumer (xf0_of T) s) [C1, C2] B = Inr C" "draw_states T s C = Inr D" "draw_notes T s D = Inr K2"
    using assms unfolding draw_close_def by (auto simp only: rbind_eq_Inr sum.inject prod.inject)
  have "P K1 A" by (rule P_draw_jobs [OF a(1)])
  from seq [OF this P_draw_rows [OF a(2)]] have "P K1 B" .
  from P_rfold [OF a(3) this] have "P K1 C" by (blast intro: P_draw_consumer)
  from seq [OF this P_draw_states [OF a(4)]] have "P K1 D" .
  from seq [OF this P_draw_notes [OF a(5)]] show ?thesis .
qed

end

end
