(* ===== verification/Wake_Draw.thy ===== *)
theory Wake_Draw
  imports Wake_Facts Draw
begin

text \<open>
  The drawing half of \<open>gen_wake.build\<close>: items, wakes and their captions, pops, the chips of \<open>:idle\<close>
  with a label for each change, the consumers with the nudge pulse train (\<open>pulse\<close>), the still frame,
  the description, and the written file.
\<close>

section \<open>The pulse train\<close>

type_synonym pulse_pt = "rat \<times> rat \<times> rat"

text \<open>A pulse at \<open>phase + k\<close> for \<open>k\<close> from -1 to the loop's last second.\<close>

definition pulse_at :: "rat \<Rightarrow> rat \<Rightarrow> rat \<Rightarrow> rat \<Rightarrow> pulse_pt list" where
  "pulse_at len peak grow t = [(t, 0, 1), (t + 8 / 100, peak, 125 / 100), (t + len, 0, grow)]"

definition train :: "rat \<Rightarrow> rat \<Rightarrow> rat \<Rightarrow> rat \<Rightarrow> int \<Rightarrow> pulse_pt list" where
  "train phase len peak grow n = concat (map (\<lambda>k. pulse_at len peak grow (phase + of_int k)) [-1..n])"

text \<open>The linear interpolation between neighbours, at the first pair that holds \<open>x\<close>.\<close>

fun interp :: "(pulse_pt \<times> pulse_pt) list \<Rightarrow> rat \<Rightarrow> (rat \<times> rat) res" where
  "interp [] x = Inl AssertionError"
| "interp (((a, oa, sa), (b, ob, sb)) # ps) x =
     (if a \<le> x \<and> x \<le> b
      then if b = a then Inl ZeroDivisionError
           else let u = (x - a) / (b - a) in Inr (oa + u * (ob - oa), sa + u * (sb - sa))
      else interp ps x)"

definition near :: "rat \<times> rat \<Rightarrow> rat \<times> rat \<Rightarrow> bool" where
  "near p q \<longleftrightarrow> \<bar>fst p - fst q\<bar> < 1 / 10 ^ 9 \<and> \<bar>snd p - snd q\<bar> < 1 / 10 ^ 9"

definition pulse_point :: "pulse_pt \<Rightarrow> point" where
  "pulse_point = (\<lambda>(t, op, sc). (py_round 3 t, op_tr (VStr (fmt_fixed 3 op)) (''scale('' @ fmt_fixed 3 sc @ '')'')))"

definition pulse_wake :: "string \<Rightarrow> rat \<Rightarrow> rat \<Rightarrow> rat \<Rightarrow> rat \<Rightarrow> kfu \<Rightarrow> kfu res" where
  "pulse_wake name phase len peak grow K =
     (let D = loop_D K
      in rbind (rcheck (D = of_int \<lfloor>D\<rfloor>)) (\<lambda>_.
         let pts = train phase len peak grow \<lfloor>D\<rfloor>; f = interp (zip pts (tl pts))
         in rbind (f 0) (\<lambda>v0.
            rbind (f D) (\<lambda>vD.
            rbind (rcheck (near v0 vD)) (\<lambda>_.
            Inr (kf name (map pulse_point ([(0, v0)] @ filter (\<lambda>p. 0 < fst p \<and> fst p < D) pts @ [(D, vD)])) K))))))"

section \<open>Items, wakes, pops\<close>

definition ITEM_T :: rat where "ITEM_T = 4 / 10"
definition PROD_wake :: "rat \<times> rat" where "PROD_wake = (100, 326)"
definition HEAD_X :: rat where "HEAD_X = 392"
definition SLOT_Y :: rat where "SLOT_Y = 326"
definition SLOT_wake :: "(nat, rat) dict" where "SLOT_wake = [(0, 392), (1, 356), (2, 320)]"

text \<open>\<open>flash\<close> with its default rise and fall.\<close>

definition flash_wake :: "string \<Rightarrow> span list \<Rightarrow> cssv \<Rightarrow> kfu \<Rightarrow> kfu" where
  "flash_wake name sps peak K = flash name sps peak (12 / 100) (25 / 100) K"

definition draw_item :: "wake_sim \<Rightarrow> rat \<times> string \<Rightarrow> kfu \<Rightarrow> kfu res" where
  "draw_item s = (\<lambda>(t, job) K.
     rbind (the_first (\<lambda>(tp, c, j, a). j = job) (wlog_pop s)) (\<lambda>(tp, _).
     rbind (the_first (\<lambda>(te, j, n, w, b). j = job) (wlog_enq s)) (\<lambda>(_, _, n, _).
     rbind (rcheck (n = 0 + 1)) (\<lambda>_.
     case dget SLOT_wake 0 of None \<Rightarrow> Inl KeyError
     | Some x \<Rightarrow>
       Inr (kf (''item'' @ job)
         [at_pt (t - ITEM_T) (fst PROD_wake) (snd PROD_wake) (VInt 0) None,
          at_pt (t - ITEM_T + 1 / 10) (fst PROD_wake + 12) (snd PROD_wake) (VInt 1) None,
          at_pt t x SLOT_Y (VInt 1) None, at_pt tp HEAD_X SLOT_Y (VInt 1) None,
          at_pt (tp + 15 / 100) (HEAD_X + 8) SLOT_Y (VInt 0) None]
         (add_element (''<g id=\"item'' @ job @ ''\" class=\"a\"><rect class=\"item\" x=\"0\" y=\"0\" width=\"30\" height=\"30\" rx=\"5\"/>''
            @ ''<text class=\"itxt\" x=\"15\" y=\"15\">'' @ job @ ''</text></g>'') K))))))"

definition draw_wake_dot :: "nat \<times> rat \<times> cons \<times> rat \<times> string \<Rightarrow> kfu \<Rightarrow> kfu res" where
  "draw_wake_dot = (\<lambda>(i, t, c, arrive, _) K.
     let n = show_nat i;
         K1 = add_element (''<path id=\"whl'' @ n @ ''\" class=\"a shl\" d=\"M440 173H'' @ fmt_g (PORT c) @ ''V222\"/>'') K;
         K2 = flash (''whl'' @ n) [(t, arrive)] (VFlt (55 / 100)) (6 / 100) (3 / 10) K1;
         K3 = add_element (''<circle id=\"wdot'' @ n @ ''\" class=\"a lin sdot\" cx=\"0\" cy=\"0\" r=\"6\"/>'') K2
     in rbind (walk_wake (''wdot'' @ n) (t - 4 / 100) (wake_route c) WAKE_V (VInt 0) 0 K3) (\<lambda>(_, K4). Inr K4))"

text \<open>The caption of each enqueue's wake ends before the next enqueue's.\<close>

definition woken_text :: "cons list \<Rightarrow> string" where
  "woken_text woken = (let w = join '', '' (map cons_name woken) in if w = [] then ''none'' else w)"

fun draw_captions :: "(rat \<times> string \<times> nat \<times> cons list \<times> cons set) list \<Rightarrow> kfu \<Rightarrow> kfu res" where
  "draw_captions [] K = Inr K"
| "draw_captions ((t, job, n, woken, _) # enqs) K =
     (let txt = ''wake('' @ show_nat n @ ''): SPOP '' @ arrow @ '' '' @ woken_text woken @ '', PUBLISH'';
          K1 = add_element (''<text id=\"wtxt'' @ job @ ''\" class=\"a ptxt\" x=\"311\" y=\"280\">'' @ txt @ ''</text>'') K;
          en = (case enqs of [] \<Rightarrow> t + 12 / 10 | e # _ \<Rightarrow> min (t + 12 / 10) (fst e - 3 / 10))
      in rbind (rcheck (en > t + 5 / 10 \<and> (case enqs of [] \<Rightarrow> True | e # _ \<Rightarrow> en + 25 / 100 \<le> fst e))) (\<lambda>_.
         draw_captions enqs (flash_wake (''wtxt'' @ job) [(t, en)] (VInt 1) K1)))"

definition draw_pop_dot :: "rat \<times> cons \<times> string \<times> rat \<Rightarrow> kfu \<Rightarrow> kfu res" where
  "draw_pop_dot = (\<lambda>(t, c, job, arrive) K.
     rbind (walk_wake (''pdot'' @ job) (t - 4 / 100) (pop_route c) POP_V (VInt 0) 0
       (add_element (''<circle id=\"pdot'' @ job @ ''\" class=\"a lin dot\" cx=\"0\" cy=\"0\" r=\"7\"/>'') K)) (\<lambda>(got, K1).
     rbind (rcheck (\<bar>got - arrive\<bar> < 1 / 100)) (\<lambda>_. Inr K1)))"

section \<open>Chips\<close>

fun CHIP_X :: "cons \<Rightarrow> int" where
  "CHIP_X C1 = 240"
| "CHIP_X C2 = 356"

text \<open>The dictionary \<open>LABEL\<close>; a pop that finds nothing has no entry.\<close>

fun label_of :: "why \<Rightarrow> (string option \<times> string \<times> string) res" where
  "label_of Spop = Inr (Some ''SPOP'', ''ptxt'', ''pink'')"
| "label_of ByNudge = Inr (None, ''note'', ''purple'')"
| "label_of ByLen = Inr (Some ''Len() = 0: SADD'', ''ftxt'', ''fg'')"
| "label_of PopMiss = Inl KeyError"

definition chip_events :: "cons \<Rightarrow> wake_sim \<Rightarrow> (rat \<times> bool \<times> why) list" where
  "chip_events c s = map (\<lambda>(t, cc, m, y). (t, m, y)) (filter (\<lambda>(t, cc, m, y). cc = c) (wlog_member s))"

definition stays_of :: "cons \<Rightarrow> wake_sim \<Rightarrow> rat list" where
  "stays_of c s = map fst (filter (\<lambda>(t, cc). cc = c) (wlog_stay s))"

fun chip_track :: "int \<Rightarrow> (rat \<times> bool \<times> why) list \<Rightarrow> int \<times> point list" where
  "chip_track cur [] = (cur, [])"
| "chip_track cur ((t, now_in, _) # es) =
     (let v = (if now_in then 1 else 0); (en, ps) = chip_track v es
      in (en, [(t, op (VInt cur)), (t + 2 / 10, op (VInt v))] @ ps))"

type_synonym chip_marks = "(string \<times> string, span list) dict \<times> (string, span list) dict"

definition label_event :: "rat list \<Rightarrow> rat \<times> bool \<times> why \<Rightarrow> chip_marks \<Rightarrow> chip_marks res" where
  "label_event starts = (\<lambda>(t, now_in, y) (labels, hls).
     rbind (label_of y) (\<lambda>(txt, cls, colour).
     let text1 = (case txt of Some x \<Rightarrow> x | None \<Rightarrow> if now_in then ''nudge: SADD'' else ''nudge: SREM'');
         later = filter (\<lambda>u. u > t) starts;
         nxt = (if later = [] then t + 9 else Min (set later))
     in Inr (dappend (text1, cls) (t, min (t + 11 / 10) (nxt - 3 / 10)) labels,
             dappend colour (t, t + 35 / 100) hls)))"

definition label_stay :: "(rat \<times> bool \<times> why) list \<Rightarrow> rat \<Rightarrow> chip_marks \<Rightarrow> chip_marks res" where
  "label_stay events t = (\<lambda>(labels, hls).
     let later = map fst (filter (\<lambda>(mt, now_in, _). mt > t \<and> now_in) events)
     in if later = [] then Inl ValueError
        else Inr (dappend (''busy: stays out'', ''note'') (t, Min (set later) - 3 / 10) labels,
                  dappend ''purple'' (t, t + 35 / 100) hls))"

definition draw_label :: "cons \<Rightarrow> nat \<times> (string \<times> string) \<times> span list \<Rightarrow> kfu \<Rightarrow> kfu" where
  "draw_label c = (\<lambda>(k, (txt, cls), spans) K.
     flash_wake (''cl'' @ cons_name c @ show_nat k) spans (VInt 1)
       (add_element (''<text id=\"cl'' @ cons_name c @ show_nat k @ ''\" class=\"a '' @ cls @ ''\" x=\"'' @ show_int (CHIP_X c)
          @ ''\" y=\"205\">'' @ txt @ ''</text>'') K))"

definition draw_highlight :: "cons \<Rightarrow> string \<times> span list \<Rightarrow> kfu \<Rightarrow> kfu" where
  "draw_highlight c = (\<lambda>(colour, spans) K.
     flash (''hl'' @ cons_name c @ colour) spans (VFlt (9 / 10)) (6 / 100) (3 / 10)
       (add_element (''<rect id=\"hl'' @ cons_name c @ colour @ ''\" class=\"a hl-'' @ colour @ ''\" x=\"'' @ show_int (CHIP_X c - 33)
          @ ''\" y=\"157\" width=\"66\" height=\"32\" rx=\"16\"/>'') K))"

definition draw_chip :: "wake_sim \<Rightarrow> cons \<Rightarrow> kfu \<Rightarrow> kfu res" where
  "draw_chip s c K =
     (let events = chip_events c s; stays = stays_of c s; starts = sort (map fst events @ stays);
          (cur, ps) = chip_track 1 events
      in rbind (rcheck (cur = 1)) (\<lambda>_.
         rbind (rfold (label_event starts) events ([], [])) (\<lambda>m1.
         rbind (rfold (label_stay events) stays m1) (\<lambda>(labels, hls).
         Inr (fold (draw_highlight c) hls (fold (draw_label c) (enumerate 0 labels)
               (kf (''chip'' @ cons_name c) ((0, op (VInt 1)) # ps) K)))))))"

section \<open>Consumers\<close>

definition runs_wake :: "cons \<Rightarrow> wake_sim \<Rightarrow> (string \<times> rat \<times> rat) list" where
  "runs_wake c s = map (\<lambda>(cc, j, a, e). (j, a, e)) (filter (\<lambda>(cc, j, a, e). cc = c) (wlog_run s))"

definition status_markup :: "cons \<Rightarrow> nat \<Rightarrow> string \<Rightarrow> string" where
  "status_markup c k txt = ''<text id=\"st'' @ cons_name c @ show_nat k @ ''\" class=\"a st\" x=\"'' @ fmt_g (X0 c + 80) @ ''\" y=\"273\">'' @ txt @ ''</text>''"

definition draw_poke :: "cons \<Rightarrow> rat list \<Rightarrow> kfu \<Rightarrow> kfu" where
  "draw_poke c pokes K =
     (let x = X0 c + 136
      in if pokes = [] then K
         else flash_wake (''poke'' @ cons_name c) (map (\<lambda>t. (t, t + 5 / 10)) pokes) (VInt 1)
           (add_element (''<g id=\"poke'' @ cons_name c @ ''\" class=\"a\"><rect class=\"tag\" x=\"'' @ fmt_g (x - 78) @ ''\" y=\"298\" width=\"81\" height=\"16\" ''
              @ ''rx=\"4\"/><text class=\"note\" x=\"'' @ fmt_g x @ ''\" y=\"306\" style=\"text-anchor:end\">nudge: poke</text></g>'') K))"

definition draw_consumer_wake :: "wake_sim \<Rightarrow> cons \<Rightarrow> kfu \<Rightarrow> kfu res" where
  "draw_consumer_wake s c K =
     (let runs = runs_wake c s; n = cons_name c; sps = map snd runs
      in rbind (bar (''bar'' @ n) (map (\<lambda>(a, e). (a, e, None)) sps)
                 (flash_wake (''glow'' @ n) sps (VFlt (14 / 100)) K)) (\<lambda>K1.
         let K2 = fold (\<lambda>(k, j). add_element (status_markup c k (''runs '' @ j))) (enumerate 1 (map fst runs))
                    (add_element (status_markup c 0 ''free'') K1);
             ch = (0, 0) # concat (map (\<lambda>(k, a, e). [(a, k), (e, 0)]) (enumerate 1 sps))
         in rbind (states (''st'' @ n) ch (length runs + 1) (8 / 100) K2) (\<lambda>K3.
            rbind (pulse_wake (''ring'' @ n) (nudge_phase c) (6 / 10) (9 / 10) (24 / 10) K3) (\<lambda>K4.
            Inr (draw_poke c (map fst (filter (\<lambda>(t, cc, m, _). cc = c \<and> m > 0) (wlog_nudge s))) K4)))))"

section \<open>The still frame and the file\<close>

definition still_wake :: "wake_sim \<Rightarrow> rat res" where
  "still_wake s =
     rbind (the_first (\<lambda>(t, c, a, j). j = ''Y'') (wlog_wake s)) (\<lambda>(ty, _, ay, _).
     let still = py_round 2 ((ty + ay) / 2)
     in rbind (rcheck (ty + 1 / 10 < still \<and> still < ay - 1 / 10)) (\<lambda>_.
        let seen = filter (\<lambda>t. t < still) (stays_of C1 s)
        in rbind (rcheck (inside still (spans C1 s))) (\<lambda>_.
           if seen = [] then Inl ValueError
           else rbind (rcheck (Max (set seen) \<noteq> 0)) (\<lambda>_. Inr still))))"

definition draw_all_wake :: "wake_sim \<Rightarrow> kfu \<Rightarrow> (kfu \<times> rat) res" where
  "draw_all_wake s K =
     rbind (rfold (draw_item s) ENQ_wake K) (\<lambda>K1.
     rbind (rfold draw_wake_dot (enumerate 0 (wlog_wake s))
       (flash_wake ''enq-glow'' (map (\<lambda>(t, _). (t - ITEM_T, t)) ENQ_wake) (VFlt (25 / 100)) K1)) (\<lambda>K2.
     rbind (draw_captions (wlog_enq s) K2) (\<lambda>K3.
     rbind (rfold draw_pop_dot (wlog_pop s) K3) (\<lambda>K4.
     rbind (rfold (draw_chip s) [C1, C2] K4) (\<lambda>K5.
     rbind (rfold (draw_consumer_wake s) [C1, C2] K5) (\<lambda>K6.
     rbind (still_wake s) (\<lambda>still.
     Inr (K6, still))))))))"

text \<open>The picture's description, a fixed text: \<open>desc\<close> ignores its argument.\<close>

definition desc_wake :: string where
  "desc_wake =
     ''Two consumers, C1 and C2, each a DistributedQueue with a varmq worker running one job at a time, wait on ''
     @ ''one Redis list. At the start the queue is empty, both consumers are free, and both are members of the ''
     @ '':idle set, which Subscribe joined them to. Every consumer runs a nudge once a second: when items wait it ''
     @ ''removes itself from :idle (SREM) and pokes its own worker, and when the queue is empty it adds itself back ''
     @ ''(SADD), but only if its own last look at the queue found no work for it. Job X is enqueued: one script ''
     @ ''pushes it (RPUSH) and wakes one idle consumer, because one item waits. SPOP takes a random member of ''
     @ '':idle, here C1, and PUBLISH sends the wake on C1's own channel. C1 pops X at once and runs it. C1's next ''
     @ ''nudges find the queue empty, but C1 popped work, so they leave it out of :idle while it is busy. Job Y ''
     @ ''is enqueued: C2 is the only member of :idle, so SPOP takes C2, and C2 pops Y at once. C1 finishes X; its ''
     @ ''Len() call finds the queue empty and puts it back in :idle. C2 finishes Y and rejoins the same way. At the ''
     @ ''end the queue is empty, both consumers are free, and both are in :idle. Each job was popped once, by the ''
     @ ''consumer its wake reached. Redis round trips are slowed down; the nudge period is the real one second.''"

definition build_wake :: "(string \<Rightarrow> string option) \<Rightarrow> wake_sim \<Rightarrow> kfu \<Rightarrow> (kfu \<times> string) res" where
  "build_wake files s K =
     rbind (wake_facts s) (\<lambda>D.
     rbind (draw_all_wake s (K\<lparr>rules := [], elements := [], loop_D := D\<rparr>)) (\<lambda>(K1, still).
     case SPOP_PICK of [] \<Rightarrow> Inl IndexError
     | c # _ \<Rightarrow>
       rbind (read_file files ''wake.tpl.svg'') (\<lambda>tpl0.
          let tpl = replace_all ''{SPOPNOTE}'' (''SPOP is random; this run draws '' @ cons_name c @ '' first'')
                      (replace_all ''{DESC}'' desc_wake tpl0)
          in rbind (render files tpl still None K1) (\<lambda>out. Inr (K1, out)))))"

end
