(* ===== verification/Wake_Picture.thy ===== *)
theory Wake_Picture
  imports Wake_Draw Draw_Store
begin

text \<open>
  Properties of the wake-up drawing: the nudge pulse train always closes over the loop, and every
  step of the drawing only appends tracks in time order.
\<close>

section \<open>The pulse train\<close>

abbreviation pulses :: "rat \<Rightarrow> rat \<Rightarrow> rat \<Rightarrow> rat list \<Rightarrow> pulse_pt list" where
  "pulses len peak grow ts \<equiv> concat (map (pulse_at len peak grow) ts)"

definition pulse_fun :: "rat \<Rightarrow> rat \<Rightarrow> rat \<Rightarrow> rat list \<Rightarrow> rat \<Rightarrow> (rat \<times> rat) res" where
  "pulse_fun len peak grow ts = interp (zip (pulses len peak grow ts) (tl (pulses len peak grow ts)))"

text \<open>The shape of one second, as a function of the time since its pulse started.\<close>

definition shape :: "rat \<Rightarrow> rat \<Rightarrow> rat \<Rightarrow> rat \<Rightarrow> rat \<times> rat" where
  "shape len peak grow y =
     (if y \<le> 8 / 100 then (y / (8 / 100) * peak, 1 + y / (8 / 100) * (25 / 100))
      else if y \<le> len
           then (let u = (y - 8 / 100) / (len - 8 / 100) in (peak - u * peak, 125 / 100 + u * (grow - 125 / 100)))
           else (0, grow + (y - len) / (1 - len) * (1 - grow)))"

lemma pulses_Cons2:
  "zip (pulses len peak grow (t # t' # ts)) (tl (pulses len peak grow (t # t' # ts))) =
     [((t, 0, 1), (t + 8 / 100, peak, 125 / 100)), ((t + 8 / 100, peak, 125 / 100), (t + len, 0, grow)),
      ((t + len, 0, grow), (t', 0, 1))]
     @ zip (pulses len peak grow (t' # ts)) (tl (pulses len peak grow (t' # ts)))"
  by (simp add: pulse_at_def)

lemma pulse_fun_skip:
  assumes "8 / 100 < len" and "len < 1" and "t + 1 < x"
  shows "pulse_fun len peak grow (t # (t + 1) # ts) x = pulse_fun len peak grow ((t + 1) # ts) x"
  unfolding pulse_fun_def pulses_Cons2 using assms by simp

lemma pulse_fun_here:
  assumes "8 / 100 < len" and "len < 1" and "0 < y" and "y \<le> 1"
  shows "pulse_fun len peak grow (t # (t + 1) # ts) (t + y) = Inr (shape len peak grow y)"
  unfolding pulse_fun_def pulses_Cons2 using assms by (simp add: shape_def Let_def)

lemma pulse_fun_at:
  assumes "8 / 100 < len" and "len < 1" and "0 < y" and "y \<le> 1"
  shows "pulse_fun len peak grow (map (\<lambda>i. t + of_nat i) [0..<m + 2 + k]) (t + of_nat m + y) = Inr (shape len peak grow y)"
proof (induction m arbitrary: t)
  case 0
  have "map (\<lambda>i. t + of_nat i) [0..<0 + 2 + k] = t # (t + 1) # map (\<lambda>i. t + of_nat i) [2..<2 + k]"
    by (simp add: upt_rec numeral_2_eq_2)
  with pulse_fun_here [OF assms] show ?case by simp
next
  case (Suc m)
  let ?l = "\<lambda>t m. map (\<lambda>i. t + of_nat i) [0..<m + 2 + k]"
  have step: "?l t (Suc m) = t # ?l (t + 1) m"
    by (simp add: upt_conv_Cons map_Suc_upt [symmetric] add_ac del: upt_Suc)
  obtain ts where ts: "?l (t + 1) m = (t + 1) # ts" by (simp add: upt_conv_Cons del: upt_Suc)
  have eq: "t + of_nat (Suc m) + y = (t + 1) + of_nat m + y" by simp
  have "pulse_fun len peak grow (?l t (Suc m)) ((t + 1) + of_nat m + y) =
      pulse_fun len peak grow (?l (t + 1) m) ((t + 1) + of_nat m + y)"
    unfolding step ts using assms by (intro pulse_fun_skip) simp_all
  with Suc.IH [of "t + 1"] show ?case unfolding eq by (rule trans [rotated])
qed

lemma train_pulses: "train phase len peak grow (int n) = pulses len peak grow (map (\<lambda>i. phase - 1 + of_nat i) [0..<n + 2])"
proof -
  have "[-1..int n] = map (\<lambda>i. int i - 1) [0..<n + 2]"
    by (rule nth_equalityI) (simp_all del: upt_Suc)
  then show ?thesis by (simp add: train_def comp_def algebra_simps del: upt_Suc)
qed

lemma pulses_sorted_from:
  assumes "0 < len" and "8 / 100 < len" and "len < 1"
  shows "sorted (map fst (pulses len peak grow (map (\<lambda>i. t + of_nat i) [a..<b])))
    \<and> (\<forall>p \<in> set (pulses len peak grow (map (\<lambda>i. t + of_nat i) [a..<b])). t + of_nat a \<le> fst p)"
proof (induction "b - a" arbitrary: a)
  case (Suc d)
  then have ab: "[a..<b] = a # [Suc a..<b]" by (simp add: upt_conv_Cons)
  from Suc(1) [of "Suc a"] Suc(2) have
    "sorted (map fst (pulses len peak grow (map (\<lambda>i. t + of_nat i) [Suc a..<b])))"
    "\<forall>p \<in> set (pulses len peak grow (map (\<lambda>i. t + of_nat i) [Suc a..<b])). t + of_nat (Suc a) \<le> fst p" by simp_all
  with assms show ?case by (fastforce simp: ab pulse_at_def)
qed simp

lemma fst_pulse_point [simp]: "fst (pulse_point q) = py_round 3 (fst q)"
  by (cases q) (simp add: pulse_point_def)

lemma snd_pulse_point: "snd p = snd q \<Longrightarrow> snd (pulse_point p) = snd (pulse_point q)"
  by (cases p; cases q) (auto simp: pulse_point_def)

lemma sorted_pulse_point: "sorted (map fst qs) \<Longrightarrow> sorted (map fst (map pulse_point qs))"
proof (induction qs)
  case (Cons q qs)
  then have "\<forall>x \<in> set qs. py_round 3 (fst q) \<le> py_round 3 (fst x)" by (auto intro: py_round_mono)
  with Cons show ?case by simp
qed simp

text \<open>The keyframes of a train: the interpolated ends and the points strictly inside the loop.\<close>

definition pulse_track :: "rat \<Rightarrow> rat \<Rightarrow> rat \<Rightarrow> rat \<Rightarrow> nat \<Rightarrow> pulse_pt list" where
  "pulse_track phase len peak grow n =
     (let v = shape len peak grow (1 - phase)
      in (0, v) # filter (\<lambda>p. 0 < fst p \<and> fst p < of_nat n) (train phase len peak grow (int n)) @ [(of_nat n, v)])"

lemma pulse_wake_track:
  assumes "0 \<le> phase" and "phase < 1" and "8 / 100 < len" and "len < 1" and D: "loop_D K = of_nat n"
  shows "pulse_wake name phase len peak grow K = Inr (kf name (map pulse_point (pulse_track phase len peak grow n)) K)"
proof -
  let ?p = "train phase len peak grow (int n)" and ?v = "shape len peak grow (1 - phase)"
  have f0: "interp (zip ?p (tl ?p)) 0 = Inr ?v"
    using pulse_fun_at [of len "1 - phase" peak grow "phase - 1" 0 n] assms
    by (simp add: train_pulses pulse_fun_def add.commute del: upt_Suc)
  have fD: "interp (zip ?p (tl ?p)) (loop_D K) = Inr ?v"
    using pulse_fun_at [of len "1 - phase" peak grow "phase - 1" "n" 0] assms
    by (simp add: train_pulses pulse_fun_def del: upt_Suc)
  have "\<lfloor>loop_D K\<rfloor> = int n" by (simp add: D)
  then show ?thesis
    unfolding pulse_wake_def Let_def using f0 fD by (simp add: D near_def rbind_def rcheck_def pulse_track_def Let_def)
qed

text \<open>C40: For a loop of whole seconds the nudge pulse train is always drawn, whatever its phase: the
  interpolation at both ends is found, the ends agree, so the loop has no seam; the keyframes go from 0
  to the loop's end in time order, and each second's peak inside the loop is one of them.\<close>

theorem pulse_train_closes:
  assumes "0 \<le> phase" and "phase < 1" and "8 / 100 < len" and "len < 1" and D: "loop_D K = of_nat n"
  shows "\<exists>pts. pulse_wake name phase len peak grow K = Inr (kf name pts K)
    \<and> sorted (map fst pts) \<and> fst (hd pts) = 0 \<and> fst (last pts) = loop_D K \<and> snd (hd pts) = snd (last pts)
    \<and> (\<forall>i. phase + of_nat i + 8 / 100 < loop_D K \<longrightarrow>
          pulse_point (phase + of_nat i + 8 / 100, peak, 125 / 100) \<in> set pts)"
proof -
  let ?tr = "pulse_track phase len peak grow n"
  let ?p = "train phase len peak grow (int n)" and ?v = "shape len peak grow (1 - phase)"
  have tr: "?tr = [(0, ?v)] @ filter (\<lambda>p. 0 < fst p \<and> fst p < of_nat n) ?p @ [(of_nat n, ?v)]"
    by (simp add: pulse_track_def Let_def)
  have "sorted (map fst ?tr)"
    using pulses_sorted_from [of len peak grow "phase - 1" 0 "n + 2"] assms
    by (auto simp: tr train_pulses sorted_append sorted_filter less_imp_le simp del: upt_Suc)
  then have "sorted (map fst (map pulse_point ?tr))" by (rule sorted_pulse_point)
  moreover have "fst (hd (map pulse_point ?tr)) = 0" by (simp add: tr)
  moreover have "fst (last (map pulse_point ?tr)) = loop_D K" using py_round_of_int [of 3 "int n"] by (simp add: D tr)
  moreover have "snd (hd (map pulse_point ?tr)) = snd (last (map pulse_point ?tr))"
    using snd_pulse_point [of "(0, ?v)" "(of_nat n, ?v)"] by (simp add: tr)
  moreover have "pulse_point (phase + of_nat i + 8 / 100, peak, 125 / 100) \<in> set (map pulse_point ?tr)"
    if i: "phase + of_nat i + 8 / 100 < loop_D K" for i
  proof -
    have "(of_nat i :: rat) < of_nat n" using i assms(1) D by linarith
    then have "Suc i \<in> {0..<n + 2}" by simp
    moreover have "phase + of_nat i = phase - 1 + of_nat (Suc i)" by simp
    ultimately have "phase + of_nat i \<in> set (map (\<lambda>i. phase - 1 + of_nat i) [0..<n + 2])"
      by (metis (no_types, lifting) image_eqI list.set_map set_upt)
    then have "(phase + of_nat i + 8 / 100, peak, 125 / 100) \<in> set ?p"
      by (auto simp: train_pulses pulse_at_def simp del: upt_Suc)
    with i assms(1) D have "(phase + of_nat i + 8 / 100, peak, 125 / 100) \<in> set ?tr"
      unfolding tr by (auto intro!: add_nonneg_pos)
    from imageI [OF this, of pulse_point] show ?thesis by (simp only: set_map)
  qed
  ultimately show ?thesis using pulse_wake_track [OF assms] by blast
qed

theorem pulse_train_closes_witness:
  "\<exists>pts. pulse_wake ''ringC1'' (3 / 10) (6 / 10) (9 / 10) (24 / 10) \<lparr>loop_D = 7, rules = [], LEGEND = [], elements = []\<rparr> =
      Inr \<lparr>loop_D = 7, rules = [(''ringC1'', sort_key fst pts)], LEGEND = [], elements = []\<rparr>
    \<and> snd (hd pts) = snd (last pts)"
  using pulse_train_closes [of "3 / 10" "6 / 10" "\<lparr>loop_D = 7, rules = [], LEGEND = [], elements = []\<rparr>" 7 "''ringC1''" "9 / 10" "24 / 10"]
  by (auto simp: kf_def)

section \<open>Every step paints\<close>

context painter begin

lemma P_flash_wake: "P K K1 \<Longrightarrow> P K (flash_wake name sps peak K1)"
  by (simp add: flash_wake_def P_flash)

lemma P_draw_item: "draw_item s x K1 = Inr K2 \<Longrightarrow> P K1 K2"
  by (auto simp: draw_item_def split: prod.splits option.splits intro!: P_kf P_elem same)

lemma P_draw_wake_dot: "draw_wake_dot x K1 = Inr K2 \<Longrightarrow> P K1 K2"
  by (auto simp: draw_wake_dot_def Let_def split: prod.splits elim!: P_walk_wake intro!: P_flash P_elem same)

lemma P_draw_captions: "draw_captions es K1 = Inr K2 \<Longrightarrow> P K K1 \<Longrightarrow> P K K2"
proof (induction es K1 rule: draw_captions.induct)
  case (2 t job n woken b enqs K1)
  from 2(2) obtain K3 where K3: "draw_captions enqs K3 = Inr K2" "P K1 K3"
    by (auto simp: Let_def intro!: P_flash_wake P_elem same)
  with 2 show ?case by (auto simp: Let_def intro!: P_flash_wake P_elem)
qed simp

lemma P_draw_pop_dot: "draw_pop_dot x K1 = Inr K2 \<Longrightarrow> P K1 K2"
  by (auto simp: draw_pop_dot_def split: prod.splits elim!: P_walk_wake intro!: P_elem same)

lemma P_draw_chip: "draw_chip s c K1 = Inr K2 \<Longrightarrow> P K1 K2"
  by (auto simp: draw_chip_def Let_def draw_highlight_def draw_label_def split: prod.splits
      intro!: P_fold P_kf P_flash P_flash_wake P_elem same)

lemma P_pulse_wake: "pulse_wake name ph len peak grow K1 = Inr K2 \<Longrightarrow> P K K1 \<Longrightarrow> P K K2"
  by (auto simp: pulse_wake_def Let_def intro!: P_kf)

lemma P_draw_consumer_wake:
  assumes "draw_consumer_wake s c K1 = Inr K2"
  shows "P K1 K2"
proof -
  let ?n = "cons_name c" and ?r = "runs_wake c s"
  let ?e = "\<lambda>A. fold (\<lambda>(k, j). add_element (status_markup c k (''runs '' @ j))) (enumerate 1 (map fst ?r))
      (add_element (status_markup c 0 ''free'') A)"
  obtain A B C ch where A: "bar (''bar'' @ ?n) (map (\<lambda>(a, e). (a, e, None)) (map snd ?r))
        (flash_wake (''glow'' @ ?n) (map snd ?r) (VFlt (14 / 100)) K1) = Inr A"
    and B: "states (''st'' @ ?n) ch (length ?r + 1) (8 / 100) (?e A) = Inr B"
    and C: "pulse_wake (''ring'' @ ?n) (nudge_phase c) (6 / 10) (9 / 10) (24 / 10) B = Inr C"
    and K2: "K2 = draw_poke c (map fst (filter (\<lambda>(t, cc, m, _). cc = c \<and> m > 0) (wlog_nudge s))) C"
    using assms unfolding draw_consumer_wake_def Let_def by (auto simp only: rbind_eq_Inr sum.inject)
  have "P K1 A" by (rule P_bar [OF A]) (intro P_flash_wake same)
  then have "P K1 (?e A)" by (intro P_fold P_elem) (auto intro: P_elem)
  from P_states [OF B this] have "P K1 B" .
  from P_pulse_wake [OF C this] show ?thesis
    unfolding K2 draw_poke_def Let_def by (auto intro!: P_flash_wake P_elem)
qed

lemma P_up_to_chips:
  assumes "rfold (draw_item s) ENQ_wake K1 = Inr A"
    and "rfold draw_wake_dot (enumerate 0 (wlog_wake s))
      (flash_wake ''enq-glow'' (map (\<lambda>(t, _). (t - ITEM_T, t)) ENQ_wake) (VFlt (25 / 100)) A) = Inr B"
    and "draw_captions (wlog_enq s) B = Inr C" and "rfold draw_pop_dot (wlog_pop s) C = Inr E"
    and "rfold (draw_chip s) [C1, C2] E = Inr F"
  shows "P K1 F"
proof -
  have "P K1 A" by (rule P_rfold [OF assms(1) same]) (rule P_draw_item)
  from P_rfold [OF assms(2) P_flash_wake [OF this]] have "P K1 B" by (blast intro: P_draw_wake_dot)
  from P_draw_captions [OF assms(3) this] have "P K1 C" .
  from P_rfold [OF assms(4) this] have "P K1 E" by (blast intro: P_draw_pop_dot)
  from P_rfold [OF assms(5) this] show ?thesis by (blast intro: P_draw_chip)
qed

lemma P_draw_all_wake:
  assumes "draw_all_wake s K1 = Inr (K2, still)"
  shows "P K1 K2"
proof -
  obtain A B C E F where a: "rfold (draw_item s) ENQ_wake K1 = Inr A"
    "rfold draw_wake_dot (enumerate 0 (wlog_wake s))
      (flash_wake ''enq-glow'' (map (\<lambda>(t, _). (t - ITEM_T, t)) ENQ_wake) (VFlt (25 / 100)) A) = Inr B"
    "draw_captions (wlog_enq s) B = Inr C"
    "rfold draw_pop_dot (wlog_pop s) C = Inr E" "rfold (draw_chip s) [C1, C2] E = Inr F"
    "rfold (draw_consumer_wake s) [C1, C2] F = Inr K2"
    using assms unfolding draw_all_wake_def by (auto simp only: rbind_eq_Inr sum.inject prod.inject)
  from P_rfold [OF a(6) P_up_to_chips [OF a(1-5)]] show ?thesis by (blast intro: P_draw_consumer_wake)
qed

end

section \<open>The drawn story\<close>

text \<open>The logs of the drawn scenario, evaluated.\<close>

lemma wake_story_logs:
  "\<exists>s. simulate_wake 60 ENQ_wake SPOP_PICK = Some (Inr s)
     \<and> wlog_enq s = [(1 / 2, ''X'', 1, [C1], {C1, C2}), (37 / 20, ''Y'', 1, [C2], {C2})]
     \<and> wlog_wake s = [(1 / 2, C1, 3471 / 5000, ''X''), (37 / 20, C2, 5477 / 2500, ''Y'')]
     \<and> wlog_pop s = [(3671 / 5000, C1, ''X'', 4799 / 5000), (5577 / 2500, C2, ''Y'', 26519 / 10000)]
     \<and> wlog_run s = [(C1, ''X'', 4799 / 5000, 14799 / 5000), (C2, ''Y'', 26519 / 10000, 46519 / 10000)]
     \<and> wlog_member s = [(1 / 2, C1, False, Spop), (37 / 20, C2, False, Spop),
          (14799 / 5000, C1, True, ByLen), (46519 / 10000, C2, True, ByLen)]
     \<and> wlog_stay s = [(13 / 10, C1), (23 / 10, C1), (14 / 5, C2), (19 / 5, C2)]
     \<and> filter (\<lambda>(t, c, m, _). m > 0) (wlog_nudge s) = []"
proof -
  have "case simulate_wake 60 ENQ_wake SPOP_PICK of Some (Inr s) \<Rightarrow>
       wlog_enq s = [(1 / 2, ''X'', 1, [C1], {C1, C2}), (37 / 20, ''Y'', 1, [C2], {C2})]
     \<and> wlog_wake s = [(1 / 2, C1, 3471 / 5000, ''X''), (37 / 20, C2, 5477 / 2500, ''Y'')]
     \<and> wlog_pop s = [(3671 / 5000, C1, ''X'', 4799 / 5000), (5577 / 2500, C2, ''Y'', 26519 / 10000)]
     \<and> wlog_run s = [(C1, ''X'', 4799 / 5000, 14799 / 5000), (C2, ''Y'', 26519 / 10000, 46519 / 10000)]
     \<and> wlog_member s = [(1 / 2, C1, False, Spop), (37 / 20, C2, False, Spop),
          (14799 / 5000, C1, True, ByLen), (46519 / 10000, C2, True, ByLen)]
     \<and> wlog_stay s = [(13 / 10, C1), (23 / 10, C1), (14 / 5, C2), (19 / 5, C2)]
     \<and> filter (\<lambda>(t, c, m, _). m > 0) (wlog_nudge s) = [] | _ \<Rightarrow> False"
    by code_simp
  then show ?thesis by (auto split: option.splits sum.splits)
qed

lemma rfold_total: "(\<And>x a. x \<in> set xs \<Longrightarrow> \<exists>b. f x a = Inr b) \<Longrightarrow> \<exists>b. rfold f xs a = Inr b"
proof (induction xs arbitrary: a)
  case (Cons x xs)
  then obtain b where "f x a = Inr b" by (meson list.set_intros(1))
  with Cons show ?case by simp
qed simp

lemma walk_wake_ok:
  assumes "v \<noteq> 0"
  shows "\<exists>K'. walk_wake name t (p # ps) v eop hold K = Inr (t + 4 / 100 + plen (p # ps) / v, K')"
proof -
  obtain x y where p: "p = (x, y)" by force
  obtain t2 x2 y2 out where w: "walk_legs v (t + 4 / 100) x y ps = (t2, x2, y2, out)" by (metis prod.exhaust)
  from walk_legs_time [OF w] show ?thesis using assms w by (simp add: walk_wake_def p Let_def)
qed

lemma bar_single: "\<exists>K'. bar name [(a, e, None)] K = Inr K'"
  by (simp add: bar_def bar_spans_def)

lemma states_ok: "sort cs \<noteq> [] \<Longrightarrow> fst (hd (sort cs)) = 0 \<Longrightarrow> \<exists>K'. states pre cs n fade K = Inr K'"
  by (simp add: states_def Let_def)

text \<open>Each part of the drawing goes through on these logs.\<close>

lemma draw_items_ok:
  assumes "wlog_enq s = [(1 / 2, ''X'', 1, [C1], {C1, C2}), (37 / 20, ''Y'', 1, [C2], {C2})]"
    and "wlog_pop s = [(3671 / 5000, C1, ''X'', 4799 / 5000), (5577 / 2500, C2, ''Y'', 26519 / 10000)]"
  shows "\<exists>K'. rfold (draw_item s) ENQ_wake K = Inr K'"
  by (rule rfold_total) (auto simp: ENQ_wake_def draw_item_def the_first_def assms SLOT_wake_def rcheck_def)

lemma draw_wake_dots_ok: "\<exists>K'. rfold draw_wake_dot xs K = Inr K'"
proof (rule rfold_total)
  fix x :: "nat \<times> rat \<times> cons \<times> rat \<times> string" and A :: kfu
  obtain i t c a j where x: "x = (i, t, c, a, j)" by (metis prod.exhaust)
  have "\<exists>K'. walk_wake n (t - 4 / 100 :: rat) (wake_route c) WAKE_V (VInt 0) 0 B =
      Inr (t - 4 / 100 + 4 / 100 + plen (wake_route c) / WAKE_V, K')" for n B
    unfolding wake_route_def by (rule walk_wake_ok) (simp add: WAKE_V_def)
  then show "\<exists>K'. draw_wake_dot x A = Inr K'" by (fastforce simp: draw_wake_dot_def x Let_def)
qed

lemma draw_pop_dots_ok:
  assumes "\<forall>(t, c, j, a) \<in> set xs. \<bar>t + plen (pop_route c) / POP_V - a\<bar> < 1 / 100"
  shows "\<exists>K'. rfold draw_pop_dot xs K = Inr K'"
proof (rule rfold_total)
  fix x and A :: kfu
  assume mem: "x \<in> set xs"
  obtain t c j a where x: "x = (t, c, j, a)" by (metis prod.exhaust)
  obtain K' where w: "walk_wake (''pdot'' @ j) (t - 4 / 100) (pop_route c) POP_V (VInt 0) 0
      (add_element (''<circle id=\"pdot'' @ j @ ''\" class=\"a lin dot\" cx=\"0\" cy=\"0\" r=\"7\"/>'') A) =
      Inr (t - 4 / 100 + 4 / 100 + plen (pop_route c) / POP_V, K')"
    unfolding pop_route_def using walk_wake_ok [of POP_V] by (metis POP_V_def zero_neq_numeral)
  have "rcheck (\<bar>t - 4 / 100 + 4 / 100 + plen (pop_route c) / POP_V - a\<bar> < 1 / 100) = Inr ()"
    using assms mem by (fastforce simp: x)
  with w show "\<exists>K'. draw_pop_dot x A = Inr K'" by (simp only: draw_pop_dot_def x prod.case rbind_simps) simp
qed

lemma chip_marks_ok:
  assumes "\<forall>(t, m, y) \<in> set es. y \<noteq> PopMiss" and "\<forall>t \<in> set sts. \<exists>(mt, m, y) \<in> set es. t < mt \<and> m"
  shows "\<exists>m. rbind (rfold (label_event starts) es a) (rfold (label_stay es) sts) = Inr m"
proof -
  have "\<exists>b. rfold (label_event starts) es a = Inr b" for a
  proof (rule rfold_total)
    fix x and m :: chip_marks
    assume "x \<in> set es"
    with assms(1) show "\<exists>b. label_event starts x m = Inr b"
      by (cases x; cases m; cases "snd (snd x)") (auto simp: label_event_def Let_def)
  qed
  moreover have "\<exists>b. rfold (label_stay es) sts a = Inr b" for a
  proof (rule rfold_total)
    fix t and m :: chip_marks
    assume "t \<in> set sts"
    with assms(2) have "map fst (filter (\<lambda>(mt, now_in, _). mt > t \<and> now_in) es) \<noteq> []"
      by (fastforce simp: filter_empty_conv)
    then show "\<exists>b. label_stay es t m = Inr b" by (cases m) (simp add: label_stay_def Let_def)
  qed
  ultimately show ?thesis by (metis rbind_simps(1))
qed

lemma draw_chip_ok:
  assumes "fst (chip_track 1 (chip_events c s)) = 1" and "\<forall>(t, m, y) \<in> set (chip_events c s). y \<noteq> PopMiss"
    and "\<forall>t \<in> set (stays_of c s). \<exists>(mt, m, y) \<in> set (chip_events c s). t < mt \<and> m"
  shows "\<exists>K'. draw_chip s c K = Inr K'"
proof -
  obtain ps where ct: "chip_track 1 (chip_events c s) = (1, ps)" using assms(1) by (cases "chip_track 1 (chip_events c s)") auto
  let ?st = "sort (map fst (chip_events c s) @ stays_of c s)"
  obtain m1 labels hls where m: "rfold (label_event ?st) (chip_events c s) ([], []) = Inr m1"
    "rfold (label_stay (chip_events c s)) (stays_of c s) m1 = Inr (labels, hls)"
    using chip_marks_ok [OF assms(2,3), of ?st "([], [])"] by auto
  show ?thesis by (simp add: draw_chip_def Let_def ct m rcheck_def)
qed

lemma draw_consumer_wake_ok:
  assumes "runs_wake c s = [(j, a, e)]" and "0 < a" and "a < e" and "loop_D K = 7"
  shows "\<exists>K'. draw_consumer_wake s c K = Inr K'"
proof -
  let ?n = "cons_name c" and ?ch = "[(0, 0), (a, 1), (e, 0 :: nat)]"
  have ch: "(0, 0) # concat (map (\<lambda>(k, a, e). [(a, k), (e, 0)]) (enumerate 1 [(a, e)])) = ?ch" by simp
  have so: "sort ?ch = ?ch" using assms(2,3) by simp
  obtain A where A: "bar (''bar'' @ ?n) [(a, e, None)] (flash_wake (''glow'' @ ?n) [(a, e)] (VFlt (14 / 100)) K) = Inr A"
    using bar_single by blast
  let ?B = "fold (\<lambda>(k, j). add_element (status_markup c k (''runs '' @ j))) (enumerate 1 [j])
      (add_element (status_markup c 0 ''free'') A)"
  obtain B where B: "states (''st'' @ ?n) ?ch 2 (8 / 100) ?B = Inr B"
    using states_ok [of ?ch] so by fastforce
  have "extends K A" by (rule store.P_bar [OF A]) (simp add: flash_wake_def store.P_flash store.same)
  then have "extends K ?B" by (simp add: store.P_elem)
  then have "extends K B" by (rule store.P_states [OF B])
  then have "loop_D B = of_nat 7" using assms(4) by (simp add: extends_def)
  then have "\<exists>C. pulse_wake (''ring'' @ ?n) (nudge_phase c) (6 / 10) (9 / 10) (24 / 10) B = Inr C"
    using pulse_wake_track [of "nudge_phase c" "6 / 10" B 7] by (cases c) auto
  then obtain C where C: "pulse_wake (''ring'' @ ?n) (nudge_phase c) (6 / 10) (9 / 10) (24 / 10) B = Inr C" by blast
  show ?thesis
    unfolding draw_consumer_wake_def Let_def assms(1) list.map snd_conv fst_conv prod.case ch using A B C
    by (simp add: numeral_2_eq_2)
qed

lemma still_wake_value: "py_round 2 (5051 / 2500) = 101 / 50"
  by code_simp

text \<open>C37: The picture of the wake-up story is always drawn: on the logs of the scenario every assertion of
  the drawing half passes, for any store with the story's loop of 7 s: the items and their wakes, one
  caption at a time, pop dots that arrive when the simulation says, chips that end in \<open>:idle\<close>, one bar
  and one seamless pulse train per consumer, and the still frame at 2.02 s, with Y's wake on its way.
  The drawing only appends to the store, each track in time order.\<close>

theorem wake_picture_drawn:
  assumes "loop_D K = 7"
  shows "\<exists>s K'. simulate_wake 60 ENQ_wake SPOP_PICK = Some (Inr s) \<and> draw_all_wake s K = Inr (K', 101 / 50)
    \<and> extends K K'"
proof -
  obtain s where s: "simulate_wake 60 ENQ_wake SPOP_PICK = Some (Inr s)"
    and enq: "wlog_enq s = [(1 / 2, ''X'', 1, [C1], {C1, C2}), (37 / 20, ''Y'', 1, [C2], {C2})]"
    and wk: "wlog_wake s = [(1 / 2, C1, 3471 / 5000, ''X''), (37 / 20, C2, 5477 / 2500, ''Y'')]"
    and pop: "wlog_pop s = [(3671 / 5000, C1, ''X'', 4799 / 5000), (5577 / 2500, C2, ''Y'', 26519 / 10000)]"
    and run: "wlog_run s = [(C1, ''X'', 4799 / 5000, 14799 / 5000), (C2, ''Y'', 26519 / 10000, 46519 / 10000)]"
    and mem: "wlog_member s = [(1 / 2, C1, False, Spop), (37 / 20, C2, False, Spop),
          (14799 / 5000, C1, True, ByLen), (46519 / 10000, C2, True, ByLen)]"
    and stay: "wlog_stay s = [(13 / 10, C1), (23 / 10, C1), (14 / 5, C2), (19 / 5, C2)]"
    using wake_story_logs by auto
  obtain A where A: "rfold (draw_item s) ENQ_wake K = Inr A" using draw_items_ok [OF enq pop] by blast
  obtain B where B: "rfold draw_wake_dot (enumerate 0 (wlog_wake s))
      (flash_wake ''enq-glow'' (map (\<lambda>(t, _). (t - ITEM_T, t)) ENQ_wake) (VFlt (25 / 100)) A) = Inr B"
    using draw_wake_dots_ok by blast
  obtain C where C: "draw_captions (wlog_enq s) B = Inr C" by (simp add: enq rcheck_def)
  have "\<forall>(t, c, j, a) \<in> set (wlog_pop s). \<bar>t + plen (pop_route c) / POP_V - a\<bar> < 1 / 100"
    by (simp add: pop pop_route_def PORT_def POP_V_def)
  then obtain E where E: "rfold draw_pop_dot (wlog_pop s) C = Inr E" using draw_pop_dots_ok by blast
  have chip: "\<exists>F'. draw_chip s c F = Inr F'" for c F
    by (rule draw_chip_ok) (cases c; simp add: chip_events_def stays_of_def mem stay Let_def)+
  have "\<exists>F. rfold (draw_chip s) [C1, C2] E = Inr F" by (rule rfold_total) (rule chip)
  then obtain F where F: "rfold (draw_chip s) [C1, C2] E = Inr F" by blast
  have cons: "\<exists>G'. draw_consumer_wake s c G = Inr G'" if "loop_D G = 7" for c G
  proof -
    have "runs_wake C1 s = [(''X'', 4799 / 5000, 14799 / 5000)]" "runs_wake C2 s = [(''Y'', 26519 / 10000, 46519 / 10000)]"
      by (simp_all add: runs_wake_def run)
    then show ?thesis using that by (cases c) (auto elim!: draw_consumer_wake_ok)
  qed
  have ext: "extends K F" by (rule store.P_up_to_chips [OF A B C E F])
  then obtain G where G: "draw_consumer_wake s C1 F = Inr G" using cons assms by (metis extends_def)
  then have "extends K G" using ext store.P_draw_consumer_wake extends_trans by blast
  then obtain H where H: "draw_consumer_wake s C2 G = Inr H" using cons assms by (metis extends_def)
  have still: "still_wake s = Inr (101 / 50)"
    by (simp add: still_wake_def the_first_def wk still_wake_value stays_of_def stay
        spans_def pop inside_def WORK_wake_def rcheck_def)
  have "draw_all_wake s K = Inr (H, 101 / 50)"
    unfolding draw_all_wake_def A rbind_simps B C E F still using G H by simp
  with s store.P_draw_all_wake [OF this] show ?thesis by blast
qed

theorem wake_picture_drawn_witness:
  "\<exists>s K'. simulate_wake 60 ENQ_wake SPOP_PICK = Some (Inr s)
    \<and> draw_all_wake s \<lparr>loop_D = 7, rules = [], LEGEND = [], elements = []\<rparr> = Inr (K', 101 / 50)"
  using wake_picture_drawn [of "\<lparr>loop_D = 7, rules = [], LEGEND = [], elements = []\<rparr>"] by auto

end
