(* ===== verification/Dead_Draw.thy ===== *)
theory Dead_Draw
  imports Dead_Facts Walks Draw
begin

text \<open>
  The drawing half of \<open>gen_dead.py\<close>: \<open>vis\<close> and \<open>swap\<close> with the cross-fade, \<open>esc\<close> and \<open>text\<close>, the tracks
  and captions of one row (\<open>draw_row\<close>), and \<open>build\<close> with its checks, the clock, the seam and the
  written file. The module's \<open>XF0\<close>, \<open>XFM\<close>, \<open>XF1\<close> are a record, the time map \<open>M\<close> is its list of knots.
\<close>

section \<open>Constants\<close>

definition XF :: rat where "XF = 7 / 10"
definition P_place :: "(nat, rat \<times> rat) dict" where "P_place = [(0, (424, 129)), (1, (540, 129))]"
definition SLOT_dead :: "(nat, rat \<times> rat) dict" where "SLOT_dead = [(0, (656, 53)), (1, (620, 53))]"
definition POP_EDGE_dead :: "(rat \<times> rat) list" where "POP_EDGE_dead = [(702, 68), (776, 68)]"
definition WAKE_EDGE :: "(rat \<times> rat) list" where "WAKE_EDGE = [(712, 40), (776, 40)]"
definition H_dead :: int where "H_dead = 446"
definition GRACE_S :: string where "GRACE_S = fmt_g (of_int GRACE / 1000)"

fun row_r :: "story_row \<Rightarrow> string" where
  "row_r RowA = ''a''"
| "row_r RowB = ''b''"

fun row_Y :: "story_row \<Rightarrow> int" where
  "row_Y RowA = 58"
| "row_Y RowB = 254"

fun row_title :: "story_row \<Rightarrow> string" where
  "row_title RowA = ''A '' @ mid_dot @ '' process killed (kill -9, OOM)''"
| "row_title RowB = ''B '' @ mid_dot @ '' host lost (Redis keeps its socket)''"

fun row_kill :: "story_row \<Rightarrow> string" where
  "row_kill RowA = cross_mark @ '' killed''"
| "row_kill RowB = cross_mark @ '' host lost''"

section \<open>Showing and swapping with the cross-fade\<close>

record xfade =
  XF0 :: rat
  XFM :: rat
  XF1 :: rat

type_synonym open_span = "rat option \<times> rat option"

definition vis_pts :: "xfade \<Rightarrow> open_span list \<Rightarrow> cssv \<Rightarrow> rat \<Rightarrow> point list" where
  "vis_pts X spans peak fade =
     (let on0 = list_ex (\<lambda>p. fst p = None) spans; on_end = list_ex (\<lambda>p. snd p = None) spans
      in (0, op (if on0 then peak else VInt 0)) #
         concat (map (\<lambda>(s, e).
           (case s of None \<Rightarrow> [] | Some x \<Rightarrow> [(x, op (VInt 0)), (x + fade, op peak)]) @
           (case e of None \<Rightarrow> [] | Some x \<Rightarrow> [(x, op peak), (x + fade, op (VInt 0))]))
          (sort_key (\<lambda>p. case fst p of None \<Rightarrow> -1 | Some x \<Rightarrow> x) spans)) @
         (if on_end \<and> \<not> on0 then [(XF0 X, op peak), (XFM X, op (VInt 0))] else []) @
         (if on0 \<and> \<not> on_end then [(XFM X, op (VInt 0)), (XF1 X, op peak)] else []))"

definition vis :: "xfade \<Rightarrow> string \<Rightarrow> open_span list \<Rightarrow> kfu \<Rightarrow> kfu" where
  "vis X name spans K = kf name (vis_pts X spans (VInt 1) (15 / 100)) K"

type_synonym change = "rat \<times> nat \<times> rat option"

fun swap_loop :: "xfade \<Rightarrow> rat \<Rightarrow> nat \<Rightarrow> int option \<Rightarrow> change list \<Rightarrow> point list" where
  "swap_loop X fade k cur [] = []"
| "swap_loop X fade k cur ((t, i, f) # cs) =
     (let on = (if i = k then 1 else 0)
      in (case cur of
            None \<Rightarrow> [(0, op (VInt on))]
          | Some c \<Rightarrow>
              if on = c then []
              else if t = XF0 X
                   then (if c \<noteq> 0 then [(XF0 X, op (VInt 1)), (XFM X, op (VInt 0))]
                         else [(XFM X, op (VInt 0)), (XF1 X, op (VInt 1))])
                   else [(t, op (VInt c)), (t + (case f of None \<Rightarrow> fade | Some d \<Rightarrow> d), op (VInt on))])
         @ swap_loop X fade k (Some on) cs)"

definition swap :: "xfade \<Rightarrow> string \<Rightarrow> change list \<Rightarrow> nat \<Rightarrow> kfu \<Rightarrow> kfu res" where
  "swap X pre changes n K =
     (case sort_key fst changes of [] \<Rightarrow> Inl IndexError
      | c # cs \<Rightarrow>
        rbind (rcheck (fst c = 0)) (\<lambda>_.
        Inr (fold (\<lambda>k. kf (pre @ show_nat k) (swap_loop X (15 / 100) k None (c # cs))) [0..<n] K)))"

definition esc :: "string \<Rightarrow> string" where
  "esc s = replace_all ''>'' ''&gt;'' (replace_all ''<'' ''&lt;'' (replace_all ''&'' ''&amp;'' s))"

definition text_el :: "string \<Rightarrow> int \<Rightarrow> int \<Rightarrow> string \<Rightarrow> string \<Rightarrow> string" where
  "text_el nm x y cls s = ''<text id=\"'' @ nm @ ''\" class=\"a '' @ cls @ ''\" x=\"'' @ show_int x @ ''\" y=\"'' @ show_int y @ ''\">'' @ esc s @ ''</text>''"

definition sx :: "int \<Rightarrow> rat \<Rightarrow> props" where
  "sx o1 s = op_tr (VInt o1) (''scaleX('' @ fmt_g s @ '')'')"

text \<open>The drawn moments of a row; unpacking anything but two pops raises.\<close>

record row_times =
  rt_kill :: rat
  rt_c2s :: rat
  rt_reap :: rat
  rt_wake :: rat
  rt_pop1 :: "rat \<times> string"
  rt_pop2 :: "rat \<times> string"
  rt_acks :: "(string, rat) dict"
  rt_sweeps :: "(rat \<times> rat \<times> bool \<times> sweep_note list) list"

definition in_ff :: "rat \<Rightarrow> bool" where
  "in_ff t \<longleftrightarrow> fst FF < t \<and> t < snd FF"

definition drawn_sweeps :: "xfade \<Rightarrow> knot list \<Rightarrow> (rat \<times> bool \<times> sweep_note list) list
    \<Rightarrow> (rat \<times> rat \<times> bool \<times> sweep_note list) list res" where
  "drawn_sweeps X M sws =
     rbind (rmap (\<lambda>(t, tk, ns). rbind (map_time M t) (\<lambda>d. Inr (d, t, tk, ns))) (filter (\<lambda>(t, _). \<not> in_ff t) sws)) (\<lambda>ds.
     Inr (filter (\<lambda>(d, _). d + 6 / 10 \<le> XF1 X) ds))"

definition row_times_of :: "xfade \<Rightarrow> knot list \<Rightarrow> dead_facts \<Rightarrow> row_times res" where
  "row_times_of X M f =
     rbind (map_time M (f_kill f)) (\<lambda>kill_d.
     rbind (map_time M (f_c2_last f)) (\<lambda>c2s_d.
     rbind (map_time M (f_reap f)) (\<lambda>reap_d.
     rbind (map_time M (f_wake f)) (\<lambda>wake_d.
     rbind (rmap (\<lambda>(t, v). rbind (map_time M t) (\<lambda>d. Inr (d, v))) (f_pops f)) (\<lambda>ps.
     case ps of
       [p1, p2] \<Rightarrow>
         rbind (rmap (\<lambda>(t, v). rbind (map_time M t) (\<lambda>d. Inr (v, d))) (f_acks f)) (\<lambda>as.
         rbind (drawn_sweeps X M (f_sweeps f)) (\<lambda>sws.
         Inr \<lparr>rt_kill = kill_d, rt_c2s = c2s_d, rt_reap = reap_d, rt_wake = wake_d, rt_pop1 = p1, rt_pop2 = p2,
              rt_acks = fold (\<lambda>(v, d). dset v d) as [], rt_sweeps = sws\<rparr>))
     | _ \<Rightarrow> Inl ValueError)))))"

section \<open>One row: C2, its subscription, its heartbeat, its mark\<close>

text \<open>A drawing step takes the markup so far and the keyframes, and returns both.\<close>

type_synonym drawn = "string list \<times> kfu"

definition draw_c2 :: "xfade \<Rightarrow> string \<Rightarrow> row_times \<Rightarrow> kfu \<Rightarrow> kfu res" where
  "draw_c2 X r T K =
     (let kill = rt_kill T;
          K1 = kf (''c2-'' @ r) [(0, op (VInt 1)), (kill, op (VInt 1)), (kill + 4 / 10, op (VFlt (35 / 100))),
                 (XF0 X, op (VFlt (35 / 100))), (XF1 X, op (VInt 1))] K;
          K2 = kf (''c2glow-'' @ r) [(0, op (VFlt (14 / 100))), (kill, op (VFlt (14 / 100))), (kill + 3 / 10, op (VInt 0)),
                 (XFM X, op (VInt 0)), (XF1 X, op (VFlt (14 / 100)))] K1;
          K3 = kf (''c2bar-'' @ r) [(0, sx 1 (4 / 10)), (kill, sx 1 (46 / 100)), (kill + 3 / 10, sx 0 (46 / 100)),
                 (XFM X, sx 0 (4 / 10)), (XF1 X, sx 1 (4 / 10))] K2;
          K4 = ring (''c2ring-'' @ r) [rt_c2s T] (6 / 10) K3
      in swap X (''c2cap-'' @ r @ ''-'') [(0, 0, None), (kill, 1, None), (XF0 X, 0, Some XF)] 2
           (vis X (''kill-'' @ r) [(Some kill, None)] K4))"

definition draw_sub :: "xfade \<Rightarrow> knot list \<Rightarrow> story_row \<Rightarrow> dead_facts \<Rightarrow> row_times \<Rightarrow> drawn \<Rightarrow> drawn res" where
  "draw_sub X M row f T = (\<lambda>(els, K).
     let r = row_r row; kill = rt_kill T; sub = text_el (''stx-'' @ r @ ''-0'') 240 58 ''st'' ''C2 subscribed''
     in case row of
          RowA \<Rightarrow>
            let K1 = vis X (''sub-'' @ r) [(None, Some kill)] K;
                K2 = kf (''chan-'' @ r) [(0, op (VInt 1)), (kill, op (VInt 1)), (kill + 3 / 10, op (VFlt (3 / 10))),
                       (XF0 X, op (VFlt (3 / 10))), (XF1 X, op (VInt 1))] K1
            in rbind (swap X (''stx-'' @ r @ ''-'') [(0, 0, None), (kill, 1, None), (XF0 X, 0, Some XF)] 2 K2) (\<lambda>K3.
               Inr (els @ [sub, text_el (''stx-'' @ r @ ''-1'') 240 58 ''why start'' ''subscription gone''], K3))
        | RowB \<Rightarrow>
            rbind (rnth (f_sweeps f) 1) (\<lambda>(t, _).
            rbind (map_time M t) (\<lambda>first_check.
            rbind (swap X (''stx-'' @ r @ ''-'') [(0, 0, None), (first_check, 1, None), (XF0 X, 0, Some XF)] 2
                     (vis X (''chan-'' @ r) [(None, None)] (vis X (''sub-'' @ r) [(None, None)] K))) (\<lambda>K3.
            Inr (els @ [sub, ''<g id=\"stx-'' @ r @ ''-1\" class=\"a\"><text class=\"why start\" x=\"240\" y=\"51\">socket still open:</text>''
                   @ ''<text class=\"why start\" x=\"240\" y=\"65\">wait for heartbeat</text></g>''], K3)))))"

text \<open>What is left of the heartbeat, as a share of its timeout, at the knots up to the reap.\<close>

definition hb_left :: "dead_facts \<Rightarrow> rat \<Rightarrow> rat" where
  "hb_left f s = max 0 ((f_hb_out f - s) / (of_int HBT / 1000))"

definition hb_knots :: "knot list \<Rightarrow> dead_facts \<Rightarrow> rat list" where
  "hb_knots M f = sorted_list_of_set (set (filter (\<lambda>t. 0 \<le> t \<and> t \<le> f_reap f) (map fst M))
     \<union> {f_reap f} \<union> {min (f_hb_out f) (f_reap f)})"

definition captions :: "string \<Rightarrow> int \<Rightarrow> int \<Rightarrow> (string \<Rightarrow> string) \<Rightarrow> string list \<Rightarrow> string list" where
  "captions pre x y cls ss = map (\<lambda>(i, s). text_el (pre @ show_nat i) x y (cls s) s) (enumerate 0 ss)"

definition draw_hb :: "xfade \<Rightarrow> knot list \<Rightarrow> story_row \<Rightarrow> dead_facts \<Rightarrow> row_times \<Rightarrow> drawn \<Rightarrow> drawn res" where
  "draw_hb X M row f T = (\<lambda>(els, K).
     let r = row_r row; left = hb_left f
     in rbind (rmap (\<lambda>s. rbind (map_time M s) (\<lambda>d. Inr (d, sx 1 (left s)))) (filter (\<lambda>s. s > 0) (hb_knots M f))) (\<lambda>mid.
        let K1 = kf (''hb-'' @ r) ([(0, sx 1 (left 0)), (rt_c2s T, sx 1 (left 0))] @ mid @
                   [(rt_reap T + 3 / 10, sx 0 (left (f_reap f))), (XFM X, sx 0 1), (XF1 X, sx 1 1)]) K;
            hbc = [''renewed by C2's own sweeps'', ''C2 counts as dead at '' @ fmt_g (f_hb_out f) @ '' s'']
        in rbind (case row of
                    RowA \<Rightarrow> Inr (hbc @ [''dropped at the reap''],
                                [(0, 0, None), (rt_kill T, 1, None), (rt_reap T, 2, None), (XF0 X, 0, Some XF)])
                  | RowB \<Rightarrow> rbind (map_time M (f_hb_out f)) (\<lambda>out_d.
                      Inr (hbc @ [''ran out at '' @ fmt_g (f_hb_out f) @ '' s'', ''dropped at the reap''],
                           [(0, 0, None), (rt_kill T, 1, None), (out_d, 2, None), (rt_reap T + 6 / 10, 3, None),
                            (XF0 X, 0, Some XF)]))) (\<lambda>(hbc1, hch).
           rbind (swap X (''hbc-'' @ r @ ''-'') hch (length hbc1) K1) (\<lambda>K2.
           Inr (els @ captions (''hbc-'' @ r @ ''-'') 214 111
                  (\<lambda>s. if prefix ''ran out'' s then ''why start'' else ''m start'') hbc1, K2)))))"

definition draw_mark :: "xfade \<Rightarrow> knot list \<Rightarrow> story_row \<Rightarrow> dead_facts \<Rightarrow> row_times \<Rightarrow> drawn \<Rightarrow> drawn res" where
  "draw_mark X M row f T = (\<lambda>(els, K).
     let r = row_r row; mkc = [''0 = seen subscribed'']; reap = rt_reap T
     in rbind (case row of
                 RowA \<Rightarrow>
                   (case f_mark f of None \<Rightarrow> Inl TypeError
                    | Some mark \<Rightarrow>
                      rbind (map_time M mark) (\<lambda>mark_d.
                      Inr (mkc @ [''gone since '' @ fmt_g mark @ '' s'',
                                  ''gone '' @ at_least @ '' '' @ GRACE_S @ '' s: C2 counts as dead'', ''dropped at the reap''],
                           [(0, 0, None), (mark_d, 1, None), (reap, 2, None), (reap + 16 / 10, 3, None), (XF0 X, 0, Some XF)],
                           kf (''gr-'' @ r) [(0, sx 0 1), (mark_d - 1 / 100, sx 0 1), (mark_d, sx 1 1), (reap, sx 1 0),
                             (reap + 3 / 10, sx 0 0)] K)))
               | RowB \<Rightarrow> Inr (mkc @ [''dropped at the reap''], [(0, 0, None), (reap + 6 / 10, 1, None), (XF0 X, 0, Some XF)], K))
          (\<lambda>(mkc1, mch, K1).
          rbind (swap X (''mkc-'' @ r @ ''-'') mch (length mkc1) K1) (\<lambda>K2.
          Inr (els @ captions (''mkc-'' @ r @ ''-'') 214 163
                 (\<lambda>s. if sublist ''dead'' s then ''why start'' else ''m start'') mkc1, K2))))"

section \<open>One row: the narration\<close>

definition max_rat :: "rat list \<Rightarrow> rat res" where
  "max_rat xs = (if xs = [] then Inl ValueError else Inr (Max (set xs)))"

definition min_rat :: "rat list \<Rightarrow> rat res" where
  "min_rat xs = (if xs = [] then Inl ValueError else Inr (Min (set xs)))"

definition narration :: "story_row \<Rightarrow> dead_facts \<Rightarrow> rat \<Rightarrow> rat \<Rightarrow> row_times \<Rightarrow> string list res" where
  "narration row f skip chk T =
     (let g = fmt_g;
          n0 = ['''', ''C2's own sweep at 0 s: renews its heartbeat, moves the shared clock'',
                ''C1's sweep at '' @ g skip @ '' s: clock moved '' @ g (skip - f_c2_last f) @ '' s ago (< .5 s), so no presence check''];
          wk = ''wake '' @ arrow @ '' C1 pops '' @ snd (rt_pop1 T) @ '', then '' @ snd (rt_pop2 T)
      in case row of
           RowA \<Rightarrow>
             (case f_mark f of None \<Rightarrow> Inl TypeError
              | Some mark \<Rightarrow> Inr (n0 @
                  [''C1's sweep at '' @ g chk @ '' s moves the clock: no subscriber, so mark = '' @ g mark,
                   ''C1's sweep at '' @ g (f_reap f) @ '' s: gone '' @ at_least @ '' '' @ GRACE_S @ '' s, so C2 is dead: J1, J2 to the list front'', wk]))
         | RowB \<Rightarrow> Inr (n0 @
             [''C1's sweep at '' @ g chk @ '' s: C2's subscriber still counted, so mark stays 0'',
              ''C1's sweep at '' @ g (f_reap f) @ '' s: heartbeat ran out, so C2 is dead: J1, J2 to the list front'', wk]))"

definition draw_narration :: "xfade \<Rightarrow> knot list \<Rightarrow> story_row \<Rightarrow> dead_facts \<Rightarrow> row_times \<Rightarrow> drawn \<Rightarrow> drawn res" where
  "draw_narration X M row f T = (\<lambda>(els, K).
     let r = row_r row
     in rbind (rnth (f_sweeps f) 0) (\<lambda>(skip, skip_tk, _).
        rbind (rnth (f_sweeps f) 1) (\<lambda>(chk, chk_tk, _).
        rbind (rcheck (\<not> skip_tk \<and> chk_tk)) (\<lambda>_.
        rbind (narration row f skip chk T) (\<lambda>nar.
        rbind (rcheck (list_all (\<lambda>s. 400 + of_nat (py_len s) * (67 / 10 :: rat) \<le> 936) nar)) (\<lambda>_.
        rbind (map_time M skip) (\<lambda>skip_d.
        rbind (map_time M chk) (\<lambda>chk_d.
        rbind (max_rat (dvals (rt_acks T))) (\<lambda>last_ack.
        let nch = [(0, 0, None), (rt_c2s T, 1, None), (skip_d, 2, None), (chk_d, 3, None)]
              @ (case row of RowA \<Rightarrow> [] | RowB \<Rightarrow> [(chk_d + 24 / 10, 0, None)])
              @ [(rt_reap T, 4, None), (rt_wake T, 5, None), (last_ack + 2 / 10, 6, None), (XF0 X, 0, Some XF)]
        in rbind (swap X (''nar-'' @ r @ ''-'') nch (length nar + 1) K) (\<lambda>K1.
           Inr (els @ captions (''nar-'' @ r @ ''-'') 400 10 (\<lambda>_. ''note start'') nar
                @ [text_el (''nar-'' @ r @ ''-'' @ show_nat (length nar)) 936 10 ''st end''
                     (''J1, J2 back in the list at '' @ fmt_g (f_reap f) @ '' s'')], K1)))))))))))"

section \<open>One row: the jobs, the dots, C1\<close>

type_synonym positions = "(string, point list) dict"

definition need_key :: "('k, 'v) dict \<Rightarrow> 'k \<Rightarrow> 'v res" where
  "need_key d k = (case dget d k of None \<Rightarrow> Inl KeyError | Some v \<Rightarrow> Inr v)"

definition at_pos :: "string \<Rightarrow> rat \<Rightarrow> rat \<times> rat \<Rightarrow> cssv \<Rightarrow> positions \<Rightarrow> positions" where
  "at_pos v t p o1 pos = dappend v (at_pt t (fst p) (snd p) o1 None) pos"

definition at_all :: "string \<Rightarrow> (rat \<times> (rat \<times> rat) \<times> cssv) list \<Rightarrow> positions \<Rightarrow> positions" where
  "at_all v xs pos = fold (\<lambda>(t, p, o1). at_pos v t p o1) xs pos"

text \<open>Start: pending under C2; requeue: along the row and up into the list, in the order of the list.\<close>

definition pos_start :: "row_times \<Rightarrow> nat \<times> string \<Rightarrow> positions \<Rightarrow> positions res" where
  "pos_start T = (\<lambda>(i, v) pos.
     rbind (need_key P_place i) (\<lambda>p. Inr (at_all v [(0, p, VInt 1), (rt_reap T, p, VInt 1)] pos)))"

definition pos_requeue :: "row_times \<Rightarrow> nat \<times> string \<Rightarrow> positions \<Rightarrow> positions res" where
  "pos_requeue T = (\<lambda>(i, v) pos.
     rbind (need_key SLOT_dead i) (\<lambda>sl.
     rbind (need_key P_place 0) (\<lambda>p0.
     Inr (at_all v [(rt_reap T + 3 / 10, (fst sl, snd p0), VInt 1), (rt_reap T + 5 / 10, sl, VInt 1)] pos))))"

text \<open>Each pop takes the head, down, left into pending, and is acknowledged; the rest moves up.\<close>

definition slide :: "nat \<Rightarrow> rat res" where
  "slide k = rbind (need_key SLOT_dead 0) (\<lambda>s0. rbind (need_key P_place k) (\<lambda>p. Inr (2 / 10 + (fst s0 - fst p) / 600)))"

definition pos_pop :: "row_times \<Rightarrow> nat \<times> rat \<times> string \<Rightarrow> positions \<Rightarrow> positions res" where
  "pos_pop T = (\<lambda>(k, pd, v) pos.
     rbind (need_key SLOT_dead 0) (\<lambda>s0.
     rbind (need_key SLOT_dead 1) (\<lambda>s1.
     rbind (need_key P_place k) (\<lambda>p.
     rbind (slide k) (\<lambda>d.
     rbind (need_key (rt_acks T) v) (\<lambda>a.
     let pos1 = at_all v [(pd, s0, VInt 1), (pd + 2 / 10, (fst s0, snd p), VInt 1), (pd + d, p, VInt 1),
                          (a, p, VInt 1), (a + 3 / 10, p, VInt 0)] pos
     in if k = 0
        then rbind (rcheck (fst (rt_pop2 T) \<ge> pd + 45 / 100)) (\<lambda>_.
             Inr (at_all (snd (rt_pop2 T)) [(pd + 25 / 100, s1, VInt 1), (pd + 45 / 100, s0, VInt 1)] pos1))
        else Inr pos1))))))"

definition lower :: "string \<Rightarrow> string" where
  "lower s = map (\<lambda>c. if CHR ''A'' \<le> c \<and> c \<le> CHR ''Z'' then char_of (of_char c + 32 :: nat) else c) s"

definition pos_end :: "xfade \<Rightarrow> string \<Rightarrow> nat \<times> string \<Rightarrow> positions \<times> kfu \<Rightarrow> (positions \<times> kfu) res" where
  "pos_end X r = (\<lambda>(i, v) (pos, K).
     rbind (need_key P_place i) (\<lambda>p.
     let pos1 = at_all v [(XFM X, p, VInt 0), (XF1 X, p, VInt 1)] pos
     in rbind (need_key pos1 v) (\<lambda>pts. Inr (pos1, kf (lower v @ ''-'' @ r) pts K))))"

definition jobs_dead :: "string list" where "jobs_dead = [''J1'', ''J2'']"

definition draw_jobs_dead :: "xfade \<Rightarrow> string \<Rightarrow> dead_facts \<Rightarrow> row_times \<Rightarrow> kfu \<Rightarrow> kfu res" where
  "draw_jobs_dead X r f T K =
     rbind (rfold (pos_start T) (enumerate 0 jobs_dead) []) (\<lambda>p1.
     rbind (rfold (pos_requeue T) (enumerate 0 (f_order f)) p1) (\<lambda>p2.
     rbind (rfold (pos_pop T) (enumerate 0 [rt_pop1 T, rt_pop2 T]) p2) (\<lambda>p3.
     rbind (rfold (pos_end X r) (enumerate 0 jobs_dead) (p3, K)) (\<lambda>(_, K1). Inr K1))))"

text \<open>The pop dots into C1, its ownership marks, and the arrival time of each job.\<close>

definition draw_dot :: "xfade \<Rightarrow> string \<Rightarrow> row_times \<Rightarrow> nat \<times> (rat \<times> string) \<times> string \<times> string
    \<Rightarrow> (string, rat) dict \<times> kfu \<Rightarrow> ((string, rat) dict \<times> kfu) res" where
  "draw_dot X r T = (\<lambda>(k, (pd, v), g, own) (arrive, K).
     rbind (walk (g @ ''-'' @ r) pd POP_EDGE_dead 300 K) (\<lambda>(t, K1).
     rbind (slide k) (\<lambda>d.
     rbind (need_key (rt_acks T) v) (\<lambda>a.
     Inr (dset v t arrive, vis X (''own1'' @ own @ ''-'' @ r) [(Some (pd + d), Some a)] K1)))))"

definition draw_c1 :: "xfade \<Rightarrow> string \<Rightarrow> row_times \<Rightarrow> kfu \<Rightarrow> kfu res" where
  "draw_c1 X r T K =
     (let own2 = [(None, Some (rt_reap T))];
          K1 = vis X (''own2b-'' @ r) own2 (vis X (''own2a-'' @ r) own2 K)
      in rbind (rfold (draw_dot X r T) [(0, rt_pop1 T, ''g1'', ''a''), (1, rt_pop2 T, ''g2'', ''b'')] ([], K1)) (\<lambda>(arrive, K2).
         rbind (max_rat (dvals (rt_acks T))) (\<lambda>last_ack.
         let shown = (last_ack + 3 / 10, min (last_ack + 2) (XF0 X - 3 / 10))
         in rbind (rcheck (snd shown - fst shown \<ge> 9 / 10)) (\<lambda>_.
            rbind (walk (''wk-'' @ r) (rt_wake T) WAKE_EDGE 300 (vis X (''acked-'' @ r) [(Some (fst shown), Some (snd shown))] K2)) (\<lambda>(_, K3).
            rbind (min_rat (dvals arrive)) (\<lambda>first.
            bar (''c1bar-'' @ r) [(first, last_ack, None)]
              (flash (''c1glow-'' @ r) [(first, last_ack)] (VFlt (14 / 100)) (12 / 100) (25 / 100) K3)))))))"

definition draw_row :: "xfade \<Rightarrow> knot list \<Rightarrow> story_row \<Rightarrow> dead_facts \<Rightarrow> kfu \<Rightarrow> (string \<times> kfu) res" where
  "draw_row X M row f K =
     (let r = row_r row
      in rbind (row_times_of X M f) (\<lambda>T.
         rbind (draw_c2 X r T K) (\<lambda>K1.
         rbind (draw_sub X M row f T ([], K1)) (\<lambda>d2.
         rbind (draw_hb X M row f T d2) (\<lambda>d3.
         rbind (draw_mark X M row f T d3) (\<lambda>d4.
         rbind (draw_narration X M row f T d4) (\<lambda>(els, K5).
         let ts = map fst (rt_sweeps T)
         in rbind (rcheck (list_all (\<lambda>(a, b). b - a \<ge> 6 / 10) (zip ts (tl ts)))) (\<lambda>_.
            rbind (draw_jobs_dead X r f T (ring (''c1ring-'' @ r) ts (6 / 10) K5)) (\<lambda>K6.
            rbind (draw_c1 X r T K6) (\<lambda>K7.
            Inr (join (nl @ ''    '') els, K7)))))))))))"

section \<open>The picture\<close>

definition split2 :: "string \<Rightarrow> string \<Rightarrow> (string \<times> string) res" where
  "split2 sep s = (case split_on sep s of [a, b] \<Rightarrow> Inr (a, b) | _ \<Rightarrow> Inl ValueError)"

definition row_block :: "string \<Rightarrow> story_row \<Rightarrow> string \<Rightarrow> string" where
  "row_block block row els =
     replace_all ''<!--ROW-ELEMENTS-->'' els
       (replace_all ''{KILL}'' (row_kill row)
         (replace_all ''{TITLE}'' (esc (row_title row))
           (replace_all ''{Y}'' (show_int (row_Y row)) (replace_all ''{r}'' (row_r row) block))))"

definition dead_desc :: "dead_facts \<Rightarrow> dead_facts \<Rightarrow> rat \<Rightarrow> string" where
  "dead_desc fa fb mark =
     (let hbt = show_int (HBT div 1000); kill = fmt_g (f_kill fa); skip = fmt_g (f_skip fa);
          reapA = fmt_g (f_reap fa); reapB = fmt_g (f_reap fb)
      in ''Two rows show the same start on one clock, in real seconds (times not to scale). Consumer C2 holds two ''
       @ ''jobs, J1 and J2, that it dequeued and has not acknowledged: they sit in the pending hash under its owner ''
       @ ''ID. Its own sweep, once a second, has just renewed its heartbeat to now plus '' @ hbt @ '' seconds and its ''
       @ ''presence mark is 0, meaning a sweep has seen it subscribed to its wake channel. Consumer C1 is alive, ''
       @ ''idle, and sweeps once a second. At '' @ kill @ '' s C2 stops without calling Close, so it sweeps no more. ''
       @ ''A sweep moves the shared clock only if half a second has passed since the last move, and only a sweep ''
       @ ''that moves it checks subscribers: C1's sweep at '' @ skip @ '' s comes '' @ skip @ '' s after C2's last sweep moved the ''
       @ ''clock, so it checks heartbeats but not subscribers. ''
       @ ''Row A, process killed: Redis drops the dead process's subscription at once. C1's sweep at '' @ fmt_g mark @ '' s moves ''
       @ ''the clock, finds no subscriber and sets C2's presence mark to '' @ fmt_g mark @ ''. At '' @ reapA @ '' s a sweep finds C2 gone ''
       @ ''for at least '' @ GRACE_S @ '' seconds and takes it for dead: J1 and J2 go back to the front of the list in one step (J2 at ''
       @ ''the head), and C2's heartbeat and mark are dropped although the heartbeat had time left. ''
       @ ''Row B, host lost: Redis keeps the lost host's socket open, so it still counts C2's subscription and the ''
       @ ''mark stays 0. C2's heartbeat runs out at '' @ hbt @ '' s and C1's sweep at '' @ reapB @ '' s takes C2 for dead, with the ''
       @ ''same requeue. In both rows the requeue wakes C1, which pops J2 and then J1, runs them and acknowledges ''
       @ ''them, leaving the list and the pending hash empty. Row A got its jobs back after about '' @ reapA @ '' seconds, ''
       @ ''row B after about '' @ reapB @ ''. The picture then fades back to the start.'')"

definition row_order_facts :: "dead_facts \<Rightarrow> dead_facts \<Rightarrow> bool" where
  "row_order_facts fa fb \<longleftrightarrow> f_reap fa < f_reap fb
     \<and> list_all (\<lambda>(t, _). fst FF - 5 / 10 \<ge> t) (f_acks fa) \<and> f_hb_out fb - 1 \<ge> snd FF
     \<and> list_all (\<lambda>f. list_all (\<lambda>(t, tk, ns). in_ff t \<longrightarrow> tk \<and> ns = []) (f_sweeps f)) [fa, fb]"

definition xfade_of :: "knot list \<Rightarrow> xfade res" where
  "xfade_of M = rbind (map_time M (secs END)) (\<lambda>x0. Inr \<lparr>XF0 = x0, XFM = (x0 + (x0 + XF)) / 2, XF1 = x0 + XF\<rparr>)"

definition clock_n :: nat where "clock_n = nat (END div 1000) + 1"

definition draw_clock :: "xfade \<Rightarrow> knot list \<Rightarrow> kfu \<Rightarrow> (string list \<times> kfu) res" where
  "draw_clock X M K =
     rbind (rmap (\<lambda>i. rbind (map_time M (of_nat i)) (\<lambda>d. Inr (d, i, Some (8 / 100)))) [1..<clock_n]) (\<lambda>cs.
     rbind (swap X ''clk'' ([(0, 0, None)] @ cs @ [(XF0 X, 0, Some XF)]) clock_n K) (\<lambda>K1.
     rbind (map_time M (fst FF)) (\<lambda>ff0.
     rbind (map_time M (snd FF)) (\<lambda>ff1.
     Inr (map (\<lambda>i. text_el (''clk'' @ show_nat i) 936 22 ''clk'' (''t = '' @ show_nat i @ '' s'')) [0..<clock_n],
          vis X ''replay'' [(Some (XF0 X - 3 / 10), Some (XF1 X + 3 / 10))] (vis X ''ff'' [(Some ff0, Some ff1)] K1))))))"

definition draw_dead :: "(string \<Rightarrow> string option) \<Rightarrow> dead_facts \<Rightarrow> dead_facts \<Rightarrow> kfu \<Rightarrow> (string \<times> knot list \<times> kfu) res" where
  "draw_dead files fa fb K =
     rbind (rcheck (row_order_facts fa fb)) (\<lambda>_.
     rbind (build_map fa fb) (\<lambda>M.
     rbind (xfade_of M) (\<lambda>X.
     let K0 = K\<lparr>loop_D := of_int \<lceil>XF1 X + 5 / 10\<rceil>\<rparr>
     in rbind (read_file files ''dead.tpl.svg'') (\<lambda>tpl.
        rbind (split2 ''<!--ROW-->'' tpl) (\<lambda>(head, rest).
        rbind (split2 ''<!--/ROW-->'' rest) (\<lambda>(block, tail).
        rbind (draw_row X M RowA fa K0) (\<lambda>(elsA, K1).
        rbind (draw_row X M RowB fb K1) (\<lambda>(elsB, K2).
        rbind (draw_clock X M K2) (\<lambda>(clock, K3).
        rbind (case f_mark fa of None \<Rightarrow> Inl TypeError | Some m \<Rightarrow> Inr m) (\<lambda>mark.
        let svg = replace_all ''<!--CLOCK-->'' (join (nl @ ''  '') clock)
                    (head @ row_block block RowA elsA @ row_block block RowB elsB @ tail);
            svg1 = replace_all ''{H1}'' (show_int (H_dead - 1)) (replace_all ''{H}'' (show_int H_dead) svg);
            svg2 = replace_all ''{DESC}'' (esc (dead_desc fa fb mark))
                     (replace_all ''{SEP}'' (show_int (row_Y RowB - 8)) svg1)
        in rbind (seams K3) (\<lambda>_. Inr (svg2, M, K3))))))))))))"

definition build_dead :: "(string \<Rightarrow> string option) \<Rightarrow> dead_facts \<Rightarrow> dead_facts \<Rightarrow> kfu \<Rightarrow> (kfu \<times> string) res" where
  "build_dead files fa fb K =
     rbind (draw_dead files fa fb (K\<lparr>rules := [], elements := []\<rparr>)) (\<lambda>(svg, M, K1).
     rbind (map_time M (115 / 10)) (\<lambda>d.
     rbind (render files svg (py_round 2 d) None K1) (\<lambda>out.
     Inr (K1, out))))"

text \<open>\<open>build\<close>: both simulations, both rows' facts, then the picture.\<close>

definition build_dead_all :: "nat \<Rightarrow> (string \<Rightarrow> string option) \<Rightarrow> kfu \<Rightarrow> (kfu \<times> string) res option" where
  "build_dead_all fuel files K =
     (case (row_facts fuel RowA, row_facts fuel RowB) of
        (Some a, Some b) \<Rightarrow> Some (rbind a (\<lambda>fa. rbind b (\<lambda>fb. build_dead files fa fb K)))
      | _ \<Rightarrow> None)"

end
