(* ===== verification/Dead_Picture.thy ===== *)
theory Dead_Picture
  imports Dead_Draw Draw_Store
begin

text \<open>
  Properties of the dead-consumer drawing: every step only appends tracks in time order, and two texts
  that \<open>swap\<close> exchanges at the cross-fade are never visible together.
\<close>

section \<open>Every step paints\<close>

context painter begin

lemma P_vis: "P K K1 \<Longrightarrow> P K (vis X name sps K1)"
  by (simp add: vis_def P_kf)

lemma P_swap: "swap X pre cs n K1 = Inr K2 \<Longrightarrow> P K K1 \<Longrightarrow> P K K2"
  by (auto simp: swap_def split: list.splits intro!: P_fold P_kf)

lemma P_draw_c2: "draw_c2 X r T K1 = Inr K2 \<Longrightarrow> P K1 K2"
  by (auto simp: draw_c2_def Let_def elim!: P_swap intro!: P_vis P_ring P_kf same)

lemma P_draw_sub: "draw_sub X M row f T d = Inr d' \<Longrightarrow> P (snd d) (snd d')"
  by (cases d; cases row) (auto simp: draw_sub_def Let_def elim!: P_swap intro!: P_vis P_kf same)

lemma P_draw_hb: "draw_hb X M row f T d = Inr d' \<Longrightarrow> P (snd d) (snd d')"
  by (cases d; cases row) (auto simp: draw_hb_def Let_def elim!: P_swap intro!: P_kf same)

lemma P_draw_mark: "draw_mark X M row f T d = Inr d' \<Longrightarrow> P (snd d) (snd d')"
  by (cases d; cases row) (auto simp: draw_mark_def Let_def split: option.splits elim!: P_swap intro!: P_kf same)

lemma P_draw_narration: "draw_narration X M row f T d = Inr d' \<Longrightarrow> P (snd d) (snd d')"
  by (cases d) (auto simp: draw_narration_def Let_def elim!: P_swap intro!: same)

lemma P_draw_jobs_dead:
  assumes "draw_jobs_dead X r f T K1 = Inr K2"
  shows "P K1 K2"
proof -
  from assms obtain p3 p4 where p: "rfold (pos_end X r) (enumerate 0 jobs_dead) (p3, K1) = Inr (p4, K2)"
    by (auto simp: draw_jobs_dead_def simp del: rfold.simps)
  have "P K1 (snd (p3, K1))" by (simp add: same)
  moreover have "P (snd a) (snd b)" if "pos_end X r x a = Inr b" for x a b
    using that by (cases x; cases a) (auto simp: pos_end_def Let_def intro!: P_kf same)
  ultimately have "P K1 (snd (p4, K2))" by (rule P_rfold_in [where g = snd, OF p])
  then show ?thesis by simp
qed

lemma P_draw_c1:
  assumes "draw_c1 X r T K1 = Inr K2"
  shows "P K1 K2"
proof -
  let ?o = "[(None, Some (rt_reap T))]"
  let ?K = "vis X (''own2b-'' @ r) ?o (vis X (''own2a-'' @ r) ?o K1)"
  obtain ar A sp t B a b where A: "rfold (draw_dot X r T) [(0, rt_pop1 T, ''g1'', ''a''), (1, rt_pop2 T, ''g2'', ''b'')] ([], ?K) = Inr (ar, A)"
    and B: "walk (''wk-'' @ r) (rt_wake T) WAKE_EDGE 300 (vis X (''acked-'' @ r) sp A) = Inr (t, B)"
    and K2: "bar (''c1bar-'' @ r) [(a, b, None)] (flash (''c1glow-'' @ r) [(a, b)] (VFlt (14 / 100)) (12 / 100) (25 / 100) B) = Inr K2"
    using assms by (auto simp: draw_c1_def Let_def simp del: rfold.simps)
  have "P K1 (snd ([], ?K))" by (simp add: P_vis same)
  moreover have "P (snd a) (snd b)" if "draw_dot X r T x a = Inr b" for x a b
    using that by (cases x; cases a) (auto simp: draw_dot_def elim!: P_walk intro!: P_vis same)
  ultimately have "P K1 (snd (ar, A))" by (rule P_rfold_in [where g = snd, OF A])
  then have "P K1 (vis X (''acked-'' @ r) sp A)" by (simp add: P_vis)
  from P_walk [OF B this] have "P K1 B" .
  then show ?thesis by (intro P_bar [OF K2] P_flash)
qed

lemma P_draw_row:
  assumes "draw_row X M row f K1 = Inr (els, K2)"
  shows "P K1 K2"
proof -
  obtain T A d2 d3 d4 es B ts C where a: "draw_c2 X (row_r row) T K1 = Inr A" "draw_sub X M row f T ([], A) = Inr d2"
    "draw_hb X M row f T d2 = Inr d3" "draw_mark X M row f T d3 = Inr d4" "draw_narration X M row f T d4 = Inr (es, B)"
    "draw_jobs_dead X (row_r row) f T (ring (''c1ring-'' @ row_r row) ts (6 / 10) B) = Inr C"
    "draw_c1 X (row_r row) T C = Inr K2"
    using assms unfolding draw_row_def Let_def by (auto simp only: rbind_eq_Inr sum.inject prod.inject prod.case split_paired_Ex)
  have "P K1 (snd ([] :: string list, A))" using P_draw_c2 [OF a(1)] by simp
  from seq [OF seq [OF seq [OF seq [OF this P_draw_sub [OF a(2)]] P_draw_hb [OF a(3)]] P_draw_mark [OF a(4)]] P_draw_narration [OF a(5)]]
  have "P K1 (ring (''c1ring-'' @ row_r row) ts (6 / 10) B)" by (simp add: P_ring)
  from seq [OF seq [OF this P_draw_jobs_dead [OF a(6)]] P_draw_c1 [OF a(7)]] show ?thesis .
qed

lemma P_draw_clock: "draw_clock X M K1 = Inr (cs, K2) \<Longrightarrow> P K1 K2"
  by (auto simp: draw_clock_def elim!: P_swap intro!: P_vis same)

end

text \<open>What the drawing stores: the loop's length, then only appended tracks, all of them without a seam.\<close>

lemma draw_dead_extends:
  assumes "draw_dead files fa fb K = Inr (svg, M, K')"
  shows "extends (K\<lparr>loop_D := loop_D K'\<rparr>) K' \<and> list_all (seamless (loop_D K')) (rules K')"
proof -
  obtain X elsA elsB cs A B u where "draw_row X M RowA fa (K\<lparr>loop_D := of_int \<lceil>XF1 X + 5 / 10\<rceil>\<rparr>) = Inr (elsA, A)"
    "draw_row X M RowB fb A = Inr (elsB, B)" "draw_clock X M B = Inr (cs, K')" and s: "seams K' = Inr u"
    using assms unfolding draw_dead_def Let_def by (auto simp only: rbind_eq_Inr sum.inject prod.inject prod.case split_paired_Ex)
  from store.seq [OF store.seq [OF store.P_draw_row [OF this(1)] store.P_draw_row [OF this(2)]] store.P_draw_clock [OF this(3)]]
  have e: "extends (K\<lparr>loop_D := of_int \<lceil>XF1 X + 5 / 10\<rceil>\<rparr>) K'" .
  then have "loop_D K' = of_int \<lceil>XF1 X + 5 / 10\<rceil>" by (simp add: extends_def)
  with e s show ?thesis by (simp add: seams_iff)
qed

section \<open>Two texts never meet in the cross-fade\<close>

definition fade_of :: "rat \<Rightarrow> change \<Rightarrow> rat" where
  "fade_of fade c = (case snd (snd c) of None \<Rightarrow> fade | Some d \<Rightarrow> d)"

definition shown :: "nat \<Rightarrow> change \<Rightarrow> int" where
  "shown k c = (if fst (snd c) = k then 1 else 0)"

text \<open>Every change has faded in before the next one, and before \<open>e\<close>.\<close>

definition faded_by :: "rat \<Rightarrow> rat \<Rightarrow> change list \<Rightarrow> bool" where
  "faded_by fade e cs \<longleftrightarrow> successively (\<lambda>a b. fst a + fade_of fade a \<le> fst b) cs
     \<and> (\<forall>c \<in> set cs. 0 \<le> fade_of fade c \<and> fst c < e \<and> fst c + fade_of fade c \<le> e)"

lemma swap_loop_append:
  "swap_loop X fade k cur (cs @ ds) =
     swap_loop X fade k cur cs @ swap_loop X fade k (if cs = [] then cur else Some (shown k (last cs))) ds"
  by (induction X fade k cur cs rule: swap_loop.induct) (auto simp: Let_def shown_def)

lemma swap_loop_last:
  assumes "cs \<noteq> []" and "\<forall>c \<in> set cs. fst c \<noteq> XF0 X"
  shows "\<exists>us t. swap_loop X fade k None cs = us @ [(t, op (VInt (shown k (last cs))))]"
  using assms
proof (induction cs rule: rev_induct)
  case (snoc c cs)
  obtain t i f where c: "c = (t, i, f)" by (metis prod.exhaust)
  show ?case
  proof (cases "cs = []")
    case False
    with snoc obtain us u where us: "swap_loop X fade k None cs = us @ [(u, op (VInt (shown k (last cs))))]" by auto
    have "t \<noteq> XF0 X" using snoc.prems c by auto
    then show ?thesis unfolding swap_loop_append using False us by (auto simp: c shown_def Let_def)
  qed (simp add: c shown_def Let_def)
qed simp

lemma swap_loop_sorted:
  assumes "faded_by fade e (c # cs)" and "e \<le> XF0 X"
  shows "sorted (map fst (swap_loop X fade k (Some b) (c # cs)))
    \<and> (\<forall>p \<in> set (swap_loop X fade k (Some b) (c # cs)). fst c \<le> fst p \<and> fst p \<le> e)"
  using assms(1)
proof (induction cs arbitrary: c b)
  case Nil
  obtain t i f where c: "c = (t, i, f)" by (metis prod.exhaust)
  with Nil assms(2) show ?case by (auto simp: faded_by_def fade_of_def Let_def)
next
  case (Cons d cs)
  obtain t i f where c: "c = (t, i, f)" by (metis prod.exhaust)
  have d: "faded_by fade e (d # cs)" "t + fade_of fade c \<le> fst d" "0 \<le> fade_of fade c" "t < e"
    using Cons.prems by (auto simp: faded_by_def c)
  define w where "w = fade_of fade c"
  define rest where "rest = swap_loop X fade k (Some (if i = k then 1 else 0)) (d # cs)"
  have "\<exists>mid. swap_loop X fade k (Some b) (c # d # cs) = mid @ rest \<and> (mid = [] \<or> (\<exists>u v. mid = [(t, u), (t + w, v)]))"
    using d(4) assms(2) by (simp add: c rest_def w_def fade_of_def Let_def del: swap_loop.simps(2)
      add: swap_loop.simps(2) [of X fade k _ t i f])
  then obtain mid where mid: "swap_loop X fade k (Some b) (c # d # cs) = mid @ rest"
    "mid = [] \<or> (\<exists>u v. mid = [(t, u), (t + w, v)])" by blast
  have r: "sorted (map fst rest)" "\<forall>p \<in> set rest. fst d \<le> fst p \<and> fst p \<le> e"
    using Cons.IH [OF d(1)] by (simp_all add: rest_def)
  have low: "\<forall>p \<in> set rest. t + w \<le> fst p \<and> t \<le> fst p" using r(2) d(2,3) unfolding w_def by force
  have "t + w \<le> e" "0 \<le> w" using Cons.prems by (simp_all add: faded_by_def c w_def)
  then show ?case unfolding mid(1) using mid(2) r low d(4) by (auto simp: c)
qed

lemma swap_track:
  assumes "faded_by fade (XF0 X) (c # cs)" and "fst c = 0"
  shows "sorted (map fst (swap_loop X fade k None (c # cs))) \<and> (\<forall>p \<in> set (swap_loop X fade k None (c # cs)). fst p \<le> XF0 X)
    \<and> fst (hd (swap_loop X fade k None (c # cs))) = 0"
proof -
  obtain i f where c: "c = (0, i, f)" using assms(2) by (cases c) auto
  show ?thesis
  proof (cases cs)
    case Nil
    with assms show ?thesis by (simp add: c faded_by_def Let_def)
  next
    case (Cons d ds)
    have d: "faded_by fade (XF0 X) (d # ds)" "0 \<le> fst d" "0 < XF0 X"
      using assms by (auto simp: faded_by_def c Cons)
    define rest where "rest = swap_loop X fade k (Some (if i = k then 1 else 0)) (d # ds)"
    have "swap_loop X fade k None (c # cs) = (0, op (VInt (if i = k then 1 else 0))) # rest"
      by (simp add: c Cons rest_def Let_def del: swap_loop.simps(2) add: swap_loop.simps(2) [of X fade k _ 0 i f])
    moreover have "sorted (map fst rest)" "\<forall>p \<in> set rest. fst d \<le> fst p \<and> fst p \<le> XF0 X"
      using swap_loop_sorted [OF d(1) order_refl] by (simp_all add: rest_def)
    ultimately show ?thesis using d(2,3) by (auto intro: order_trans)
  qed
qed

lemma padded_from_0:
  assumes "pts \<noteq> []" and "fst (hd pts) = 0" and "fst (last pts) \<le> D"
  shows "\<exists>ws. padded D name pts = Inr (pts @ ws) \<and> (fst (last pts) < D \<longrightarrow> ws = [(D, snd (last pts))])"
  using assms by (cases pts) (auto simp: padded_def Let_def)

lemma faded_sorted: "faded_by fade e cs \<Longrightarrow> sorted (map fst cs)"
proof (induction cs)
  case (Cons c cs)
  then have so: "sorted (map fst cs)" by (cases cs) (auto simp: faded_by_def)
  show ?case
  proof (cases cs)
    case (Cons d ds)
    with Cons.prems have "fst c \<le> fst d" by (force simp: faded_by_def)
    with so Cons show ?thesis by (auto intro: order_trans)
  qed simp
qed simp

text \<open>The end of one text's track: the old text leaves by the middle, the new one comes from there on.\<close>

lemma swap_end:
  fixes k i :: nat and f :: "rat option"
  assumes cs: "cs \<noteq> []" "fst (hd cs) = 0" "faded_by fade (XF0 X) cs"
    and X: "XF0 X < XFM X" "XFM X < XF1 X" "XF1 X \<le> D"
  defines "pts \<equiv> swap_loop X fade k None (cs @ [(XF0 X, i, f)])"
  shows "sorted (map fst pts) \<and> (\<exists>ps. padded D name pts = Inr ps
    \<and> (k \<noteq> fst (snd (last cs)) \<longrightarrow> (\<forall>x. XF0 X \<le> x \<and> x \<le> XFM X \<longrightarrow> held ps x (op (VInt 0))))
    \<and> (k \<noteq> i \<longrightarrow> (\<forall>x. XFM X \<le> x \<and> x \<le> D \<longrightarrow> held ps x (op (VInt 0)))))"
proof -
  let ?L = "swap_loop X fade k None cs" and ?c = "shown k (last cs)" and ?o = "if i = k then 1 else 0 :: int"
  obtain c0 cs0 where "cs = c0 # cs0" using cs(1) by (cases cs) auto
  with swap_track [of fade X c0 cs0 k] cs have so: "sorted (map fst ?L)" "\<forall>p \<in> set ?L. fst p \<le> XF0 X" "fst (hd ?L) = 0" by auto
  obtain us t where us: "?L = us @ [(t, op (VInt ?c))]"
    using swap_loop_last [OF cs(1), of X fade k] cs(3) by (fastforce simp: faded_by_def)
  have t: "t \<le> XF0 X" using so(2) us by simp
  define tl where "tl = (if ?o = ?c then [] else if ?c \<noteq> 0 then [(XF0 X, op (VInt 1)), (XFM X, op (VInt 0))]
      else [(XFM X, op (VInt 0)), (XF1 X, op (VInt 1))])"
  have pts: "pts = us @ (t, op (VInt ?c)) # tl"
    unfolding pts_def swap_loop_append us using cs(1) by (simp add: tl_def Let_def)
  have sorted: "sorted (map fst pts)" using so X t unfolding pts us by (auto simp: sorted_append tl_def)
  have ends: "pts \<noteq> []" "fst (hd pts) = 0" "fst (last pts) \<le> D"
    using so(3) t X by (auto simp: pts us tl_def hd_append split: if_splits)
  from padded_from_0 [OF ends] obtain ws where ws: "padded D name pts = Inr (pts @ ws)"
    "fst (last pts) < D \<Longrightarrow> ws = [(D, snd (last pts))]" by blast
  have "held (pts @ ws) x (op (VInt 0))" if "k \<noteq> fst (snd (last cs))" "XF0 X \<le> x" "x \<le> XFM X" for x
  proof -
    have c: "?c = 0" using that(1) by (simp add: shown_def)
    show ?thesis
    proof (cases "i = k")
      case True
      with c have "pts @ ws = us @ (t, op (VInt 0)) # (XFM X, op (VInt 0)) # (XF1 X, op (VInt 1)) # ws"
        by (simp add: pts tl_def)
      with that t show ?thesis by (auto intro: heldI)
    next
      case False
      with c ws(2) t X have "pts @ ws = us @ (t, op (VInt 0)) # (D, op (VInt 0)) # []" by (simp add: pts tl_def)
      with that t X show ?thesis by (auto intro: heldI)
    qed
  qed
  moreover have "held (pts @ ws) x (op (VInt 0))" if "k \<noteq> i" "XFM X \<le> x" "x \<le> D" for x
  proof (cases "k = fst (snd (last cs))")
    case True
    with that(1) ws(2) X have "pts @ ws = (us @ [(t, op (VInt ?c)), (XF0 X, op (VInt 1))]) @ (XFM X, op (VInt 0)) # (D, op (VInt 0)) # []"
      by (simp add: pts tl_def shown_def)
    with that show ?thesis by (auto intro: heldI simp del: append_assoc)
  next
    case False
    with that(1) ws(2) t X have "pts @ ws = us @ (t, op (VInt 0)) # (D, op (VInt 0)) # []"
      by (simp add: pts tl_def shown_def)
    with that t X show ?thesis by (auto intro: heldI)
  qed
  ultimately show ?thesis using sorted ws(1) by blast
qed

text \<open>C39: When \<open>swap\<close> changes texts at the cross-fade \<open>XF0\<close>, the old and the new text never show together:
  \<open>swap\<close> succeeds, every track fits the loop, over the first half of the cross-fade every text but the old
  one is hidden, and from the middle to the loop's end every text but the new one is.\<close>

theorem swap_cross_fade:
  assumes "cs \<noteq> []" and "fst (hd cs) = 0" and "faded_by (15 / 100) (XF0 X) cs"
    and "XF0 X < XFM X" and "XFM X < XF1 X" and "XF1 X \<le> loop_D K"
  shows "\<exists>K'. swap X pre (cs @ [(XF0 X, i, f)]) n K = Inr K'
    \<and> (\<forall>k < n. \<exists>pts ps. (pre @ show_nat k, pts) \<in> set (rules K') \<and> padded (loop_D K) (pre @ show_nat k) pts = Inr ps
        \<and> (k \<noteq> fst (snd (last cs)) \<longrightarrow> (\<forall>x. XF0 X \<le> x \<and> x \<le> XFM X \<longrightarrow> held ps x (op (VInt 0))))
        \<and> (k \<noteq> i \<longrightarrow> (\<forall>x. XFM X \<le> x \<and> x \<le> loop_D K \<longrightarrow> held ps x (op (VInt 0)))))"
proof -
  let ?all = "cs @ [(XF0 X, i, f)]"
  let ?g = "\<lambda>k. swap_loop X (15 / 100) k None ?all"
  have "sorted (map fst ?all)"
  proof -
    have "\<forall>c \<in> set cs. fst c \<le> XF0 X" using assms(3) by (auto simp: faded_by_def)
    moreover have "sorted (map fst cs)" using faded_sorted [OF assms(3)] .
    ultimately show ?thesis by (auto simp: sorted_append)
  qed
  then have so: "sort_key fst ?all = ?all" by (rule sort_key_sorted)
  have "swap X pre ?all n K = Inr (fold (\<lambda>k. kf (pre @ show_nat k) (?g k)) [0..<n] K)"
  proof -
    obtain c ds where c: "?all = c # ds" "fst c = 0" using assms(1,2) by (cases cs) auto
    show ?thesis unfolding swap_def so unfolding c(1) using c(2) by (simp add: rcheck_def del: swap_loop.simps)
  qed
  moreover have "\<exists>ps. (pre @ show_nat k, ?g k) \<in> set (rules (fold (\<lambda>k. kf (pre @ show_nat k) (?g k)) [0..<n] K))
      \<and> padded (loop_D K) (pre @ show_nat k) (?g k) = Inr ps
      \<and> (k \<noteq> fst (snd (last cs)) \<longrightarrow> (\<forall>x. XF0 X \<le> x \<and> x \<le> XFM X \<longrightarrow> held ps x (op (VInt 0))))
      \<and> (k \<noteq> i \<longrightarrow> (\<forall>x. XFM X \<le> x \<and> x \<le> loop_D K \<longrightarrow> held ps x (op (VInt 0))))" if "k < n" for k
  proof -
    note e = swap_end [OF assms, of k i f "pre @ show_nat k"]
    then have "sort_key fst (?g k) = ?g k" by (intro sort_key_sorted) blast
    then have "(pre @ show_nat k, ?g k) \<in> set (rules (fold (\<lambda>k. kf (pre @ show_nat k) (?g k)) [0..<n] K))"
      using that by (auto simp: states_rules intro!: image_eqI [of _ _ k])
    with e show ?thesis by blast
  qed
  ultimately show ?thesis by blast
qed

lemma all_less_two: "(\<forall>k < 2. P k) \<longleftrightarrow> P 0 \<and> P (1 :: nat)"
  by (auto simp: less_2_cases_iff)

theorem swap_cross_fade_witness:
  "\<exists>K'. swap \<lparr>XF0 = 14, XFM = 143 / 10, XF1 = 147 / 10\<rparr> ''c2cap-a-'' [(0, 0, None), (1, 1, None), (14, 0, Some (7 / 10))] 2
      \<lparr>loop_D = 16, rules = [], LEGEND = [], elements = []\<rparr> = Inr K'
    \<and> (\<exists>pts ps. (''c2cap-a-'' @ show_nat 0, pts) \<in> set (rules K') \<and> padded 16 (''c2cap-a-'' @ show_nat 0) pts = Inr ps
        \<and> held ps (142 / 10) (op (VInt 0)))"
proof -
  let ?X = "\<lparr>XF0 = 14, XFM = 143 / 10, XF1 = 147 / 10\<rparr> :: xfade" and ?cs = "[(0, 0, None), (1, 1, None)] :: change list"
    and ?K = "\<lparr>loop_D = 16, rules = [], LEGEND = [], elements = []\<rparr>"
  have fb: "faded_by (15 / 100) (XF0 ?X) ?cs" by (simp add: faded_by_def fade_of_def)
  have "\<exists>K'. swap ?X ''c2cap-a-'' (?cs @ [(XF0 ?X, 0, Some (7 / 10))]) 2 ?K = Inr K'
    \<and> (\<forall>k < 2. \<exists>pts ps. (''c2cap-a-'' @ show_nat k, pts) \<in> set (rules K')
        \<and> padded (loop_D ?K) (''c2cap-a-'' @ show_nat k) pts = Inr ps
        \<and> (k \<noteq> fst (snd (last ?cs)) \<longrightarrow>
            (\<forall>x. XF0 ?X \<le> x \<and> x \<le> XFM ?X \<longrightarrow> held ps x (op (VInt 0))))
        \<and> (k \<noteq> 0 \<longrightarrow> (\<forall>x. XFM ?X \<le> x \<and> x \<le> loop_D ?K \<longrightarrow> held ps x (op (VInt 0)))))"
    by (rule swap_cross_fade [OF _ _ fb]) simp_all
  then obtain K' where K': "swap ?X ''c2cap-a-'' [(0, 0, None), (1, 1, None), (14, 0, Some (7 / 10))] 2 ?K = Inr K'"
    and t: "\<exists>pts ps. (''c2cap-a-'' @ show_nat 0, pts) \<in> set (rules K') \<and> padded 16 (''c2cap-a-'' @ show_nat 0) pts = Inr ps
        \<and> (\<forall>x. 14 \<le> x \<and> x \<le> 143 / 10 \<longrightarrow> held ps x (op (VInt 0)))"
    by (simp add: all_less_two) blast
  have "14 \<le> (142 / 10 :: rat)" "(142 / 10 :: rat) \<le> 143 / 10" by simp_all
  with t K' show ?thesis by blast
qed

end
