(* ===== verification/Svg_Claims.thy ===== *)
theory Svg_Claims
  imports Svg
begin

text \<open>
  What the rendering promises: \<open>str.replace\<close> puts the new text at every occurrence of the old one and
  keeps the rest, and \<open>render\<close> succeeds exactly on a readable template that has an element for every
  rule, with rules that fit the loop.
\<close>

section \<open>Replacing\<close>

lemma replace_Nil [simp]: "old \<noteq> [] \<Longrightarrow> replace_all old new [] = []"
  by (subst replace_all.simps) simp

lemma replace_here [simp]: "old \<noteq> [] \<Longrightarrow> replace_all old new (old @ s) = new @ replace_all old new s"
  by (subst replace_all.simps) (cases old, auto)

lemma replace_skip [simp]:
  "old \<noteq> [] \<Longrightarrow> \<not> prefix old (c # cs) \<Longrightarrow> replace_all old new (c # cs) = c # replace_all old new cs"
  by (subst replace_all.simps) simp


text \<open>
  The pieces that \<open>s.split(old)\<close> gives: \<open>old\<close> between them, and no earlier occurrence of it could have
  been taken, not even one that reaches into the occurrence after the piece.
\<close>

fun pieces_ok :: "string \<Rightarrow> string list \<Rightarrow> bool" where
  "pieces_ok old [] = False"
| "pieces_ok old [p] = (\<not> sublist old p)"
| "pieces_ok old (p # q # ps) = (\<not> sublist old (p @ butlast old) \<and> pieces_ok old (q # ps))"

definition split_at :: "string \<Rightarrow> string \<Rightarrow> string list \<Rightarrow> bool" where
  "split_at old s ps \<longleftrightarrow> s = join old ps \<and> pieces_ok old ps"

lemma join_Cons: "ps \<noteq> [] \<Longrightarrow> join sep (p # ps) = p @ sep @ join sep ps"
  by (cases ps) auto

lemma not_sublist_butlast: "old \<noteq> [] \<Longrightarrow> \<not> sublist old (butlast old)"
  using sublist_length_le [of old "butlast old"] by (cases old) auto

lemma prefix_butlast_old: "prefix old (p @ butlast old) \<Longrightarrow> prefix old (p @ old @ s)"
proof -
  have "prefix (p @ butlast old) (p @ old @ s)" by (simp add: prefixeq_butlast prefix_prefix)
  then show "prefix old (p @ butlast old) \<Longrightarrow> prefix old (p @ old @ s)" by (rule prefix_order.trans [rotated])
qed

lemma split_at_skip:
  assumes sp: "split_at old cs (p # ps)" and no: "\<not> prefix old (c # cs)"
  shows "split_at old (c # cs) ((c # p) # ps)"
proof (cases ps)
  case Nil
  with assms show ?thesis by (simp add: split_at_def sublist_Cons_right)
next
  case (Cons q qs)
  with sp have cs: "c # cs = (c # p) @ old @ join old ps" by (simp add: split_at_def)
  with no have "\<not> prefix old ((c # p) @ butlast old)" using prefix_butlast_old by metis
  with Cons sp cs show ?thesis by (simp add: split_at_def sublist_Cons_right)
qed

lemma replace_pieces:
  assumes old: "old \<noteq> []"
  shows "\<exists>ps. split_at old s ps \<and> replace_all old new s = join new ps"
proof (induction s rule: length_induct)
  case (1 s)
  show ?case
  proof (cases "prefix old s")
    case True
    then obtain s' where s: "s = old @ s'" by (rule prefixE)
    from s old have "length s' < length s" by simp
    with 1 obtain ps where ps: "split_at old s' ps" "replace_all old new s' = join new ps" by blast
    then have "ps \<noteq> []" by (auto simp: split_at_def)
    with ps s old have "split_at old s ([] # ps) \<and> replace_all old new s = join new ([] # ps)"
      by (cases ps) (simp_all add: split_at_def not_sublist_butlast)
    then show ?thesis by blast
  next
    case no: False
    show ?thesis
    proof (cases s)
      case Nil
      with old show ?thesis by (intro exI [of _ "[[]]"]) (simp add: split_at_def)
    next
      case (Cons c cs)
      with 1 obtain ps where ps: "split_at old cs ps" "replace_all old new cs = join new ps" by auto
      then obtain q qs where qs: "ps = q # qs" by (cases ps) (auto simp: split_at_def)
      with split_at_skip [of old cs q qs c] ps no Cons have "split_at old s ((c # q) # qs)" by simp
      moreover have "replace_all old new s = join new ((c # q) # qs)"
        using ps no Cons old qs by (cases qs) simp_all
      ultimately show ?thesis by blast
    qed
  qed
qed

lemma replace_absent: "old \<noteq> [] \<Longrightarrow> \<not> sublist old s \<Longrightarrow> replace_all old new s = s"
  by (induction s) (simp_all add: sublist_Cons_right)

section \<open>Rendering\<close>

text \<open>The rules fit: each has a keyframe, none after the end of the loop, and the loop has a length.\<close>

definition rules_fit :: "kfu \<Rightarrow> bool" where
  "rules_fit K \<longleftrightarrow> (\<forall>(n, pts) \<in> set (rules K). loop_D K \<noteq> 0 \<and> pts \<noteq> [] \<and> fst (last pts) \<le> loop_D K)"

lemma rmap_Inr_iff: "(\<exists>ys. rmap f xs = Inr ys) \<longleftrightarrow> (\<forall>x \<in> set xs. \<exists>y. f x = Inr y)"
  by (induction xs) auto

lemma rmap_list_all2: "rmap f xs = Inr ys \<longleftrightarrow> list_all2 (\<lambda>x y. f x = Inr y) xs ys"
  by (induction xs arbitrary: ys) (auto simp: list_all2_Cons1)

lemma css_point_Inr_iff: "(\<exists>s. css_point D p = Inr s) \<longleftrightarrow> D \<noteq> 0"
  by (simp add: css_point_def pct_def)

lemma padded_nonempty: "padded D name pts = Inr ps \<Longrightarrow> ps \<noteq> []"
  using padded_shape [of D name pts ps] padded_Inr_iff [of D name pts] by auto

lemma css_Inr_iff: "(\<exists>s. css D name pts = Inr s) \<longleftrightarrow> D \<noteq> 0 \<and> pts \<noteq> [] \<and> fst (last pts) \<le> D"
proof
  assume "\<exists>s. css D name pts = Inr s"
  then obtain ps body where ps: "padded D name pts = Inr ps" and b: "rmap (css_point D) ps = Inr body"
    by (auto simp: css_def)
  with padded_nonempty obtain p qs where "ps = p # qs" by (cases ps) auto
  with b have "\<exists>s. css_point D p = Inr s" by auto
  then have "D \<noteq> 0" using css_point_Inr_iff by blast
  with ps show "D \<noteq> 0 \<and> pts \<noteq> [] \<and> fst (last pts) \<le> D" using padded_Inr_iff by blast
next
  assume a: "D \<noteq> 0 \<and> pts \<noteq> [] \<and> fst (last pts) \<le> D"
  then obtain ps where "padded D name pts = Inr ps" using padded_Inr_iff by blast
  moreover have "\<exists>body. rmap (css_point D) ps = Inr body"
    using a css_point_Inr_iff by (auto simp: rmap_Inr_iff)
  ultimately show "\<exists>s. css D name pts = Inr s" by (auto simp: css_def)
qed

lemma frames_iff:
  "(\<exists>fs. rmap (\<lambda>(n, pts). css (loop_D K) n pts) (rules K) = Inr fs) \<longleftrightarrow> rules_fit K"
  unfolding rmap_Inr_iff rules_fit_def by (simp only: case_prod_unfold css_Inr_iff)

lemma render_Inr_iff:
  "(\<exists>out. render files tpl still lg K = Inr out) \<longleftrightarrow>
     (\<exists>src. read_tpl files tpl = Inr src
       \<and> fst ` set (rules K) \<subseteq> set (find_ids False (fill src still lg K))) \<and> rules_fit K"
proof -
  have "missing_ids t K = [] \<longleftrightarrow> fst ` set (rules K) \<subseteq> set (find_ids False t)" for t
    by (auto simp: missing_ids_def filter_empty_conv)
  then show ?thesis by (auto simp: render_def Let_def simp flip: frames_iff)
qed

text \<open>C35: \<open>render\<close> writes a file exactly when the template is a text that starts with the svg tag or a path
  that can be read, every rule names an id of the filled template, and every rule has keyframes that
  end by the loop's length, which is not zero once there is a rule.\<close>

theorem render_succeeds_iff:
  "(\<exists>out. render files tpl still lg K = Inr out) \<longleftrightarrow>
     (\<exists>src. (src = tpl \<and> prefix ''<svg'' (lstrip_ws tpl)
             \<or> files tpl = Some src \<and> \<not> prefix ''<svg'' (lstrip_ws tpl))
       \<and> fst ` set (rules K) \<subseteq> set (find_ids False (fill src still lg K))) \<and> rules_fit K"
proof -
  have "read_tpl files tpl = Inr src \<longleftrightarrow> (src = tpl \<and> prefix ''<svg'' (lstrip_ws tpl)
             \<or> files tpl = Some src \<and> \<not> prefix ''<svg'' (lstrip_ws tpl))" for src
    by (auto simp: read_tpl_def split: option.splits)
  then show ?thesis by (simp only: render_Inr_iff)
qed

text \<open>C36: What \<open>render\<close> writes is the filled template cut at its keyframe marks, taking each mark from the
  left, with one stylesheet put at every mark: an animation-name line for each rule in order, then
  each rule's keyframes as \<open>css\<close> prints them, without white space around it.\<close>

theorem render_output:
  assumes "render files tpl still lg K = Inr out"
  shows "\<exists>src ps frames. read_tpl files tpl = Inr src
    \<and> split_at ''/*KEYFRAMES*/'' (fill src still lg K) ps
    \<and> list_all2 (\<lambda>(n, pts) f. css (loop_D K) n pts = Inr f) (rules K) frames
    \<and> out = join (strip_ws (rule_names K @ nl @ join nl frames)) ps"
proof -
  from assms obtain src frames where src: "read_tpl files tpl = Inr src"
    and fr: "rmap (\<lambda>(n, pts). css (loop_D K) n pts) (rules K) = Inr frames"
    and out: "out = replace_all ''/*KEYFRAMES*/'' (strip_ws (rule_names K @ nl @ join nl frames)) (fill src still lg K)"
    by (auto simp: render_def Let_def)
  obtain ps where "split_at ''/*KEYFRAMES*/'' (fill src still lg K) ps"
    and "out = join (strip_ws (rule_names K @ nl @ join nl frames)) ps"
    using replace_pieces [of "''/*KEYFRAMES*/''" "fill src still lg K"] out by blast
  moreover from fr have "list_all2 (\<lambda>(n, pts) f. css (loop_D K) n pts = Inr f) (rules K) frames"
    by (simp add: rmap_list_all2 case_prod_unfold)
  ultimately show ?thesis using src by blast
qed

lemma sample_ids: "find_ids False ''<svg><g id=\"x\"/>/*KEYFRAMES*/</svg>'' = [''x'']"
  by code_simp

theorem render_output_witness:
  "\<exists>out. let K = \<lparr>loop_D = 4, rules = [(''x'', [(1, op (VInt 1))])], LEGEND = [], elements = []\<rparr>;
      tpl = ''<svg><g id=\"x\"/>/*KEYFRAMES*/</svg>''
    in render Map.empty tpl 0 None K = Inr out
      \<and> (\<exists>src ps frames. read_tpl Map.empty tpl = Inr src
          \<and> split_at ''/*KEYFRAMES*/'' (fill src 0 None K) ps
          \<and> list_all2 (\<lambda>(n, pts) f. css (loop_D K) n pts = Inr f) (rules K) frames
          \<and> out = join (strip_ws (rule_names K @ nl @ join nl frames)) ps)"
proof -
  let ?K = "\<lparr>loop_D = 4, rules = [(''x'', [(1, op (VInt 1))])], LEGEND = [], elements = []\<rparr>"
  let ?t = "''<svg><g id=\"x\"/>/*KEYFRAMES*/</svg>''"
  have "fill ?t 0 None ?K = ?t" by (simp add: fill_def replace_absent sublist_code)
  moreover have "read_tpl Map.empty ?t = Inr ?t" by (simp add: read_tpl_def lstrip_ws_def py_space_def)
  ultimately have "\<exists>out. render Map.empty ?t 0 None ?K = Inr out"
    by (simp add: render_Inr_iff sample_ids rules_fit_def)
  then obtain out where o: "render Map.empty ?t 0 None ?K = Inr out" by blast
  from render_output [OF o] o show ?thesis unfolding Let_def by blast
qed

end
