(* ===== verification/Pictures.thy ===== *)
theory Pictures
  imports Close_Picture Wake_Picture Dead_Picture Svg_Claims
begin

text \<open>
  What the three drawn stories have in common once their files are written: a keyframe store whose
  every track is well typed, and seamless where the generator checks it.
\<close>

section \<open>Well-typed stores\<close>

text \<open>A track has keyframes, in time order, and none after the end of the loop, which has a length.\<close>

definition well_typed :: "kfu \<Rightarrow> bool" where
  "well_typed K \<longleftrightarrow> list_all (\<lambda>(n, pts). pts \<noteq> [] \<and> sorted (map fst pts) \<and> fst (last pts) \<le> loop_D K \<and> loop_D K \<noteq> 0) (rules K)"

definition all_seamless :: "kfu \<Rightarrow> bool" where
  "all_seamless K \<longleftrightarrow> list_all (seamless (loop_D K)) (rules K)"

lemma rendered_well_typed:
  assumes "extends K K'" and "rules K = []" and "render files tpl still lg K' = Inr out"
  shows "well_typed K'"
proof -
  have "rules_fit K'" using assms(3) render_Inr_iff by blast
  with extends_sorted [OF assms(1,2)] show ?thesis
    by (auto simp: well_typed_def rules_fit_def list_all_iff track_sorted_def)
qed

text \<open>C38: Every picture that is written is well typed: whatever the simulation, the facts, the templates and
  the store before, when a generator writes its file each track in the store has keyframes, in time
  order, none past the end of a loop that is not empty, and in the close and the dead-consumer picture
  each track ends in the state it starts in, or is hidden at both ends.\<close>

theorem pictures_well_typed:
  "(case build_close files s K of Inl e \<Rightarrow> True | Inr (K', out) \<Rightarrow> well_typed K' \<and> all_seamless K')
   \<and> (case build_dead files fa fb K of Inl e \<Rightarrow> True | Inr (K', out) \<Rightarrow> well_typed K' \<and> all_seamless K')
   \<and> (case build_wake files w K of Inl e \<Rightarrow> True | Inr (K', out) \<Rightarrow> well_typed K')"
proof -
  have "well_typed K' \<and> all_seamless K'" if b: "build_close files s K = Inr (K', out)" for K' out
  proof -
    obtain D still tpl where d: "draw_close s (K\<lparr>rules := [], elements := [], loop_D := D\<rparr>) = Inr (K', still)"
      and r: "render files tpl still None K' = Inr out" using b by (auto simp: build_close_def)
    obtain u where "seams K' = Inr u" using d by (auto simp: draw_close_def)
    moreover have "well_typed K'" by (rule rendered_well_typed [OF store.P_draw_close [OF d] _ r]) simp
    ultimately show ?thesis by (simp add: seams_iff all_seamless_def)
  qed
  moreover have "well_typed K' \<and> all_seamless K'" if b: "build_dead files fa fb K = Inr (K', out)" for K' out
  proof -
    obtain svg M d where "draw_dead files fa fb (K\<lparr>rules := [], elements := []\<rparr>) = Inr (svg, M, K')"
      and r: "render files svg (py_round 2 d) None K' = Inr out" using b by (auto simp: build_dead_def)
    from draw_dead_extends [OF this(1)] show ?thesis
      using rendered_well_typed [OF _ _ r] by (auto simp: all_seamless_def)
  qed
  moreover have "well_typed K'" if b: "build_wake files w K = Inr (K', out)" for K' out
  proof -
    obtain D still tpl where d: "draw_all_wake w (K\<lparr>rules := [], elements := [], loop_D := D\<rparr>) = Inr (K', still)"
      and r: "render files tpl still None K' = Inr out"
      using b by (auto simp: build_wake_def Let_def SPOP_PICK_def)
    show ?thesis by (rule rendered_well_typed [OF store.P_draw_all_wake [OF d] _ r]) simp
  qed
  ultimately show ?thesis by (auto split: sum.splits)
qed

end
