(* ===== verification/Regex.thy ===== *)
theory Regex
  imports Svg
begin

text \<open>
  Python's \<open>re\<close> as far as \<open>kfu.motion_json\<close> uses it: a pattern tries its ways to match in order of
  preference and the first one that lets the rest of the pattern match wins. A place in the text is
  what was read, backwards, what is left, and the groups captured so far; \<open>ways\<close> lists the places a
  pattern can lead to, the preferred one first. Then lemmas that follow the preferred way alone.
\<close>

section \<open>Patterns\<close>

datatype pat =
    Cls "char \<Rightarrow> bool"
  | Lit string
  | Cat pat pat
  | Alt pat pat
  | Many pat
  | Few pat
  | Grp nat pat
  | WordB

type_synonym groups = "(nat, string) dict"
type_synonym mplace = "string \<times> string \<times> groups"

definition left :: "mplace \<Rightarrow> string" where
  "left m = fst (snd m)"

text \<open>What was read between two places of a match.\<close>

definition between :: "string \<Rightarrow> string \<Rightarrow> string" where
  "between b b' = rev (take (length b' - length b) b')"

text \<open>Greedy and lazy repetition; an iteration that reads nothing is not repeated.\<close>

function greedy :: "(mplace \<Rightarrow> mplace list) \<Rightarrow> mplace \<Rightarrow> mplace list" where
  "greedy f m =
     concat (map (\<lambda>m'. if length (left m') < length (left m) then greedy f m' else []) (f m)) @ [m]"
  by pat_completeness auto
termination by (relation "measure (\<lambda>(f, m). length (left m))") auto

function lazy :: "(mplace \<Rightarrow> mplace list) \<Rightarrow> mplace \<Rightarrow> mplace list" where
  "lazy f m =
     m # concat (map (\<lambda>m'. if length (left m') < length (left m) then lazy f m' else []) (f m))"
  by pat_completeness auto
termination by (relation "measure (\<lambda>(f, m). length (left m))") auto

declare greedy.simps [simp del] lazy.simps [simp del]

definition starts_word :: "string \<Rightarrow> bool" where
  "starts_word s = (case s of [] \<Rightarrow> False | c # _ \<Rightarrow> word_char c)"

primrec ways :: "pat \<Rightarrow> mplace \<Rightarrow> mplace list" where
  "ways (Cls p) m =
     (case m of (b, s, g) \<Rightarrow> (case s of [] \<Rightarrow> [] | c # t \<Rightarrow> if p c then [(c # b, t, g)] else []))"
| "ways (Lit w) m =
     (case m of (b, s, g) \<Rightarrow> if prefix w s then [(rev w @ b, drop (length w) s, g)] else [])"
| "ways (Cat p q) m = concat (map (ways q) (ways p m))"
| "ways (Alt p q) m = ways p m @ ways q m"
| "ways (Many p) m = greedy (ways p) m"
| "ways (Few p) m = lazy (ways p) m"
| "ways (Grp n p) m = map (\<lambda>(b, s, g). (b, s, dset n (between (fst m) b) g)) (ways p m)"
| "ways WordB m = (case m of (b, s, g) \<Rightarrow> if starts_word b \<noteq> starts_word s then [m] else [])"

abbreviation Some1 :: "pat \<Rightarrow> pat" where
  "Some1 p \<equiv> Cat p (Many p)"

abbreviation Opt :: "pat \<Rightarrow> pat" where
  "Opt p \<equiv> Alt p (Lit [])"

fun cats :: "pat list \<Rightarrow> pat" where
  "cats [] = Lit []"
| "cats [p] = p"
| "cats (p # q # ps) = Cat p (cats (q # ps))"

section \<open>Searching\<close>

text \<open>
  \<open>re.search\<close>: the first position with a match; the text before the match, backwards, and the place after it.
\<close>

fun search :: "pat \<Rightarrow> string \<Rightarrow> string \<Rightarrow> (string \<times> mplace) option" where
  "search p b s =
     (case ways p (b, s, []) of m # _ \<Rightarrow> Some (b, m)
      | [] \<Rightarrow> (case s of [] \<Rightarrow> None | c # t \<Rightarrow> search p (c # b) t))"

declare search.simps [simp del]

definition re_search :: "pat \<Rightarrow> string \<Rightarrow> groups option" where
  "re_search p s = (case search p [] s of None \<Rightarrow> None | Some (_, _, _, g) \<Rightarrow> Some g)"

definition fullmatch :: "pat \<Rightarrow> string \<Rightarrow> bool" where
  "fullmatch p s \<longleftrightarrow> (\<exists>m \<in> set (ways p ([], s, [])). left m = [])"


text \<open>
  \<open>re.finditer\<close>: the groups of each match, with the whole match as group 0; the search goes on after
  the match. (After an empty match it skips a character; no pattern of the program matches empty.)
\<close>

function finditer :: "pat \<Rightarrow> string \<Rightarrow> string \<Rightarrow> groups list" where
  "finditer p b s =
     (case search p b s of None \<Rightarrow> []
      | Some (b0, b', s', g) \<Rightarrow>
          dset 0 (between b0 b') g #
            (if length s' < length s then finditer p b' s'
             else (case s of [] \<Rightarrow> [] | c # t \<Rightarrow> finditer p (c # b) t)))"
  by pat_completeness auto
termination by (relation "measure (\<lambda>(p, b, s). length s)") auto

declare finditer.simps [simp del]

text \<open>\<open>re.sub(p, rep, s)\<close> for a text \<open>rep\<close> without back references.\<close>

function re_sub :: "pat \<Rightarrow> string \<Rightarrow> string \<Rightarrow> string \<Rightarrow> string" where
  "re_sub p rep b s =
     (case search p b s of None \<Rightarrow> s
      | Some (b0, b', s', g) \<Rightarrow>
          between b b0 @ rep @
            (if length s' < length s then re_sub p rep b' s'
             else (case s of [] \<Rightarrow> [] | c # t \<Rightarrow> c # re_sub p rep (c # b) t)))"
  by pat_completeness auto
termination by (relation "measure (\<lambda>(p, rep, b, s). length s)") auto

declare re_sub.simps [simp del]

section \<open>Following the preferred way\<close>

text \<open>
  \<open>reads p u s f\<close>: before the text \<open>s\<close> the preferred way of \<open>p\<close> reads exactly \<open>u\<close>, and \<open>f\<close> adds its
  groups; \<open>stuck p s\<close>: \<open>p\<close> cannot match at the start of \<open>s\<close>. Both whatever was read before.
\<close>

definition reads :: "pat \<Rightarrow> string \<Rightarrow> string \<Rightarrow> (groups \<Rightarrow> groups) \<Rightarrow> bool" where
  "reads p u s f \<longleftrightarrow> (\<forall>b g. \<exists>ms. ways p (b, u @ s, g) = (rev u @ b, s, f g) # ms)"

definition stuck :: "pat \<Rightarrow> string \<Rightarrow> bool" where
  "stuck p s \<longleftrightarrow> (\<forall>b g. ways p (b, s, g) = [])"

lemma between_append [simp]: "between b (u @ b) = rev u"
  by (simp add: between_def)

lemma readsE:
  assumes "reads p u s f"
  obtains ms where "ways p (b, u @ s, g) = (rev u @ b, s, f g) # ms"
  using assms unfolding reads_def by blast

lemma readsI: "(\<And>b g. \<exists>ms. ways p (b, u @ s, g) = (rev u @ b, s, f g) # ms) \<Longrightarrow> reads p u s f"
  unfolding reads_def by blast

lemma reads_Lit: "reads (Lit w) w s (\<lambda>g. g)"
  by (simp add: reads_def)

lemma reads_Cat: "reads p u (v @ s) f \<Longrightarrow> reads q v s h \<Longrightarrow> reads (Cat p q) (u @ v) s (\<lambda>g. h (f g))"
proof (rule readsI)
  fix b g
  assume p: "reads p u (v @ s) f" and q: "reads q v s h"
  obtain ms where "ways p (b, u @ v @ s, g) = (rev u @ b, v @ s, f g) # ms" using p by (rule readsE)
  moreover obtain ns where "ways q (rev u @ b, v @ s, f g) = (rev v @ rev u @ b, s, h (f g)) # ns"
    using q by (rule readsE)
  ultimately show "\<exists>ms. ways (Cat p q) (b, (u @ v) @ s, g) = (rev (u @ v) @ b, s, h (f g)) # ms" by simp
qed

lemma reads_Alt_left: "reads p u s f \<Longrightarrow> reads (Alt p q) u s f"
proof (rule readsI)
  fix b g
  assume "reads p u s f"
  then obtain ms where "ways p (b, u @ s, g) = (rev u @ b, s, f g) # ms" by (rule readsE)
  then show "\<exists>ms. ways (Alt p q) (b, u @ s, g) = (rev u @ b, s, f g) # ms" by simp
qed

lemma reads_Alt_right: "stuck p (u @ s) \<Longrightarrow> reads q u s f \<Longrightarrow> reads (Alt p q) u s f"
  unfolding reads_def stuck_def ways.simps by simp

lemma reads_Grp: "reads p u s f \<Longrightarrow> reads (Grp n p) u s (\<lambda>g. dset n u (f g))"
proof (rule readsI)
  fix b g
  assume "reads p u s f"
  then obtain ms where "ways p (b, u @ s, g) = (rev u @ b, s, f g) # ms" by (rule readsE)
  then show "\<exists>ms. ways (Grp n p) (b, u @ s, g) = (rev u @ b, s, dset n u (f g)) # ms" by simp
qed

lemma reads_Many_stop: "stuck p s \<Longrightarrow> reads (Many p) [] s (\<lambda>g. g)"
  by (simp add: reads_def stuck_def greedy.simps)

lemma reads_Many_step:
  assumes "reads p u (v @ s) f" and "u \<noteq> []" and "reads (Many p) v s h"
  shows "reads (Many p) (u @ v) s (\<lambda>g. h (f g))"
  unfolding reads_def
proof (intro allI)
  fix b g
  obtain ms where ms: "ways p (b, u @ v @ s, g) = (rev u @ b, v @ s, f g) # ms"
    using assms(1) unfolding reads_def by blast
  obtain ns where ns: "greedy (ways p) (rev u @ b, v @ s, f g) = (rev v @ rev u @ b, s, h (f g)) # ns"
    using assms(3) unfolding reads_def ways.simps by blast
  show "\<exists>ms. ways (Many p) (b, (u @ v) @ s, g) = (rev (u @ v) @ b, s, h (f g)) # ms"
    using ms ns assms(2) by (simp add: greedy.simps [of "ways p" "(b, u @ v @ s, g)"] left_def)
qed

lemma stuck_Lit: "\<not> prefix w s \<Longrightarrow> stuck (Lit w) s"
  by (simp add: stuck_def)

lemma stuck_Cat: "stuck p s \<Longrightarrow> stuck (Cat p q) s"
  by (simp add: stuck_def)

lemma stuck_Grp: "stuck p s \<Longrightarrow> stuck (Grp n p) s"
  by (simp add: stuck_def)

text \<open>Text before which a class stops reading.\<close>

definition halts :: "(char \<Rightarrow> bool) \<Rightarrow> string \<Rightarrow> bool" where
  "halts p s = (case s of [] \<Rightarrow> True | c # t \<Rightarrow> \<not> p c)"

lemma halts_simps [simp]: "halts p []" "halts p (c # s) \<longleftrightarrow> \<not> p c"
  by (simp_all add: halts_def)

lemma stuck_Cls: "halts p s \<Longrightarrow> stuck (Cls p) s"
  by (auto simp: stuck_def halts_def split: list.splits)

lemma reads_Many_Cls: "\<forall>c \<in> set u. p c \<Longrightarrow> halts p s \<Longrightarrow> reads (Many (Cls p)) u s (\<lambda>g. g)"
proof (induction u)
  case Nil
  then show ?case by (simp add: reads_Many_stop stuck_Cls)
next
  case (Cons c u)
  then have "reads (Cls p) [c] (u @ s) (\<lambda>g. g)" "reads (Many (Cls p)) u s (\<lambda>g. g)"
    by (simp_all add: reads_def)
  from reads_Many_step [OF this(1) _ this(2)] show ?case by simp
qed

lemma reads_Some1_Cls:
  "u \<noteq> [] \<Longrightarrow> \<forall>c \<in> set u. p c \<Longrightarrow> halts p s \<Longrightarrow> reads (Some1 (Cls p)) u s (\<lambda>g. g)"
proof -
  assume u: "u \<noteq> []" and p: "\<forall>c \<in> set u. p c" and e: "halts p s"
  from u obtain c w where c: "u = [c] @ w" by (cases u) auto
  have "reads (Cls p) [c] (w @ s) (\<lambda>g. g)" using p c by (simp add: reads_def)
  from reads_Cat [OF this reads_Many_Cls] p e c show ?thesis by simp
qed

section \<open>Iterating over matches\<close>

lemma finditer_here:
  assumes "reads p u s f" and "u \<noteq> []"
  shows "finditer p b (u @ s) = dset 0 u (f []) # finditer p (rev u @ b) s"
proof -
  obtain ms where "ways p (b, u @ s, []) = (rev u @ b, s, f []) # ms" using assms(1) unfolding reads_def by blast
  then have "search p b (u @ s) = Some (b, rev u @ b, s, f [])" by (simp add: search.simps)
  with assms(2) show ?thesis by (simp add: finditer.simps [of p b "u @ s"])
qed

lemma search_skip: "stuck p (c # s) \<Longrightarrow> search p b (c # s) = search p (c # b) s"
  by (simp add: stuck_def search.simps [of p b "c # s"])

text \<open>Text in which the pattern can start nowhere is passed over.\<close>

definition inert :: "pat \<Rightarrow> string \<Rightarrow> string \<Rightarrow> bool" where
  "inert p u s \<longleftrightarrow> (\<forall>u1 c u2. u = u1 @ c # u2 \<longrightarrow> stuck p (c # u2 @ s))"

lemma inert_simps [simp]:
  "inert p [] s"
  "inert p (c # u) s \<longleftrightarrow> stuck p (c # u @ s) \<and> inert p u s"
  by (auto simp: inert_def Cons_eq_append_conv)

lemma inert_append [simp]: "inert p (u @ v) s \<longleftrightarrow> inert p u (v @ s) \<and> inert p v s"
  by (induction u) auto

lemma search_over: "inert p u s \<Longrightarrow> search p b (u @ s) = search p (rev u @ b) s"
  by (induction u arbitrary: b) (simp_all add: search_skip)

lemma finditer_next:
  assumes "inert p w (u @ s)" and "reads p u s f" and "u \<noteq> []"
  shows "finditer p b (w @ u @ s) = dset 0 u (f []) # finditer p (rev u @ rev w @ b) s"
proof -
  obtain ms where "ways p (rev w @ b, u @ s, []) = (rev u @ rev w @ b, s, f []) # ms"
    using assms(2) unfolding reads_def by blast
  then have "search p b (w @ u @ s) = Some (rev w @ b, rev u @ rev w @ b, s, f [])"
    using search_over [OF assms(1), of b] by (simp add: search.simps)
  with assms(3) show ?thesis by (simp add: finditer.simps [of p b "w @ u @ s"])
qed

lemma finditer_none:
  assumes "inert p w []" and "stuck p []"
  shows "finditer p b w = []"
proof -
  have "search p b w = search p (rev w @ b) []" using search_over [OF assms(1), of b] by simp
  also have "\<dots> = None" using assms(2) by (simp add: search.simps stuck_def)
  finally show ?thesis by (simp add: finditer.simps)
qed

lemma re_sub_next:
  assumes "inert p w (u @ s)" and "reads p u s f" and "u \<noteq> []"
  shows "re_sub p rep b (w @ u @ s) = w @ rep @ re_sub p rep (rev u @ rev w @ b) s"
proof -
  obtain ms where "ways p (rev w @ b, u @ s, []) = (rev u @ rev w @ b, s, f []) # ms"
    using assms(2) unfolding reads_def by blast
  then have "search p b (w @ u @ s) = Some (rev w @ b, rev u @ rev w @ b, s, f [])"
    using search_over [OF assms(1), of b] by (simp add: search.simps)
  with assms(3) show ?thesis by (simp add: re_sub.simps [of p rep b "w @ u @ s"])
qed

lemma re_sub_none:
  assumes "inert p w []" and "stuck p []"
  shows "re_sub p rep b w = w"
proof -
  have "search p b w = search p (rev w @ b) []" using search_over [OF assms(1), of b] by simp
  also have "\<dots> = None" using assms(2) by (simp add: search.simps stuck_def)
  finally show ?thesis by (simp add: re_sub.simps)
qed

end
