(* ===== verification/Motion.thy ===== *)
theory Motion
  imports Regex
begin

text \<open>
  The motion exporter of \<open>kfu.py\<close>: \<open>motion_json\<close> reads a finished SVG with regular expressions into a
  document (the loop length, the still frame, the picture without its keyframes, and per animated
  element its easing and the values of every property), and \<open>write_motion\<close> reads the file and gives the
  JSON text. Patterns are those of the code; \<open>\d\<close>, \<open>\s\<close> and \<open>\w\<close> are taken on ASCII.
\<close>

section \<open>The patterns\<close>

definition num_char :: "char \<Rightarrow> bool" where
  "num_char c \<longleftrightarrow> c = CHR ''.'' \<or> (CHR ''0'' \<le> c \<and> c \<le> CHR ''9'')"

definition name_char :: "char \<Rightarrow> bool" where
  "name_char c \<longleftrightarrow> word_char c \<or> c = CHR ''-''"

definition alpha_char :: "char \<Rightarrow> bool" where
  "alpha_char c \<longleftrightarrow> (CHR ''A'' \<le> c \<and> c \<le> CHR ''Z'') \<or> (CHR ''a'' \<le> c \<and> c \<le> CHR ''z'')"

abbreviation spaces :: pat where
  "spaces \<equiv> Many (Cls py_space)"

abbreviation number :: pat where
  "number \<equiv> Some1 (Cls num_char)"

abbreviation name :: pat where
  "name \<equiv> Some1 (Cls name_char)"

abbreviation but :: "char \<Rightarrow> pat" where
  "but c \<equiv> Many (Cls (\<lambda>x. x \<noteq> c))"

definition dur_pat :: pat where
  "dur_pat = cats [Lit ''--dur:'', spaces, Grp 1 number, Lit ''s'']"

definition still_pat :: pat where
  "still_pat = cats [Lit ''prefers-reduced-motion'', but CHR ''{'', Lit ''{'', but CHR ''}'',
     Lit ''animation-delay:'', spaces, Lit ''-'', Grp 1 number, Lit ''s'']"

definition block_pat :: pat where
  "block_pat = cats [number, Lit ''% {'', but CHR ''}'', Lit ''}'', Opt (Lit '' '')]"

definition frames_pat :: pat where
  "frames_pat = cats [Lit ''@keyframes '', Grp 1 name, Lit '' { '', Grp 2 (Many block_pat), Lit ''}'']"

definition point_pat :: pat where
  "point_pat = cats [Grp 1 number, Lit ''% {'', Grp 2 (but CHR ''}''), Lit ''}'']"

definition value_pat :: pat where
  "value_pat = Cat (Opt (Lit ''-'')) number"

definition timing_pat :: "nat \<Rightarrow> pat" where
  "timing_pat n = Grp n
     (Alt (cats [Lit ''cubic-bezier('', but CHR '')'', Lit '')''])
     (Alt (cats [Lit ''steps('', but CHR '')'', Lit '')''])
     (Alt (Lit ''linear'') (Alt (Lit ''ease-in-out'') (Alt (Lit ''ease-in'')
       (Alt (Lit ''ease-out'') (Lit ''ease'')))))))"

definition default_pat :: pat where
  "default_pat = cats [Lit ''.a'', spaces, Lit ''{'', but CHR ''}'', Lit ''animation:'',
     Few (Cls (\<lambda>x. x \<noteq> CHR '';'' \<and> x \<noteq> CHR ''}'')), timing_pat 1]"

definition class_pat :: pat where
  "class_pat = cats [Lit ''.'', Grp 1 name, spaces, Lit ''{'', but CHR ''}'',
     Lit ''animation-timing-function:'', spaces, timing_pat 2]"

definition tag_pat :: pat where
  "tag_pat = cats [Lit ''<'', Cls alpha_char, but CHR ''>'', Lit ''>'']"

definition attr_pat :: "string \<Rightarrow> pat" where
  "attr_pat a = cats [WordB, Lit (a @ ''=\"''), Grp 1 (Some1 (Cls (\<lambda>x. x \<noteq> CHR 0x22))), Lit [CHR 0x22]]"

definition bind_pat :: pat where
  "bind_pat = cats [Lit ''#'', Grp 1 name, spaces, Lit ''{'', but CHR ''}'',
     Lit ''animation-name:'', spaces, Grp 2 name]"

definition margin :: pat where
  "margin = Cat (Opt (Lit [CHR 0x0A])) (Many (Cls (\<lambda>x. x = CHR '' '' \<or> x = CHR 0x09)))"

definition static_frames_pat :: pat where
  "static_frames_pat = cats [margin, Lit ''@keyframes '', name, Lit '' { '', Many block_pat, Lit ''}'']"

definition static_bind_pat :: pat where
  "static_bind_pat = cats [margin, Lit ''#'', name, Lit '' { animation-name: '', name, Lit ''; }'']"

definition static_decl_pat :: pat where
  "static_decl_pat = cats [spaces, Lit ''animation-name:'', spaces, name, Lit '';'']"

section \<open>Reading keyframes\<close>

text \<open>\<open>float(s)\<close> on a text of digits, points and perhaps a sign.\<close>

definition read_float :: "string \<Rightarrow> rat res" where
  "read_float s =
     (let t = (if prefix ''-'' s then tl s else s)
      in if list_all num_char t \<and> count_list t CHR ''.'' \<le> 1 \<and> t \<noteq> [] \<and> t \<noteq> ''.''
         then Inr (read_dec s) else Inl ValueError)"

datatype mval = MNum rat | MText string

type_synonym mprops = "(string, (rat \<times> mval) list) dict"

definition group :: "nat \<Rightarrow> groups \<Rightarrow> string" where
  "group n g = dget_or [] g n"

text \<open>One declaration \<open>k: v\<close> of the keyframe at the percentage printed as \<open>pc\<close>.\<close>

definition decl_value :: "string \<Rightarrow> mval res" where
  "decl_value v = (if fullmatch value_pat v then rbind (read_float v) (\<lambda>y. Inr (MNum y)) else Inr (MText v))"

definition read_decl :: "string \<Rightarrow> string \<Rightarrow> mprops \<Rightarrow> mprops res" where
  "read_decl pc decl P =
     (if CHR '':'' \<notin> set decl then Inl ValueError
      else let k = strip_ws (takeWhile (\<lambda>c. c \<noteq> CHR '':'') decl);
               v = strip_ws (tl (dropWhile (\<lambda>c. c \<noteq> CHR '':'') decl));
               sq = dget_or [] P k
           in rbind (read_float pc) (\<lambda>x.
              if sq \<noteq> [] \<and> fst (last sq) = x then Inr (dset k (butlast sq @ [(x, MText v)]) P)
              else rbind (decl_value v) (\<lambda>y. Inr (dset k (sq @ [(x, y)]) P))))"

definition decls :: "string \<Rightarrow> string list" where
  "decls body = filter (\<lambda>d. d \<noteq> []) (map strip_ws (split_on '';'' body))"

definition read_block :: "groups \<Rightarrow> mprops \<Rightarrow> mprops res" where
  "read_block g P = rfold (read_decl (group 1 g)) (decls (group 2 g)) P"

definition read_props :: "string \<Rightarrow> mprops res" where
  "read_props body = rfold read_block (finditer point_pat [] body) []"

definition read_frames :: "string \<Rightarrow> (string, mprops) dict res" where
  "read_frames svg =
     rfold (\<lambda>g F. rbind (read_props (group 2 g)) (\<lambda>P. Inr (dset (group 1 g) P F)))
       (finditer frames_pat [] svg) []"

section \<open>Easing and tracks\<close>

text \<open>\<open>s.split()\<close>: the words between white space.\<close>

fun py_words :: "string \<Rightarrow> string \<Rightarrow> string list" where
  "py_words w [] = (if w = [] then [] else [rev w])"
| "py_words w (c # cs) =
     (if py_space c then (if w = [] then [] else [rev w]) @ py_words [] cs else py_words (c # w) cs)"

definition tag_classes :: "groups \<Rightarrow> (string, string list) dict \<Rightarrow> (string, string list) dict" where
  "tag_classes g C =
     (let tag = group 0 g
      in case re_search (attr_pat ''id'') tag of None \<Rightarrow> C
         | Some i \<Rightarrow> dset (group 1 i)
             (case re_search (attr_pat ''class'') tag of None \<Rightarrow> [] | Some c \<Rightarrow> py_words [] (group 1 c)) C)"

definition classes_of :: "string \<Rightarrow> (string, string list) dict" where
  "classes_of svg = fold tag_classes (finditer tag_pat [] svg) []"

definition by_class :: "string \<Rightarrow> (string \<times> string) list" where
  "by_class svg = map (\<lambda>g. (group 1 g, group 2 g)) (finditer class_pat [] svg)"

definition default_ease :: "string \<Rightarrow> string" where
  "default_ease svg = (case re_search default_pat svg of None \<Rightarrow> ''ease'' | Some g \<Rightarrow> group 1 g)"

definition ease_of :: "string \<Rightarrow> string list \<Rightarrow> string" where
  "ease_of svg cls =
     (case filter (\<lambda>(c, f). c \<in> set cls) (rev (by_class svg)) of [] \<Rightarrow> default_ease svg | (c, f) # _ \<Rightarrow> f)"

record mtrack =
  easing :: string
  tr_props :: mprops

definition add_track :: "string \<Rightarrow> (string, string list) dict \<Rightarrow> (string, mprops) dict \<Rightarrow> groups \<Rightarrow> (string, mtrack) dict \<Rightarrow> (string, mtrack) dict res" where
  "add_track svg C F g T =
     (let el = group 1 g; nm = group 2 g
      in case (dget C el, dget F nm) of
           (Some cls, Some P) \<Rightarrow> Inr (dset el \<lparr>easing = ease_of svg cls, tr_props = P\<rparr> T)
         | _ \<Rightarrow> Inl AssertionError)"

definition read_tracks :: "string \<Rightarrow> (string, mprops) dict \<Rightarrow> (string, mtrack) dict res" where
  "read_tracks svg F = rfold (add_track svg (classes_of svg) F) (finditer bind_pat [] svg) []"

section \<open>The document\<close>

definition static_svg :: "string \<Rightarrow> string" where
  "static_svg svg =
     re_sub static_decl_pat [] [] (re_sub static_bind_pat [] [] (re_sub static_frames_pat [] [] svg))"

record motion_doc =
  mo_D :: rat
  mo_still :: "rat option"
  mo_svg :: string
  mo_tracks :: "(string, mtrack) dict"

definition motion_doc_of :: "string \<Rightarrow> motion_doc res" where
  "motion_doc_of svg =
     (case re_search dur_pat svg of None \<Rightarrow> Inl AssertionError
      | Some d \<Rightarrow>
          rbind (read_frames svg) (\<lambda>F.
          rbind (read_tracks svg F) (\<lambda>T.
          rbind (read_float (group 1 d)) (\<lambda>D.
          rbind (case re_search still_pat svg of None \<Rightarrow> Inr None
                 | Some g \<Rightarrow> rbind (read_float (group 1 g)) (\<lambda>x. Inr (Some x))) (\<lambda>st.
          Inr \<lparr>mo_D = D, mo_still = st, mo_svg = static_svg svg, mo_tracks = T\<rparr>)))))"

section \<open>JSON\<close>

datatype json = JInt int | JFloat rat | JText string | JList "json list" | JObj "(string \<times> json) list"

definition hex :: "nat \<Rightarrow> char" where
  "hex d = (if d < 10 then digit d else char_of (87 + d))"

definition json_char :: "char \<Rightarrow> string" where
  "json_char c =
     (if c = CHR 0x22 then [CHR 0x5C, CHR 0x22]
      else if c = CHR 0x5C then [CHR 0x5C, CHR 0x5C]
      else if c = CHR 0x0A then CHR 0x5C # ''n''
      else if c = CHR 0x0D then CHR 0x5C # ''r''
      else if c = CHR 0x09 then CHR 0x5C # ''t''
      else if c = CHR 0x08 then CHR 0x5C # ''b''
      else if c = CHR 0x0C then CHR 0x5C # ''f''
      else if of_char c < (32 :: nat)
        then CHR 0x5C # ''u00'' @ [hex (of_char c div 16), hex (of_char c mod 16)]
      else [c])"

definition json_text :: "string \<Rightarrow> string" where
  "json_text s = [CHR 0x22] @ concat (map json_char s) @ [CHR 0x22]"

text \<open>\<open>json.dumps(x, indent=1, ensure_ascii=False)\<close>; \<open>n\<close> is the depth.\<close>

definition json_lines :: "nat \<Rightarrow> string \<Rightarrow> string list \<Rightarrow> string \<Rightarrow> string" where
  "json_lines n l items r =
     (if items = [] then l @ r
      else l @ nl @ replicate (n + 1) CHR '' '' @ join ('','' @ nl @ replicate (n + 1) CHR '' '') items @
        nl @ replicate n CHR '' '' @ r)"

fun show_json :: "nat \<Rightarrow> json \<Rightarrow> string" where
  "show_json n (JInt i) = show_int i"
| "show_json n (JFloat x) = repr_float x"
| "show_json n (JText s) = json_text s"
| "show_json n (JList xs) = json_lines n ''['' (map (show_json (n + 1)) xs) '']''"
| "show_json n (JObj kvs) =
     json_lines n ''{'' (map (\<lambda>kv. json_text (fst kv) @ '': '' @ show_json (n + 1) (snd kv)) kvs) ''}''"

fun json_val :: "mval \<Rightarrow> json" where
  "json_val (MNum x) = JFloat x"
| "json_val (MText s) = JText s"

definition json_props :: "mprops \<Rightarrow> json" where
  "json_props P = JObj (map (\<lambda>(k, sq). (k, JList (map (\<lambda>(x, v). JList [JFloat x, json_val v]) sq))) P)"

definition json_track :: "mtrack \<Rightarrow> json" where
  "json_track t = JObj [(''easing'', JText (easing t)), (''props'', json_props (tr_props t))]"

definition json_doc :: "motion_doc \<Rightarrow> json" where
  "json_doc d = JObj
     [(''format'', JText ''motion-explainer/motion@1''), (''D'', JFloat (mo_D d)),
      (''still'', case mo_still d of None \<Rightarrow> JInt 0 | Some x \<Rightarrow> JFloat x),
      (''svg'', JText (mo_svg d)),
      (''tracks'', JObj (map (\<lambda>(el, t). (el, json_track t)) (mo_tracks d)))]"

definition motion_json :: "string \<Rightarrow> string res" where
  "motion_json svg = rbind (motion_doc_of svg) (\<lambda>d. Inr (show_json 0 (json_doc d) @ nl))"

text \<open>\<open>svg_path.removesuffix(".svg")\<close>, and the path and text that are written.\<close>

definition remove_suffix :: "string \<Rightarrow> string \<Rightarrow> string" where
  "remove_suffix sf s = (if suffix sf s then take (length s - length sf) s else s)"

definition write_motion :: "(string \<Rightarrow> string option) \<Rightarrow> string \<Rightarrow> (string \<times> string) res" where
  "write_motion files path =
     (case files path of None \<Rightarrow> Inl FileNotFoundError
      | Some svg \<Rightarrow> rbind (motion_json svg) (\<lambda>t. Inr (remove_suffix ''.svg'' path @ ''.motion.json'', t)))"

section \<open>Writing both files\<close>

text \<open>\<open>render\<close> with the files it leaves: the picture, and with \<open>motion\<close> its motion file.\<close>

definition render_files ::
    "(string \<Rightarrow> string option) \<Rightarrow> string \<Rightarrow> string \<Rightarrow> rat \<Rightarrow> string option \<Rightarrow> bool \<Rightarrow> kfu \<Rightarrow> (string \<Rightarrow> string option) res" where
  "render_files files tpl out_path still lg motion K =
     rbind (render files tpl still lg K) (\<lambda>text.
     let files1 = files(out_path \<mapsto> text)
     in if motion then rbind (write_motion files1 out_path) (\<lambda>(p, t). Inr (files1(p \<mapsto> t))) else Inr files1)"

end
