(* ===== verification/Motion_Read.thy ===== *)
theory Motion_Read
  imports Motion Svg_Claims
begin

text \<open>
  The exporter reads back what the store printed: the percentages and the declarations of one keyframe,
  one rule, and all the rules of a rendered picture.
\<close>

section \<open>Percentages\<close>

lemma num_char_digit: "c \<in> digit ` {..<10} \<Longrightarrow> num_char c"
proof -
  assume "c \<in> digit ` {..<10}"
  then obtain d where d: "d < 10" "c = digit d" by auto
  then have "d \<in> set [0..<10]" by simp
  moreover have "list_all (\<lambda>d. num_char (digit d)) [0..<10]" by code_simp
  ultimately show ?thesis using d by (simp add: list_all_iff)
qed

lemma count_no_dot: "set s \<subseteq> digit ` {..<10} \<Longrightarrow> count_list s CHR ''.'' = 0"
  using digits_no_dot [of s] by (simp add: count_list_0_iff)

lemma digits_num: "set s \<subseteq> digit ` {..<10} \<Longrightarrow> list_all num_char s"
  by (auto simp: list_all_iff num_char_digit)

lemma num_char_dot [simp]: "num_char CHR ''.''"
  by (simp add: num_char_def)

text \<open>A stripped decimal is digits, or digits, a point and digits.\<close>

lemma strip_shape:
  assumes w: "set w \<subseteq> digit ` {..<10}" and f: "set f \<subseteq> digit ` {..<10}"
  shows "\<exists>u. rstrip (CHR ''.'') (rstrip (CHR ''0'') (w @ CHR ''.'' # f)) = w @ u
    \<and> list_all num_char u \<and> count_list u CHR ''.'' \<le> 1"
proof -
  let ?g = "rstrip (CHR ''0'') f"
  have z: "rstrip (CHR ''0'') (w @ CHR ''.'' # f) = w @ CHR ''.'' # ?g" by (simp add: rstrip_append_Cons)
  have g: "set ?g \<subseteq> digit ` {..<10}" using f set_rstrip by blast
  show ?thesis
  proof (cases ?g rule: rev_cases)
    case Nil
    then have "rstrip (CHR ''.'') (w @ CHR ''.'' # ?g) = w"
      using rstrip_snoc [of "CHR ''.''" w "CHR ''.''"] rstrip_absent [of "CHR ''.''" w] digits_no_dot [OF w] by simp
    with z show ?thesis by (intro exI [of _ "[]"]) simp
  next
    case (snoc h c)
    with g have "c \<noteq> CHR ''.''" using digits_no_dot [OF g] by auto
    then have "rstrip (CHR ''.'') (w @ CHR ''.'' # ?g) = w @ CHR ''.'' # ?g"
      using rstrip_snoc [of "CHR ''.''" "w @ CHR ''.'' # h" c] snoc by simp
    with z g show ?thesis
      by (intro exI [of _ "CHR ''.'' # ?g"]) (simp add: digits_num count_no_dot)
  qed
qed

lemma pct_text:
  assumes D: "0 < D" and t: "0 \<le> t"
  shows "\<exists>p. pct D t = Inr (p @ ''%'') \<and> p \<noteq> [] \<and> list_all num_char p
    \<and> read_float p = Inr (py_round 2 (t / D * 100))"
proof -
  let ?x = "t / D * 100"
  have nn: "0 \<le> ?x" using assms by simp
  obtain p where p: "pct D t = Inr (p @ ''%'')" "read_dec p = py_round 2 ?x"
    using pct_read [of D t] assms by auto
  define n where "n = nat (round_half_even (\<bar>?x\<bar> * 10 ^ 2))"
  let ?w = "show_nat (n div 10 ^ 2)" and ?f = "zpad 2 (show_nat (n mod 10 ^ 2))"
  have d: "set ?w \<subseteq> digit ` {..<10}" "set ?f \<subseteq> digit ` {..<10}"
    by (rule show_nat_digits) (rule zpad_digits [OF show_nat_digits])
  have "fmt_fixed 2 ?x = ?w @ CHR ''.'' # ?f" using nn by (simp add: fmt_fixed_def Let_def n_def)
  then have "p = rstrip (CHR ''.'') (rstrip (CHR ''0'') (?w @ CHR ''.'' # ?f))"
    using p(1) D by (simp add: pct_def)
  then obtain u where u: "p = ?w @ u" "list_all num_char u" "count_list u CHR ''.'' \<le> 1"
    using strip_shape [OF d] by blast
  obtain c w' where w: "?w = c # w'" using show_nat_neq_Nil [of "n div 10 ^ 2"] by (cases ?w) blast
  with d(1) obtain e where e: "e < 10" "c = digit e" by auto
  then have c: "c \<noteq> CHR ''.''" "c \<noteq> CHR ''-''" by simp_all
  have "list_all num_char p" using u digits_num [OF d(1)] by simp
  moreover have "p \<noteq> []" "p \<noteq> ''.''" "\<not> prefix ''-'' p" using u w c by auto
  moreover have "count_list p CHR ''.'' \<le> 1" using u count_no_dot [OF d(1)] by simp
  ultimately have "read_float p = Inr (read_dec p)" by (simp add: read_float_def)
  with p show ?thesis using \<open>list_all num_char p\<close> \<open>p \<noteq> []\<close> by auto
qed

section \<open>Declarations\<close>

lemma split_on_absent: "c \<notin> set s \<Longrightarrow> split_on [c] s = [s]"
proof (induction s)
  case Nil
  then show ?case by (simp add: split_on.simps)
next
  case (Cons x s)
  then show ?case by (subst split_on.simps) simp
qed

lemma split_on_first: "c \<notin> set u \<Longrightarrow> split_on [c] (u @ c # s) = u # split_on [c] s"
proof (induction u)
  case Nil
  then show ?case by (subst split_on.simps) simp
next
  case (Cons x u)
  then show ?case by (subst split_on.simps) simp
qed

definition trimmed :: "string \<Rightarrow> bool" where
  "trimmed s \<longleftrightarrow> s \<noteq> [] \<and> \<not> py_space (hd s) \<and> \<not> py_space (last s)"

lemma dropWhile_stop: "s \<noteq> [] \<Longrightarrow> \<not> p (hd s) \<Longrightarrow> dropWhile p s = s"
  by (cases s) auto

lemma strip_trimmed [simp]:
  assumes "trimmed s"
  shows "strip_ws s = s" "strip_ws (CHR '' '' # s) = s"
proof -
  have "dropWhile py_space s = s" "dropWhile py_space (rev s) = rev s"
    using assms by (auto simp: trimmed_def hd_rev intro: dropWhile_stop)
  moreover have "py_space CHR '' ''" by (simp add: py_space_def)
  ultimately show "strip_ws s = s" "strip_ws (CHR '' '' # s) = s"
    by (simp_all add: strip_ws_def lstrip_ws_def)
qed

lemma strip_space [simp]: "strip_ws '' '' = []" "strip_ws ''  '' = []"
  by code_simp+

text \<open>The body of a keyframe, as \<open>css\<close> writes it between the braces.\<close>

definition body_text :: "string list \<Rightarrow> string" where
  "body_text xs = '' '' @ join '' '' (map (\<lambda>x. x @ '';'') xs) @ '' ''"

lemma body_text_Cons: "xs \<noteq> [] \<Longrightarrow> body_text (x # xs) = (CHR '' '' # x) @ CHR '';'' # body_text xs"
  by (cases xs) (simp_all add: body_text_def)

lemma decls_body: "list_all (\<lambda>x. trimmed x \<and> CHR '';'' \<notin> set x) xs \<Longrightarrow> decls (body_text xs) = xs"
proof (induction xs)
  case Nil
  show ?case by (simp add: decls_def body_text_def split_on_absent)
next
  case (Cons x xs)
  then have x: "trimmed x" "CHR '';'' \<notin> set (CHR '' '' # x)" "x \<noteq> []" by (auto simp: trimmed_def)
  show ?case
  proof (cases "xs = []")
    case True
    have "body_text [x] = (CHR '' '' # x) @ CHR '';'' # '' ''" by (simp add: body_text_def)
    with True x show ?thesis
      by (simp only: decls_def split_on_first [OF x(2)]) (simp add: split_on_absent)
  next
    case False
    with Cons x show ?thesis
      by (simp add: decls_def body_text_Cons [OF False] split_on_first [OF x(2), simplified])
  qed
qed

text \<open>A property and value that CSS can hold.\<close>

definition key_ok :: "string \<Rightarrow> bool" where
  "key_ok k \<longleftrightarrow> trimmed k \<and> CHR '':'' \<notin> set k \<and> CHR '';'' \<notin> set k \<and> CHR ''}'' \<notin> set k"

definition val_ok :: "string \<Rightarrow> bool" where
  "val_ok v \<longleftrightarrow> trimmed v \<and> CHR '';'' \<notin> set v \<and> CHR ''}'' \<notin> set v"

definition decl :: "string \<times> string \<Rightarrow> string" where
  "decl kv = fst kv @ '': '' @ snd kv"

lemma decl_ok:
  assumes "key_ok (fst kv)" and "val_ok (snd kv)"
  shows "trimmed (decl kv)" "CHR '';'' \<notin> set (decl kv)" "CHR ''}'' \<notin> set (decl kv)"
  using assms by (auto simp: decl_def key_ok_def val_ok_def trimmed_def hd_append last_append)

text \<open>What one declaration does to the values of its property.\<close>

definition put_value :: "rat \<Rightarrow> string \<Rightarrow> (rat \<times> mval) list \<Rightarrow> (rat \<times> mval) list res" where
  "put_value x v sq =
     (if sq \<noteq> [] \<and> fst (last sq) = x then Inr (butlast sq @ [(x, MText v)])
      else rbind (decl_value v) (\<lambda>y. Inr (sq @ [(x, y)])))"

lemma read_decl_ok:
  assumes "key_ok k" and "val_ok v" and "read_float pc = Inr x"
  shows "read_decl pc (decl (k, v)) P = rbind (put_value x v (dget_or [] P k)) (\<lambda>sq. Inr (dset k sq P))"
proof -
  have k: "\<And>c. c \<in> set k \<Longrightarrow> c \<noteq> CHR '':''" using assms(1) by (auto simp: key_ok_def)
  have "takeWhile (\<lambda>c. c \<noteq> CHR '':'') (decl (k, v)) = k"
    "tl (dropWhile (\<lambda>c. c \<noteq> CHR '':'') (decl (k, v))) = CHR '' '' # v"
    using k by (simp_all add: decl_def takeWhile_append2 dropWhile_append2)
  moreover have "CHR '':'' \<in> set (decl (k, v))" by (simp add: decl_def)
  ultimately show ?thesis
    using assms by (simp add: read_decl_def put_value_def key_ok_def val_ok_def Let_def rbind_def split: sum.splits)
qed

section \<open>The values of a property\<close>

text \<open>
  The specification: keyframes in a row at one percentage count once, with the last value. A value that
  replaced another stays the text it is; a value read alone becomes a number where it looks like one.
\<close>

definition mv :: "string \<Rightarrow> mval" where
  "mv v = (case decl_value v of Inl e \<Rightarrow> MText v | Inr y \<Rightarrow> y)"

function coalesce :: "(rat \<times> string) list \<Rightarrow> (rat \<times> mval) list" where
  "coalesce [] = []"
| "coalesce ((x, v) # l) =
     (let same = takeWhile (\<lambda>p. fst p = x) l
      in (x, if same = [] then mv v else MText (snd (last same))) # coalesce (dropWhile (\<lambda>p. fst p = x) l))"
  by pat_completeness auto
termination by (relation "measure length") (auto simp: less_Suc_eq_le length_dropWhile_le)

lemma coalesce_eq_Nil [simp]: "coalesce l = [] \<longleftrightarrow> l = []"
  by (cases l) (auto simp: Let_def)

lemma coalesce_last: "l \<noteq> [] \<Longrightarrow> fst (last (coalesce l)) = fst (last l)"
proof (induction l rule: coalesce.induct)
  case (2 x v l)
  show ?case
  proof (cases "dropWhile (\<lambda>p. fst p = x) l = []")
    case True
    then have "\<forall>p \<in> set l. fst p = x" by (simp add: dropWhile_eq_Nil_conv)
    with True show ?thesis by (cases l rule: rev_cases) simp_all
  next
    case False
    have "last (dropWhile (\<lambda>p. fst p = x) l) = last l"
      using takeWhile_dropWhile_id [of "\<lambda>p. fst p = x" l] False by (metis last_appendR)
    with False 2 show ?thesis by (auto simp: Let_def)
  qed
qed simp

lemma coalesce_snoc:
  "coalesce (l @ [(x, v)]) =
     (if l \<noteq> [] \<and> fst (last l) = x then butlast (coalesce l) @ [(x, MText v)] else coalesce l @ [(x, mv v)])"
proof (induction l rule: coalesce.induct)
  case (2 y w l)
  show ?case
  proof (cases "dropWhile (\<lambda>p. fst p = y) l = []")
    case True
    then have all: "\<forall>p \<in> set l. fst p = y" by (simp add: dropWhile_eq_Nil_conv)
    then have tw: "takeWhile (\<lambda>p. fst p = y) l = l" by (simp add: takeWhile_eq_all_conv)
    have eq: "takeWhile (\<lambda>p. fst p = y) (l @ [(y, v)]) = l @ [(y, v)]"
      "dropWhile (\<lambda>p. fst p = y) (l @ [(y, v)]) = []"
      using all by (simp_all add: takeWhile_append2 dropWhile_append2)
    have ne: "takeWhile (\<lambda>p. fst p = y) (l @ [(x, v)]) = l"
      "dropWhile (\<lambda>p. fst p = y) (l @ [(x, v)]) = [(x, v)]" if "x \<noteq> y"
      using all that by (simp_all add: takeWhile_append2 dropWhile_append2)
    have "fst (last ((y, w) # l)) = y" using all by (cases l rule: rev_cases) auto
    then show ?thesis
      by (cases "x = y") (simp_all del: takeWhile_eq_all_conv dropWhile_eq_Nil_conv add: Let_def True tw eq ne)
  next
    case False
    then have ex: "\<exists>p \<in> set l. fst p \<noteq> y" by (simp add: dropWhile_eq_Nil_conv)
    then have "takeWhile (\<lambda>p. fst p = y) (l @ [(x, v)]) = takeWhile (\<lambda>p. fst p = y) l"
      "dropWhile (\<lambda>p. fst p = y) (l @ [(x, v)]) = dropWhile (\<lambda>p. fst p = y) l @ [(x, v)]"
      by (auto simp: takeWhile_append1 dropWhile_append1)
    moreover have "last (dropWhile (\<lambda>p. fst p = y) l) = last ((y, w) # l)"
      using takeWhile_dropWhile_id [of "\<lambda>p. fst p = y" l] False
      by (metis dropWhile.simps(1) last_ConsR last_appendR)
    ultimately show ?thesis using False 2 by (auto simp: Let_def)
  qed
qed simp

lemma put_coalesce:
  assumes "decl_value v = Inr y"
  shows "put_value x v (coalesce l) = Inr (coalesce (l @ [(x, v)]))"
  using assms by (auto simp: put_value_def coalesce_snoc coalesce_last mv_def)

type_synonym printed = "rat \<times> string \<times> string"

definition put :: "printed \<Rightarrow> mprops \<Rightarrow> mprops res" where
  "put d P = (case d of (x, k, v) \<Rightarrow>
     rbind (put_value x v (dget_or [] P k)) (\<lambda>sq. Inr (dset k sq P)))"

definition values_of :: "string \<Rightarrow> printed list \<Rightarrow> (rat \<times> string) list" where
  "values_of k ds = map (\<lambda>(x, k', v). (x, v)) (filter (\<lambda>(x, k', v). k' = k) ds)"

definition series :: "printed list \<Rightarrow> string \<Rightarrow> (rat \<times> mval) list option" where
  "series ds k = (let l = values_of k ds in if l = [] then None else Some (coalesce l))"

lemma put_all:
  assumes "\<forall>(x, k, v) \<in> set ds. decl_value v \<noteq> Inl ValueError"
  shows "\<exists>P. rfold put ds [] = Inr P \<and> (\<forall>k. dget P k = series ds k)"
  using assms
proof (induction ds rule: rev_induct)
  case Nil
  show ?case by (simp add: series_def values_of_def)
next
  case (snoc d ds)
  then obtain P where P: "rfold put ds [] = Inr P" "\<forall>k. dget P k = series ds k" by auto
  obtain x k v where d: "d = (x, k, v)" by (cases d)
  have "decl_value v \<noteq> Inl ValueError" using snoc.prems d by simp
  then obtain y where y: "decl_value v = Inr y"
    by (auto simp: decl_value_def read_float_def Let_def split: if_splits)
  have "dget_or [] P k = coalesce (values_of k ds)"
    using P(2) by (simp add: dget_or_def series_def Let_def)
  with y have "put d P = Inr (dset k (coalesce (values_of k ds @ [(x, v)])) P)"
    by (simp add: put_def d put_coalesce)
  moreover have "dget (dset k (coalesce (values_of k ds @ [(x, v)])) P) k' = series (ds @ [d]) k'" for k'
    using P(2) by (simp add: update_conv d series_def values_of_def Let_def)
  ultimately show ?case using P(1) by (simp add: rfold_append)
qed

end
