(* ===== verification/Motion_Text.thy ===== *)
theory Motion_Text
  imports Motion_Read
begin

text \<open>
  The patterns of the exporter on the text that \<open>css\<close> prints: one keyframe, the keyframes of a rule, the
  rules of a stylesheet, and a template around it.
\<close>

section \<open>One keyframe\<close>

text \<open>A printed keyframe: the number before the percent sign, and its declarations.\<close>

type_synonym key = "string \<times> (string \<times> string) list"

definition block :: "key \<Rightarrow> string" where
  "block b = fst b @ ''% {'' @ body_text (map decl (snd b)) @ ''}''"

definition block_ok :: "key \<Rightarrow> bool" where
  "block_ok b \<longleftrightarrow> fst b \<noteq> [] \<and> list_all num_char (fst b)
     \<and> list_all (\<lambda>kv. key_ok (fst kv) \<and> val_ok (snd kv)) (snd b)"

lemma set_join: "set (join sep xs) \<subseteq> set sep \<union> \<Union> (set ` set xs)"
  by (induction sep xs rule: join.induct) auto

lemma body_no_brace: "block_ok b \<Longrightarrow> CHR ''}'' \<notin> set (body_text (map decl (snd b)))"
proof
  assume ok: "block_ok b" and "CHR ''}'' \<in> set (body_text (map decl (snd b)))"
  then have "CHR ''}'' \<in> set (join '' '' (map (\<lambda>x. x @ '';'') (map decl (snd b))))"
    by (simp add: body_text_def)
  then have "\<exists>kv \<in> set (snd b). CHR ''}'' \<in> set (decl kv)"
    using set_join [of "'' ''" "map (\<lambda>x. x @ '';'') (map decl (snd b))"]
    by (fastforce split: if_splits)
  then obtain kv where "kv \<in> set (snd b)" "CHR ''}'' \<in> set (decl kv)" by blast
  with ok decl_ok(3) [of kv] show False by (auto simp: block_ok_def list_all_iff)
qed

lemma num_char_simps [simp]:
  "\<not> num_char CHR ''%''" "\<not> num_char CHR '' ''" "\<not> num_char CHR ''}''" "\<not> name_char CHR '' ''"
  by code_simp+

lemma reads_point:
  assumes "block_ok b"
  shows "reads point_pat (block b) s (\<lambda>g. dset 2 (body_text (map decl (snd b))) (dset 1 (fst b) g))"
proof -
  let ?x = "body_text (map decl (snd b))"
  have n: "reads number (fst b) (''% {'' @ ?x @ ''}'' @ s) (\<lambda>g. g)"
    using assms by (intro reads_Some1_Cls) (auto simp: block_ok_def list_all_iff)
  have x: "reads (but CHR ''}'') ?x (''}'' @ s) (\<lambda>g. g)"
    using body_no_brace [OF assms] by (intro reads_Many_Cls) auto
  note r = reads_Grp [OF n, of 1] reads_Lit [of "''% {''"] reads_Grp [OF x, of 2] reads_Lit [of "''}''"]
  have "reads (Cat (Grp 2 (but CHR ''}'')) (Lit ''}'')) (?x @ ''}'') s (\<lambda>g. dset 2 ?x g)"
    using reads_Cat [OF r(3) r(4)] .
  then have "reads (Cat (Lit ''% {'') (Cat (Grp 2 (but CHR ''}'')) (Lit ''}''))) (''% {'' @ ?x @ ''}'') s (\<lambda>g. dset 2 ?x g)"
    using reads_Cat [OF r(2) _] by fastforce
  then show ?thesis
    using reads_Cat [of "Grp 1 number" "fst b" "''% {'' @ ?x @ ''}''" s "\<lambda>g. dset 1 (fst b) g"] r(1)
    by (simp add: point_pat_def block_def)
qed

lemma reads_block:
  assumes "block_ok b"
  shows "reads block_pat (block b @ '' '') s (\<lambda>g. g)"
proof -
  let ?x = "body_text (map decl (snd b))" and ?o = "Opt (Lit '' '')"
  have n: "reads number (fst b) (''% {'' @ ?x @ ''} '' @ s) (\<lambda>g. g)"
    using assms by (intro reads_Some1_Cls) (auto simp: block_ok_def list_all_iff)
  have x: "reads (but CHR ''}'') ?x (''} '' @ s) (\<lambda>g. g)"
    using body_no_brace [OF assms] by (intro reads_Many_Cls) auto
  have "reads (Cat (Lit ''}'') ?o) (''}'' @ '' '') s (\<lambda>g. g)"
    using reads_Cat [OF reads_Lit reads_Alt_left [OF reads_Lit]] .
  then have "reads (Cat (but CHR ''}'') (Cat (Lit ''}'') ?o)) (?x @ ''}'' @ '' '') s (\<lambda>g. g)"
    using reads_Cat [of "but CHR ''}''" ?x "''}'' @ '' ''"] x by simp
  then have "reads (Cat (Lit ''% {'') (Cat (but CHR ''}'') (Cat (Lit ''}'') ?o))) (''% {'' @ ?x @ ''}'' @ '' '') s (\<lambda>g. g)"
    using reads_Cat [OF reads_Lit] by blast
  then show ?thesis
    using reads_Cat [of number "fst b" "''% {'' @ ?x @ ''}'' @ '' ''" s] n
    by (simp add: block_pat_def block_def)
qed

section \<open>The keyframes of a rule\<close>

definition blocks_text :: "key list \<Rightarrow> string" where
  "blocks_text bs = concat (map (\<lambda>b. block b @ '' '') bs)"

lemma stuck_number: "halts num_char s \<Longrightarrow> stuck (Cat (Cat (Cls num_char) q) r) s"
  by (intro stuck_Cat stuck_Cls)

lemma stuck_block: "halts num_char s \<Longrightarrow> stuck block_pat s"
  by (simp add: block_pat_def stuck_number)

lemma stuck_point: "halts num_char s \<Longrightarrow> stuck point_pat s"
  by (simp add: point_pat_def stuck_Cat stuck_Grp stuck_Cls)

lemma reads_blocks:
  "list_all block_ok bs \<Longrightarrow> reads (Many block_pat) (blocks_text bs) (''}'' @ s) (\<lambda>g. g)"
proof (induction bs)
  case Nil
  show ?case by (simp add: blocks_text_def reads_Many_stop stuck_block)
next
  case (Cons b bs)
  then have "reads (Many block_pat) (blocks_text bs) (''}'' @ s) (\<lambda>g. g)" by simp
  from reads_Many_step [OF reads_block _ this] Cons.prems show ?case by (simp add: blocks_text_def)
qed

text \<open>The groups that the iteration finds, one for each keyframe.\<close>

definition found :: "groups list \<Rightarrow> key list \<Rightarrow> bool" where
  "found gs bs \<longleftrightarrow> list_all2 (\<lambda>g b. group 1 g = fst b \<and> group 2 g = body_text (map decl (snd b))) gs bs"

lemma find_points:
  "list_all block_ok bs \<Longrightarrow> w \<in> {[], '' ''} \<Longrightarrow> found (finditer point_pat b0 (w @ blocks_text bs)) bs"
proof (induction bs arbitrary: b0 w)
  case Nil
  then show ?case
    by (auto simp: blocks_text_def found_def stuck_point intro!: finditer_none)
next
  case (Cons b bs)
  let ?s = "'' '' @ blocks_text bs" and ?g = "dset 2 (body_text (map decl (snd b))) (dset 1 (fst b) [])"
  have ok: "block_ok b" using Cons.prems by simp
  have "inert point_pat w (block b @ ?s)" using Cons.prems by (auto simp: stuck_point)
  from finditer_next [OF this reads_point [OF ok], of b0]
  have "finditer point_pat b0 (w @ blocks_text (b # bs)) =
      dset 0 (block b) ?g # finditer point_pat (rev (block b) @ rev w @ b0) ?s"
    by (simp add: blocks_text_def) (simp add: block_def)
  moreover have "found (finditer point_pat (rev (block b) @ rev w @ b0) ?s) bs"
    using Cons.IH [of "'' ''"] Cons.prems by simp
  ultimately show ?case by (simp add: found_def group_def dget_or_def)
qed

text \<open>A keyframe list with the numbers read, as one list of declarations.\<close>

definition key_num :: "string \<Rightarrow> rat" where
  "key_num p = (case read_float p of Inl e \<Rightarrow> 0 | Inr x \<Rightarrow> x)"

definition printed_of :: "key list \<Rightarrow> printed list" where
  "printed_of bs = concat (map (\<lambda>b. map (\<lambda>(k, v). (key_num (fst b), k, v)) (snd b)) bs)"

definition readable_key :: "key \<Rightarrow> bool" where
  "readable_key b \<longleftrightarrow> block_ok b \<and> (\<exists>x. read_float (fst b) = Inr x)
     \<and> list_all (\<lambda>kv. decl_value (snd kv) \<noteq> Inl ValueError) (snd b)"

lemma rfold_read_decl:
  "list_all (\<lambda>kv. key_ok (fst kv) \<and> val_ok (snd kv)) kvs \<Longrightarrow> read_float p = Inr x \<Longrightarrow>
     rfold (read_decl p) (map decl kvs) P = rfold put (map (\<lambda>(k, v). (x, k, v)) kvs) P"
proof (induction kvs arbitrary: P)
  case (Cons kv kvs)
  obtain k v where kv: "kv = (k, v)" by (cases kv)
  with Cons have "read_decl p (decl kv) P = put (x, k, v) P" by (simp add: read_decl_ok put_def)
  with Cons kv show ?case by (cases "put (x, k, v) P") simp_all
qed simp

lemma read_block_ok:
  assumes "readable_key b" and "group 1 g = fst b" and "group 2 g = body_text (map decl (snd b))"
  shows "read_block g P = rfold put (map (\<lambda>(k, v). (key_num (fst b), k, v)) (snd b)) P"
proof -
  from assms(1) obtain x where x: "read_float (fst b) = Inr x"
    and ok: "list_all (\<lambda>kv. key_ok (fst kv) \<and> val_ok (snd kv)) (snd b)"
    by (auto simp: readable_key_def block_ok_def)
  then have "list_all (\<lambda>x. trimmed x \<and> CHR '';'' \<notin> set x) (map decl (snd b))"
    using decl_ok(1,2) by (auto simp: list_all_iff)
  with assms have "read_block g P = rfold (read_decl (fst b)) (map decl (snd b)) P"
    by (simp add: read_block_def decls_body)
  also have "\<dots> = rfold put (map (\<lambda>(k, v). (x, k, v)) (snd b)) P" using rfold_read_decl [OF ok x] .
  finally show ?thesis using x by (simp add: key_num_def)
qed

lemma read_found:
  "found gs bs \<Longrightarrow> list_all readable_key bs \<Longrightarrow> rfold read_block gs P = rfold put (printed_of bs) P"
proof (induction bs arbitrary: gs P)
  case Nil
  then show ?case by (simp add: found_def printed_of_def)
next
  case (Cons b bs)
  then obtain g gs' where gs: "gs = g # gs'" by (cases gs) (auto simp: found_def)
  with Cons have "read_block g P = rfold put (map (\<lambda>(k, v). (key_num (fst b), k, v)) (snd b)) P" for P
    by (intro read_block_ok) (auto simp: found_def)
  moreover have "rfold read_block gs' = rfold put (printed_of bs)"
    using Cons gs by (intro ext) (auto simp: found_def)
  ultimately show ?case by (simp add: gs printed_of_def rfold_append)
qed

lemma read_props_ok:
  assumes "list_all readable_key bs"
  shows "\<exists>P. read_props (blocks_text bs) = Inr P \<and> (\<forall>k. dget P k = series (printed_of bs) k)"
proof -
  have "list_all block_ok bs" using assms by (auto simp: readable_key_def list_all_iff)
  from find_points [OF this, of "[]" "[]"]
  have "read_props (blocks_text bs) = rfold put (printed_of bs) []"
    using assms by (simp add: read_props_def read_found)
  moreover have "\<forall>(x, k, v) \<in> set (printed_of bs). decl_value v \<noteq> Inl ValueError"
    using assms by (fastforce simp: printed_of_def readable_key_def list_all_iff)
  ultimately show ?thesis using put_all by metis
qed

section \<open>The rules of a stylesheet\<close>

definition rule_text :: "string \<Rightarrow> key list \<Rightarrow> string" where
  "rule_text n bs = ''@keyframes '' @ n @ '' { '' @ blocks_text bs @ ''}''"

lemma reads_frames:
  assumes "n \<noteq> []" and "list_all name_char n" and "list_all block_ok bs"
  shows "reads frames_pat (rule_text n bs) s (\<lambda>g. dset 2 (blocks_text bs) (dset 1 n g))"
proof -
  have n: "reads (Grp 1 name) n ('' { '' @ blocks_text bs @ ''}'' @ s) (\<lambda>g. dset 1 n g)"
    using assms by (intro reads_Grp reads_Some1_Cls) (auto simp: list_all_iff)
  have b: "reads (Grp 2 (Many block_pat)) (blocks_text bs) (''}'' @ s) (\<lambda>g. dset 2 (blocks_text bs) g)"
    using reads_Grp [OF reads_blocks [OF assms(3)]] .
  have "reads (Cat (Grp 2 (Many block_pat)) (Lit ''}'')) (blocks_text bs @ ''}'') s (\<lambda>g. dset 2 (blocks_text bs) g)"
    using reads_Cat [OF b reads_Lit] .
  then have "reads (Cat (Lit '' { '') (Cat (Grp 2 (Many block_pat)) (Lit ''}''))) ('' { '' @ blocks_text bs @ ''}'') s
      (\<lambda>g. dset 2 (blocks_text bs) g)"
    using reads_Cat [OF reads_Lit] by blast
  then have "reads (Cat (Grp 1 name) (Cat (Lit '' { '') (Cat (Grp 2 (Many block_pat)) (Lit ''}''))))
      (n @ '' { '' @ blocks_text bs @ ''}'') s (\<lambda>g. dset 2 (blocks_text bs) (dset 1 n g))"
    using reads_Cat [of "Grp 1 name" n "'' { '' @ blocks_text bs @ ''}''" s] n by simp
  then show ?thesis
    unfolding frames_pat_def rule_text_def cats.simps by (rule reads_Cat [OF reads_Lit])
qed

lemma stuck_frames: "\<not> prefix ''@keyframes '' s \<Longrightarrow> stuck frames_pat s"
  unfolding frames_pat_def cats.simps by (intro stuck_Cat stuck_Lit)

lemma inert_no_at: "CHR ''@'' \<notin> set u \<Longrightarrow> inert frames_pat u s"
  by (induction u) (auto intro!: stuck_frames)

lemma prefix_within: "prefix w (u @ s) \<Longrightarrow> s = [] \<or> hd s \<notin> set w \<Longrightarrow> prefix w u"
proof (induction u arbitrary: w)
  case Nil
  then show ?case by (cases w; cases s) auto
next
  case (Cons c u)
  then show ?case by (cases w) auto
qed

lemma inert_quiet:
  assumes "\<not> sublist ''@keyframes '' u" and "s = [] \<or> hd s \<notin> set ''@keyframes ''"
  shows "inert frames_pat u s"
  unfolding inert_def
proof (intro allI impI, rule stuck_frames, rule notI)
  fix u1 c u2
  assume u: "u = u1 @ c # u2" and "prefix ''@keyframes '' (c # u2 @ s)"
  then have "prefix ''@keyframes '' (c # u2)" using prefix_within [of "''@keyframes ''" "c # u2" s] assms(2) by simp
  then have "sublist ''@keyframes '' (u1 @ c # u2)" by (metis prefix_imp_sublist sublist_append)
  with assms(1) u show False by simp
qed

type_synonym sheet_rule = "string \<times> key list"

definition sheet :: "sheet_rule list \<Rightarrow> string" where
  "sheet rs = concat (map (\<lambda>(n, bs). nl @ ''    '' @ rule_text n bs) rs)"

definition rule_ok :: "sheet_rule \<Rightarrow> bool" where
  "rule_ok r \<longleftrightarrow> fst r \<noteq> [] \<and> list_all name_char (fst r) \<and> list_all readable_key (snd r)"

definition found_rules :: "groups list \<Rightarrow> sheet_rule list \<Rightarrow> bool" where
  "found_rules gs rs \<longleftrightarrow> list_all2 (\<lambda>g r. group 1 g = fst r \<and> group 2 g = blocks_text (snd r)) gs rs"

lemma find_rules:
  "list_all rule_ok rs \<Longrightarrow> inert frames_pat w (sheet rs @ post) \<Longrightarrow> inert frames_pat post [] \<Longrightarrow>
     found_rules (finditer frames_pat b0 (w @ sheet rs @ post)) rs"
proof (induction rs arbitrary: b0 w)
  case Nil
  have "stuck frames_pat []" by (simp add: stuck_frames)
  with Nil have "finditer frames_pat b0 (w @ post) = []" by (intro finditer_none) (simp_all add: sheet_def)
  then show ?case by (simp add: sheet_def found_rules_def)
next
  case (Cons r rs)
  obtain n bs where r: "r = (n, bs)" by (cases r)
  let ?w = "w @ nl @ ''    ''" and ?s = "sheet rs @ post"
  let ?g = "dset 2 (blocks_text bs) (dset 1 n [])"
  have s: "sheet (r # rs) @ post = (nl @ ''    '') @ rule_text n bs @ ?s" by (simp add: sheet_def r)
  have bs: "list_all block_ok bs" using Cons.prems r by (auto simp: rule_ok_def readable_key_def list_all_iff)
  have "inert frames_pat (nl @ ''    '') (rule_text n bs @ ?s)" by (rule inert_no_at) (simp add: nl_def)
  then have "inert frames_pat ?w (rule_text n bs @ ?s)"
    using Cons.prems(2) unfolding s by (simp only: inert_append append_assoc simp_thms)
  moreover have "reads frames_pat (rule_text n bs) ?s (\<lambda>g. dset 2 (blocks_text bs) (dset 1 n g))"
    using Cons.prems r bs by (intro reads_frames) (auto simp: rule_ok_def)
  ultimately have "finditer frames_pat b0 (w @ sheet (r # rs) @ post) =
      dset 0 (rule_text n bs) ?g # finditer frames_pat (rev (rule_text n bs) @ rev ?w @ b0) ([] @ ?s)"
    using finditer_next [of frames_pat ?w "rule_text n bs" ?s _ b0]
    by (simp only: s append_assoc append_Nil) (simp add: rule_text_def)
  moreover have "found_rules (finditer frames_pat (rev (rule_text n bs) @ rev ?w @ b0) ([] @ ?s)) rs"
    using Cons.prems by (intro Cons.IH) simp_all
  ultimately show ?case by (simp add: found_rules_def group_def dget_or_def r)
qed

text \<open>The frames of a stylesheet: each rule's name with the values of every property.\<close>

lemma read_rules:
  "found_rules gs rs \<Longrightarrow> list_all rule_ok rs \<Longrightarrow> distinct (map fst rs) \<Longrightarrow> set (map fst rs) \<inter> set (dkeys F) = {} \<Longrightarrow>
     \<exists>F'. rfold (\<lambda>g F. rbind (read_props (group 2 g)) (\<lambda>P. Inr (dset (group 1 g) P F))) gs F = Inr (F @ F')
       \<and> list_all2 (\<lambda>r f. fst f = fst r \<and> (\<forall>k. dget (snd f) k = series (printed_of (snd r)) k)) rs F'"
proof (induction rs arbitrary: gs F)
  case Nil
  then show ?case by (simp add: found_rules_def)
next
  case (Cons r rs)
  then obtain g gs' where gs: "gs = g # gs'" "group 1 g = fst r" "group 2 g = blocks_text (snd r)"
    "found_rules gs' rs" by (cases gs) (auto simp: found_rules_def)
  have "list_all readable_key (snd r)" using Cons.prems by (simp add: rule_ok_def)
  then obtain P where P: "read_props (blocks_text (snd r)) = Inr P" "\<forall>k. dget P k = series (printed_of (snd r)) k"
    using read_props_ok by blast
  have "dset (fst r) P F = F @ [(fst r, P)]" using Cons.prems by (intro dkeys_dset_new) auto
  moreover have "\<exists>F'. rfold (\<lambda>g F. rbind (read_props (group 2 g)) (\<lambda>P. Inr (dset (group 1 g) P F))) gs' (F @ [(fst r, P)])
      = Inr ((F @ [(fst r, P)]) @ F')
      \<and> list_all2 (\<lambda>r f. fst f = fst r \<and> (\<forall>k. dget (snd f) k = series (printed_of (snd r)) k)) rs F'"
    using Cons.prems gs(4) by (intro Cons.IH) auto
  ultimately obtain F' where "rfold (\<lambda>g F. rbind (read_props (group 2 g)) (\<lambda>P. Inr (dset (group 1 g) P F))) gs F
      = Inr (F @ (fst r, P) # F')"
    and "list_all2 (\<lambda>r f. fst f = fst r \<and> (\<forall>k. dget (snd f) k = series (printed_of (snd r)) k)) rs F'"
    using gs P by auto
  with P show ?case by (intro exI [of _ "(fst r, P) # F'"]) simp
qed

end
