(* ===== verification/Motion_Claims.thy ===== *)
theory Motion_Claims
  imports Motion_Text
begin

text \<open>
  What the exporter promises on a picture that \<open>render\<close> wrote: it reads every rule's keyframes back.
\<close>

section \<open>The stylesheet as text\<close>

text \<open>The printed keyframes of a padded rule, and the declarations in them.\<close>

definition pct_num :: "rat \<Rightarrow> rat \<Rightarrow> string" where
  "pct_num D t = (case pct D t of Inl e \<Rightarrow> [] | Inr s \<Rightarrow> butlast s)"

definition keys_of :: "rat \<Rightarrow> point list \<Rightarrow> key list" where
  "keys_of D ps = map (\<lambda>p. (pct_num D (fst p), map (\<lambda>(k, v). (k, show_cssv v)) (snd p))) ps"

definition readable_props :: "props \<Rightarrow> bool" where
  "readable_props kvs \<longleftrightarrow>
     list_all (\<lambda>(k, v). key_ok k \<and> val_ok (show_cssv v) \<and> decl_value (show_cssv v) \<noteq> Inl ValueError) kvs"

definition readable_rule :: "string \<times> point list \<Rightarrow> bool" where
  "readable_rule r \<longleftrightarrow> fst r \<noteq> [] \<and> list_all name_char (fst r)
     \<and> list_all (\<lambda>p. 0 \<le> fst p \<and> readable_props (snd p)) (snd r)"

text \<open>Every declaration of a rule, with its percentage to two decimals, and the values of one property.\<close>

definition declared :: "rat \<Rightarrow> point list \<Rightarrow> printed list" where
  "declared D ps =
     concat (map (\<lambda>p. map (\<lambda>(k, v). (py_round 2 (fst p / D * 100), k, show_cssv v)) (snd p)) ps)"

lemma join_space: "xs \<noteq> [] \<Longrightarrow> join '' '' xs @ '' }'' = concat (map (\<lambda>x. x @ '' '') xs) @ ''}''"
  by (induction "'' ''" xs rule: join.induct) auto

lemma css_point_text:
  assumes "0 < D" and "0 \<le> fst p"
  shows "css_point D p = Inr (block (pct_num D (fst p), map (\<lambda>(k, v). (k, show_cssv v)) (snd p)))"
proof -
  obtain s where "pct D (fst p) = Inr (s @ ''%'')" using pct_text [OF assms] by blast
  then show ?thesis
    by (simp add: css_point_def pct_num_def block_def body_text_def decl_def o_def case_prod_unfold)
qed

lemma padded_all:
  assumes "padded D n pts = Inr ps" and "0 < D" and "\<forall>p \<in> set pts. 0 \<le> fst p \<and> Q (snd p)"
  shows "\<forall>p \<in> set ps. 0 \<le> fst p \<and> Q (snd p)"
proof -
  have ne: "pts \<noteq> []" using assms(1) by (auto simp: padded_def)
  then have "set ps \<subseteq> set pts \<union> {(0, snd (hd pts)), (D, snd (last pts))}"
    using assms(1) by (auto simp: padded_def Let_def split: list.splits if_splits)
  moreover have "hd pts \<in> set pts" "last pts \<in> set pts" using ne by simp_all
  ultimately show ?thesis using assms(2,3) by fastforce
qed

lemma css_text:
  assumes "0 < D" and "\<forall>p \<in> set pts. 0 \<le> fst p" and c: "css D n pts = Inr f"
  shows "\<exists>ps. padded D n pts = Inr ps \<and> f = ''    '' @ rule_text n (keys_of D ps)"
proof -
  from c obtain ps body where ps: "padded D n pts = Inr ps" and b: "rmap (css_point D) ps = Inr body"
    and f: "f = ''    @keyframes '' @ n @ '' { '' @ join '' '' body @ '' }''"
    by (auto simp: css_def)
  have "\<forall>p \<in> set ps. 0 \<le> fst p \<and> True"
    using padded_all [OF ps assms(1), of "\<lambda>_. True"] assms(2) by simp
  then have "rmap (css_point D) ps = Inr (map block (keys_of D ps))"
    using css_point_text [OF assms(1)] by (induction ps) (auto simp: keys_of_def)
  with b have body: "body = map block (keys_of D ps)" by simp
  moreover have "body \<noteq> []" using body padded_nonempty [OF ps] by (simp add: keys_of_def)
  ultimately have "f = ''    '' @ rule_text n (keys_of D ps)"
    using f join_space [of body] by (simp add: rule_text_def blocks_text_def o_def)
  with ps show ?thesis by blast
qed

lemma pairs_fst_snd:
  "list_all (\<lambda>(k, v). P k \<and> Q (f v) \<and> R (f v)) kvs \<Longrightarrow>
     list_all (\<lambda>kv. P (fst kv) \<and> Q (snd kv)) (map (\<lambda>(k, v). (k, f v)) kvs)"
  by (induction kvs) auto

lemma pairs_snd:
  "list_all (\<lambda>(k, v). P k \<and> Q (f v) \<and> R (f v)) kvs \<Longrightarrow> list_all (\<lambda>kv. R (snd kv)) (map (\<lambda>(k, v). (k, f v)) kvs)"
  by (induction kvs) auto

lemma keys_readable:
  assumes D: "0 < D" and ps: "padded D n pts = Inr ps"
    and pts: "list_all (\<lambda>p. 0 \<le> fst p \<and> readable_props (snd p)) pts"
  shows "list_all readable_key (keys_of D ps)" "printed_of (keys_of D ps) = declared D ps"
proof -
  have all: "\<forall>p \<in> set ps. 0 \<le> fst p \<and> readable_props (snd p)"
    using padded_all [OF ps D pts [unfolded list_all_iff]] .
  have one: "readable_key (pct_num D (fst p), map (\<lambda>(k, v). (k, show_cssv v)) (snd p))
      \<and> key_num (pct_num D (fst p)) = py_round 2 (fst p / D * 100)" if "p \<in> set ps" for p
  proof -
    have p: "0 \<le> fst p" "readable_props (snd p)" using all that by blast+
    obtain s where "pct D (fst p) = Inr (s @ ''%'')" "s \<noteq> []" "list_all num_char s"
      "read_float s = Inr (py_round 2 (fst p / D * 100))" using pct_text [OF D p(1)] by blast
    then have "pct_num D (fst p) = s" "key_num (pct_num D (fst p)) = py_round 2 (fst p / D * 100)"
      "s \<noteq> []" "list_all num_char s" "\<exists>x. read_float s = Inr x"
      by (simp_all add: pct_num_def key_num_def)
    moreover have "list_all (\<lambda>kv. key_ok (fst kv) \<and> val_ok (snd kv)) (map (\<lambda>(k, v). (k, show_cssv v)) (snd p))"
      "list_all (\<lambda>kv. decl_value (snd kv) \<noteq> Inl ValueError) (map (\<lambda>(k, v). (k, show_cssv v)) (snd p))"
      using p(2) unfolding readable_props_def by (rule pairs_fst_snd, rule pairs_snd)
    ultimately show ?thesis by (simp only: readable_key_def block_ok_def fst_conv snd_conv simp_thms)
  qed
  then show "list_all readable_key (keys_of D ps)" by (simp add: keys_of_def list_all_iff)
  have "printed_of (keys_of D ps) =
      concat (map (\<lambda>p. map (\<lambda>(k, v). (key_num (pct_num D (fst p)), k, show_cssv v)) (snd p)) ps)"
    by (simp add: printed_of_def keys_of_def o_def case_prod_unfold)
  also have "\<dots> = declared D ps"
    unfolding declared_def by (rule arg_cong [of _ _ concat], rule map_cong [OF refl]) (simp add: one)
  finally show "printed_of (keys_of D ps) = declared D ps" .
qed

section \<open>The written picture\<close>

lemma replace_first:
  "old \<noteq> [] \<Longrightarrow> \<not> sublist old (pre @ butlast old) \<Longrightarrow>
     replace_all old new (pre @ old @ s) = pre @ new @ replace_all old new s"
proof (induction pre)
  case (Cons c pre)
  then have "\<not> prefix old ((c # pre) @ butlast old)" by auto
  moreover have "prefix old ((c # pre) @ butlast old)" if "prefix old ((c # pre) @ old @ s)"
  proof -
    have "length old \<le> length ((c # pre) @ butlast old)" using Cons.prems(1) by simp
    moreover have "(c # pre) @ old @ s = ((c # pre) @ butlast old) @ last old # s"
      using Cons.prems(1) by (simp flip: append_butlast_last_id)
    ultimately show ?thesis using that by (metis prefix_length_prefix prefixI)
  qed
  ultimately have "\<not> prefix old (c # pre @ old @ s)" by auto
  with Cons show ?case by (auto simp: sublist_Cons_right)
qed simp

lemma replace_one: "old \<noteq> [] \<Longrightarrow> split_at old s [pre, post] \<Longrightarrow> replace_all old new s = pre @ new @ post"
  by (auto simp: split_at_def replace_first replace_absent)

lemma join_without: "c \<notin> set sep \<Longrightarrow> \<forall>x \<in> set xs. c \<notin> set x \<Longrightarrow> c \<notin> set (join sep xs)"
  by (induction sep xs rule: join.induct) auto

lemma names_text:
  assumes "rs \<noteq> []"
  shows "\<exists>u. join nl (map (\<lambda>(n, _). ''    #'' @ n @ '' { animation-name: '' @ n @ ''; }'') rs) = ''    #'' @ u
    \<and> (list_all (\<lambda>r. list_all name_char (fst r)) rs \<longrightarrow> CHR ''@'' \<notin> set u)"
proof -
  obtain r rs' where rs: "rs = r # rs'" using assms by (cases rs) auto
  let ?f = "\<lambda>(n, _). ''    #'' @ n @ '' { animation-name: '' @ n @ ''; }''"
  let ?u = "fst r @ '' { animation-name: '' @ fst r @ ''; }'' @ (if rs' = [] then [] else nl @ join nl (map ?f rs'))"
  have "join nl (map ?f rs) = ''    #'' @ ?u"
    by (cases rs'; cases r) (simp_all add: rs case_prod_unfold)
  moreover have "CHR ''@'' \<notin> set ?u" if "list_all (\<lambda>r. list_all name_char (fst r)) rs"
  proof -
    have at: "\<not> name_char CHR ''@''" by code_simp
    have "CHR ''@'' \<notin> set (fst r)" if "r \<in> set rs" for r
      using that \<open>list_all _ rs\<close> at by (auto simp: list_all_iff)
    then have "CHR ''@'' \<notin> set (?f r)" if "r \<in> set rs" for r
      using that by (auto simp: case_prod_unfold)
    then have "CHR ''@'' \<notin> set (join nl (map ?f rs'))"
      using rs by (intro join_without) (auto simp: nl_def)
    moreover have "CHR ''@'' \<notin> set (fst r)" using \<open>\<And>r. r \<in> set rs \<Longrightarrow> CHR ''@'' \<notin> set (fst r)\<close> rs by simp
    ultimately show ?thesis by (simp add: nl_def)
  qed
  ultimately show ?thesis by blast
qed

lemma sheet_rules:
  assumes D: "0 < D" and ok: "list_all readable_rule rl"
    and fr: "rmap (\<lambda>(n, pts). css D n pts) rl = Inr frames"
  shows "\<exists>rs. frames = map (\<lambda>(n, bs). ''    '' @ rule_text n bs) rs \<and> list_all rule_ok rs
    \<and> list_all2 (\<lambda>(n, pts) r. fst r = n \<and> (\<exists>ps. padded D n pts = Inr ps \<and> printed_of (snd r) = declared D ps)) rl rs"
  using ok fr
proof (induction rl arbitrary: frames)
  case Nil
  then show ?case by simp
next
  case (Cons r rl)
  obtain n pts where r: "r = (n, pts)" by (cases r)
  with Cons.prems obtain f fs where f: "css D n pts = Inr f" "rmap (\<lambda>(n, pts). css D n pts) rl = Inr fs"
    "frames = f # fs" by auto
  have pts: "n \<noteq> []" "list_all name_char n" "list_all (\<lambda>p. 0 \<le> fst p \<and> readable_props (snd p)) pts"
    using Cons.prems(1) r by (simp_all add: readable_rule_def)
  then obtain ps where ps: "padded D n pts = Inr ps" "f = ''    '' @ rule_text n (keys_of D ps)"
    using css_text [OF D _ f(1)] by (auto simp: list_all_iff)
  obtain rs where "fs = map (\<lambda>(n, bs). ''    '' @ rule_text n bs) rs" "list_all rule_ok rs"
    "list_all2 (\<lambda>(n, pts) r. fst r = n \<and> (\<exists>ps. padded D n pts = Inr ps \<and> printed_of (snd r) = declared D ps)) rl rs"
    using Cons.IH [OF _ f(2)] Cons.prems(1) by auto
  moreover have "rule_ok (n, keys_of D ps)" using pts keys_readable [OF D ps(1) pts(3)] by (simp add: rule_ok_def)
  ultimately show ?case
    using f ps keys_readable(2) [OF D ps(1) pts(3)] r
    by (intro exI [of _ "(n, keys_of D ps) # rs"]) simp
qed

lemma sheet_join: "xs \<noteq> [] \<Longrightarrow> nl @ join nl xs = concat (map (\<lambda>x. nl @ x) xs)"
  by (induction nl xs rule: join.induct) auto

lemma strip_margin: "trimmed s \<Longrightarrow> strip_ws (''    '' @ s) = s"
proof -
  assume s: "trimmed s"
  have "py_space CHR '' ''" by code_simp
  then have "lstrip_ws (''    '' @ s) = lstrip_ws s" by (simp add: lstrip_ws_def)
  then show ?thesis using strip_trimmed(1) [OF s] by (simp only: strip_ws_def)
qed

lemma sheet_last: "rs \<noteq> [] \<Longrightarrow> sheet rs \<noteq> [] \<and> last (sheet rs) = CHR ''}''"
proof (induction rs)
  case (Cons r rs)
  then show ?case by (cases rs; cases r) (auto simp: sheet_def rule_text_def)
qed simp

definition sheet_of :: "rat \<Rightarrow> (string \<times> point list) list \<Rightarrow> sheet_rule list \<Rightarrow> bool" where
  "sheet_of D rl rs \<longleftrightarrow> list_all rule_ok rs \<and>
     list_all2 (\<lambda>(n, pts) r. fst r = n \<and> (\<exists>ps. padded D n pts = Inr ps \<and> printed_of (snd r) = declared D ps)) rl rs"

lemma sheet_of_names: "sheet_of D rl rs \<Longrightarrow> map fst rs = map fst rl"
proof -
  assume "sheet_of D rl rs"
  then have "list_all2 (\<lambda>(n, pts) r. fst r = n \<and> (\<exists>ps. padded D n pts = Inr ps \<and> printed_of (snd r) = declared D ps)) rl rs"
    by (simp add: sheet_of_def)
  then show ?thesis by (induction rule: list_all2_induct) auto
qed

lemma written_sheet:
  assumes "0 < loop_D K" and ne: "rules K \<noteq> []" and ok: "list_all readable_rule (rules K)"
    and fr: "rmap (\<lambda>(n, pts). css (loop_D K) n pts) (rules K) = Inr frames"
  obtains rs u where "sheet_of (loop_D K) (rules K) rs" and "rule_names K = ''    #'' @ u" and "CHR ''@'' \<notin> set u"
    and "strip_ws (rule_names K @ nl @ join nl frames) = ''#'' @ u @ sheet rs"
proof -
  obtain rs where rs: "frames = map (\<lambda>(n, bs). ''    '' @ rule_text n bs) rs" "sheet_of (loop_D K) (rules K) rs"
    using sheet_rules [OF assms(1) ok fr] by (auto simp: sheet_of_def)
  have rs_ne: "rs \<noteq> []" using ne sheet_of_names [OF rs(2)] by auto
  obtain u where u: "rule_names K = ''    #'' @ u" "CHR ''@'' \<notin> set u"
    using names_text [OF ne] ok by (auto simp: rule_names_def readable_rule_def list_all_iff)
  have "nl @ join nl frames = sheet rs"
    using sheet_join [of frames] rs_ne rs(1) by (simp add: sheet_def o_def case_prod_unfold)
  then have X: "rule_names K @ nl @ join nl frames = ''    '' @ (''#'' @ u @ sheet rs)" by (simp add: u)
  have "\<not> py_space CHR ''#''" "\<not> py_space CHR ''}''" by code_simp+
  then have "trimmed (''#'' @ u @ sheet rs)" using sheet_last [OF rs_ne] by (simp add: trimmed_def)
  then have "strip_ws (rule_names K @ nl @ join nl frames) = ''#'' @ u @ sheet rs"
    unfolding X by (rule strip_margin)
  with rs(2) u show thesis by (rule that)
qed

lemma read_sheet:
  assumes sh: "sheet_of D rl rs" and dist: "distinct (map fst rl)" and u: "CHR ''@'' \<notin> set u"
    and quiet: "\<not> sublist ''@keyframes '' pre" "\<not> sublist ''@keyframes '' post"
  shows "\<exists>F. read_frames (pre @ (''#'' @ u @ sheet rs) @ post) = Inr F
    \<and> list_all2 (\<lambda>(n, pts) f. fst f = n \<and> (\<exists>ps. padded D n pts = Inr ps
          \<and> (\<forall>k. dget (snd f) k = series (declared D ps) k))) rl F"
proof -
  have ok: "list_all rule_ok rs" and all: "list_all2 (\<lambda>(n, pts) r. fst r = n \<and> (\<exists>ps. padded D n pts = Inr ps
      \<and> printed_of (snd r) = declared D ps)) rl rs"
    using sh by (simp_all add: sheet_of_def)
  have rs_dist: "distinct (map fst rs)" using dist sheet_of_names [OF sh] by simp
  let ?w = "pre @ ''#'' @ u"
  have "inert frames_pat pre (''#'' @ u @ sheet rs @ post)" using quiet(1) by (rule inert_quiet) simp
  moreover have "inert frames_pat (''#'' @ u) (sheet rs @ post)" using u by (intro inert_no_at) simp
  ultimately have "inert frames_pat ?w (sheet rs @ post)" unfolding inert_append append_assoc by simp
  moreover have "inert frames_pat post []" using quiet(2) by (rule inert_quiet) simp
  ultimately have "found_rules (finditer frames_pat [] (?w @ sheet rs @ post)) rs"
    by (rule find_rules [OF ok])
  from read_rules [OF this ok rs_dist, of "[]"]
  obtain F where F: "read_frames (pre @ (''#'' @ u @ sheet rs) @ post) = Inr F"
    "list_all2 (\<lambda>r f. fst f = fst r \<and> (\<forall>k. dget (snd f) k = series (printed_of (snd r)) k)) rs F"
    by (auto simp: read_frames_def)
  from all F(2) have "list_all2 (\<lambda>(n, pts) f. fst f = n \<and> (\<exists>ps. padded D n pts = Inr ps
      \<and> (\<forall>k. dget (snd f) k = series (declared D ps) k))) rl F"
    by (rule list_all2_trans [rotated]) (auto simp: case_prod_unfold)
  with F(1) show ?thesis by blast
qed

text \<open>A written picture is its template with the stylesheet at the mark.\<close>

lemma written_picture:
  assumes "render files tpl still lg K = Inr out" and "read_tpl files tpl = Inr src"
    and "split_at ''/*KEYFRAMES*/'' (fill src still lg K) [pre, post]"
  obtains frames where "rmap (\<lambda>(n, pts). css (loop_D K) n pts) (rules K) = Inr frames"
    and "out = pre @ strip_ws (rule_names K @ nl @ join nl frames) @ post"
proof -
  from assms(1,2) obtain frames where fr: "rmap (\<lambda>(n, pts). css (loop_D K) n pts) (rules K) = Inr frames"
    and o: "out = replace_all ''/*KEYFRAMES*/'' (strip_ws (rule_names K @ nl @ join nl frames)) (fill src still lg K)"
    by (auto simp: render_def Let_def)
  have "out = pre @ strip_ws (rule_names K @ nl @ join nl frames) @ post"
    unfolding o by (rule replace_one [OF _ assms(3)]) simp
  with fr show thesis by (rule that)
qed

lemma loop_positive:
  assumes "rmap (\<lambda>(n, pts). css D n pts) rl = Inr frames" and "rl \<noteq> []" and "list_all readable_rule rl"
  shows "0 < D"
proof -
  obtain n pts where r: "(n, pts) \<in> set rl" using assms(2) by (cases rl) auto
  then have "\<exists>f. css D n pts = Inr f" using rmap_Inr_iff [of "\<lambda>(n, pts). css D n pts" rl] assms(1) by auto
  then have D: "D \<noteq> 0" "pts \<noteq> []" "fst (last pts) \<le> D" using css_Inr_iff by blast+
  have "list_all (\<lambda>p. 0 \<le> fst p \<and> readable_props (snd p)) pts"
    using assms(3) r by (auto simp: readable_rule_def list_all_iff)
  then have "0 \<le> fst (last pts)" using D(2) by (simp add: list_all_iff)
  with D show ?thesis by simp
qed

text \<open>C12: What \<open>render\<close> wrote into a template with one keyframe mark and no keyframes of its own,
  \<open>motion_json\<close> reads back: its frames are the rules in order, and for each property of a rule the
  values that the padded keyframes declare, at their percentages rounded to two decimals, those in a
  row at one percentage counted once with the last value. So no keyframe of the store is lost or made up.\<close>

theorem motion_reads_rules:
  assumes out: "render files tpl still lg K = Inr out" and src: "read_tpl files tpl = Inr src"
    and mark: "split_at ''/*KEYFRAMES*/'' (fill src still lg K) [pre, post]"
    and quiet: "\<not> sublist ''@keyframes '' pre" "\<not> sublist ''@keyframes '' post"
    and ne: "rules K \<noteq> []" and dist: "distinct (map fst (rules K))"
    and ok: "list_all readable_rule (rules K)"
  shows "\<exists>F. read_frames out = Inr F
    \<and> list_all2 (\<lambda>(n, pts) f. fst f = n \<and> (\<exists>ps. padded (loop_D K) n pts = Inr ps
          \<and> (\<forall>k. dget (snd f) k = series (declared (loop_D K) ps) k))) (rules K) F"
proof -
  obtain frames where fr: "rmap (\<lambda>(n, pts). css (loop_D K) n pts) (rules K) = Inr frames"
    and o: "out = pre @ strip_ws (rule_names K @ nl @ join nl frames) @ post"
    using out src mark by (rule written_picture)
  have D: "0 < loop_D K" using fr ne ok by (rule loop_positive)
  obtain rs u where "sheet_of (loop_D K) (rules K) rs" "CHR ''@'' \<notin> set u"
    "strip_ws (rule_names K @ nl @ join nl frames) = ''#'' @ u @ sheet rs"
    using D ne ok fr by (rule written_sheet)
  with read_sheet [OF _ dist _ quiet] show ?thesis unfolding o by simp
qed

lemma sample_readable:
  "readable_rule (''x'', [(1, [(''opacity'', VInt 1), (''transform'', VStr ''scale(2)'')]), (3, [(''opacity'', VInt 0)])])"
proof -
  have "key_ok ''opacity'' \<and> key_ok ''transform'' \<and> val_ok ''1'' \<and> val_ok ''0'' \<and> val_ok ''scale(2)''
      \<and> name_char CHR ''x''"
    by code_simp
  moreover have "show_cssv (VInt 1) = ''1''" "show_cssv (VInt 0) = ''0''" by code_simp+
  moreover have "decl_value ''1'' \<noteq> Inl ValueError \<and> decl_value ''0'' \<noteq> Inl ValueError
      \<and> decl_value ''scale(2)'' \<noteq> Inl ValueError"
    by code_simp
  ultimately show ?thesis by (simp add: readable_rule_def readable_props_def)
qed

theorem motion_reads_rules_witness:
  "\<exists>out F. let pts = [(1, [(''opacity'', VInt 1), (''transform'', VStr ''scale(2)'')]), (3, [(''opacity'', VInt 0)])];
      K = \<lparr>loop_D = 4, rules = [(''x'', pts)], LEGEND = [], elements = []\<rparr>
    in render Map.empty ''<svg><g id=\"x\"/>/*KEYFRAMES*/</svg>'' 0 None K = Inr out
      \<and> read_frames out = Inr F
      \<and> list_all2 (\<lambda>(n, pts) f. fst f = n \<and> (\<exists>ps. padded (loop_D K) n pts = Inr ps
            \<and> (\<forall>k. dget (snd f) k = series (declared (loop_D K) ps) k))) (rules K) F"
proof -
  let ?pts = "[(1, [(''opacity'', VInt 1), (''transform'', VStr ''scale(2)'')]), (3, [(''opacity'', VInt 0)])] :: point list"
  let ?K = "\<lparr>loop_D = 4, rules = [(''x'', ?pts)], LEGEND = [], elements = []\<rparr>"
  let ?t = "''<svg><g id=\"x\"/>/*KEYFRAMES*/</svg>''"
  have f: "fill ?t 0 None ?K = ?t" by (simp add: fill_def replace_absent sublist_code)
  have r: "read_tpl Map.empty ?t = Inr ?t" by (simp add: read_tpl_def lstrip_ws_def py_space_def)
  from f r have "\<exists>out. render Map.empty ?t 0 None ?K = Inr out"
    by (simp add: render_Inr_iff sample_ids rules_fit_def)
  then obtain out where o: "render Map.empty ?t 0 None ?K = Inr out" by blast
  have "split_at ''/*KEYFRAMES*/'' (fill ?t 0 None ?K) [''<svg><g id=\"x\"/>'', ''</svg>'']"
    unfolding f by (simp add: split_at_def sublist_code)
  moreover have "\<not> sublist ''@keyframes '' ''<svg><g id=\"x\"/>''" "\<not> sublist ''@keyframes '' ''</svg>''"
    by (simp_all add: sublist_code)
  ultimately show ?thesis
    using motion_reads_rules [OF o r] sample_readable o unfolding Let_def by fastforce
qed

text \<open>
  A value that replaces one at the same percentage is kept as a text, even when it is a number: the
  exporter converts a value only when it appends it. (Two keyframes less than half a hundredth of a
  percent of the loop apart print the same percentage.)
\<close>

lemma same_percent_stays_text:
  "case read_props ''25% { opacity: 0; } 25% { opacity: 1; } '' of Inl e \<Rightarrow> False
   | Inr P \<Rightarrow> map fst P = [''opacity''] \<and> map snd (concat (map snd P)) = [MText ''1'']"
  by code_simp

end
