(* ===== verification/Motion_Names.thy ===== *)
theory Motion_Names
  imports Motion_Claims
begin

text \<open>
  The animation-name lines of a written stylesheet, as the exporter reads them: the one pattern that has
  to give back characters it read greedily, the text in which it cannot start, and the tracks it yields.
\<close>

section \<open>Giving back\<close>

lemma greedy_Cls:
  "greedy (ways (Cls p)) (b, c # t, g) =
     (if p c then greedy (ways (Cls p)) (c # b, t, g) else []) @ [(b, c # t, g)]"
proof -
  have "ways (Cls p) (b, c # t, g) = (if p c then [(c # b, t, g)] else [])" by simp
  then show ?thesis by (subst greedy.simps) (simp add: left_def del: ways.simps)
qed

lemma greedy_Cls_end: "halts p s \<Longrightarrow> greedy (ways (Cls p)) (b, s, g) = [(b, s, g)]"
  using stuck_Cls [of p s] by (simp add: greedy.simps stuck_def)

lemma ways_Many_Cls:
  "(\<And>w1 w2. w = w1 @ w2 \<Longrightarrow> stuck q (w2 @ r)) \<Longrightarrow> \<forall>c \<in> set w. p c \<Longrightarrow> halts p r \<Longrightarrow>
     concat (map (ways q) (greedy (ways (Cls p)) (b, w @ r, g))) = []"
proof (induction w arbitrary: b)
  case Nil
  have "ways q (b, r, g) = []" using Nil(1) [of "[]" "[]"] by (simp add: stuck_def)
  with Nil show ?case by (simp add: greedy_Cls_end del: ways.simps)
next
  case (Cons c w)
  have "stuck q (w2 @ r)" if "w = w1 @ w2" for w1 w2
    using Cons.prems(1) [of "c # w1" w2] that by simp
  then have "concat (map (ways q) (greedy (ways (Cls p)) (c # b, w @ r, g))) = []"
    using Cons.prems(2,3) by (intro Cons.IH) auto
  moreover have "ways q (b, c # w @ r, g) = []" using Cons.prems(1) [of "[]" "c # w"] by (simp add: stuck_def)
  ultimately show ?case using Cons.prems(2) by (simp add: greedy_Cls del: ways.simps)
qed

text \<open>
  A greedy class reads the whole run \<open>u @ w\<close>, and gives back all of \<open>w\<close> when what follows it in the
  pattern matches there and nowhere further on.
\<close>

lemma reads_back:
  assumes q: "reads q v s f" and vs: "v @ s = w @ r" and w: "w \<noteq> []"
    and later: "\<And>w1 w2. w = w1 @ w2 \<Longrightarrow> w1 \<noteq> [] \<Longrightarrow> stuck q (w2 @ r)"
    and p: "\<forall>c \<in> set (u @ w). p c" and r: "halts p r"
  shows "reads (Cat (Many (Cls p)) q) (u @ v) s f"
proof (rule readsI)
  fix b g
  have "\<exists>ms. concat (map (ways q) (greedy (ways (Cls p)) (b, u @ v @ s, g))) = (rev v @ rev u @ b, s, f g) # ms"
    using p
  proof (induction u arbitrary: b)
    case Nil
    obtain c w' where c: "w = c # w'" using w by (cases w) auto
    have "concat (map (ways q) (greedy (ways (Cls p)) (c # b, w' @ r, g))) = []"
      using Nil c r later [of "c # w1" for w1] by (intro ways_Many_Cls) auto
    moreover obtain ms where "ways q (b, w @ r, g) = (rev v @ b, s, f g) # ms"
      using readsE [OF q, of b g] vs by metis
    ultimately show ?case
      unfolding append_Nil vs using Nil c by (simp add: greedy_Cls del: ways.simps concat_eq_Nil_conv)
  next
    case (Cons c u)
    then obtain ms where "concat (map (ways q) (greedy (ways (Cls p)) (c # b, u @ v @ s, g))) =
        (rev v @ rev u @ c # b, s, f g) # ms" using Cons.IH [of "c # b"] Cons.prems by (auto simp del: ways.simps)
    then show ?case using Cons.prems by (simp add: greedy_Cls del: ways.simps)
  qed
  then show "\<exists>ms. ways (Cat (Many (Cls p)) q) (b, (u @ v) @ s, g) = (rev (u @ v) @ b, s, f g) # ms" by simp
qed

section \<open>An animation-name line\<close>

definition name_decl :: pat where
  "name_decl = cats [Lit ''animation-name:'', spaces, Grp 2 name]"

lemma bind_pat_unfold:
  "bind_pat = Cat (Lit ''#'') (Cat (Grp 1 name) (Cat spaces (Cat (Lit ''{'') (Cat (but CHR ''}'') name_decl))))"
  by (simp add: bind_pat_def name_decl_def)

lemma stuck_name_decl: "\<not> prefix ''animation-name:'' s \<Longrightarrow> stuck name_decl s"
  unfolding name_decl_def cats.simps by (intro stuck_Cat stuck_Lit)

lemma name_char_not [simp]:
  "\<not> name_char CHR '';''" "\<not> name_char CHR '':''" "\<not> name_char CHR ''{''" "\<not> name_char CHR ''}''" "\<not> name_char CHR ''#''"
  "py_space CHR '' ''" "\<not> py_space CHR ''{''" "\<not> py_space CHR ''a''"
  by code_simp+

lemma name_no_space: "name_char c \<Longrightarrow> \<not> py_space c"
proof -
  have "\<forall>c \<in> {CHR '' '', CHR 0x09, CHR 0x0A, CHR 0x0B, CHR 0x0C, CHR 0x0D, CHR 0x1C, CHR 0x1D, CHR 0x1E, CHR 0x1F}. \<not> name_char c"
    by code_simp
  then show "name_char c \<Longrightarrow> \<not> py_space c" unfolding py_space_def by blast
qed

lemma reads_name_decl:
  assumes "n \<noteq> []" and "list_all name_char n"
  shows "reads name_decl (''animation-name: '' @ n) ('';'' @ s) (\<lambda>g. dset 2 n g)"
proof -
  have n: "reads (Grp 2 name) n ('';'' @ s) (\<lambda>g. dset 2 n g)"
    using assms by (intro reads_Grp reads_Some1_Cls) (auto simp: list_all_iff)
  have "halts py_space (n @ '';'' @ s)"
    using assms name_no_space by (cases n) (auto simp: list_all_iff)
  then have "reads spaces '' '' (n @ '';'' @ s) (\<lambda>g. g)" by (intro reads_Many_Cls) auto
  from reads_Cat [OF this n] have "reads (Cat spaces (Grp 2 name)) ('' '' @ n) ('';'' @ s) (\<lambda>g. dset 2 n g)" .
  from reads_Cat [OF reads_Lit this, of "''animation-name:''"] show ?thesis
    by (simp add: name_decl_def)
qed

lemma later_name_decl:
  assumes n: "list_all name_char n" and w: "''animation-name: '' @ n @ ''; '' = w1 @ w2" and "w1 \<noteq> []"
  shows "stuck name_decl (w2 @ ''}'' @ s)"
proof (rule stuck_name_decl, rule notI)
  assume "prefix ''animation-name:'' (w2 @ ''}'' @ s)"
  then have pre: "prefix ''animation-name:'' w2" using prefix_within [of _ w2 "''}'' @ s"] by simp
  then obtain z where z: "w2 = ''animation-name:'' @ z" by (rule prefixE)
  have "CHR '':'' \<notin> set n" using n by (auto simp: list_all_iff)
  moreover have "count_list (''animation-name: '' @ n @ ''; '') CHR '':'' = Suc (count_list n CHR '':'')" by simp
  ultimately have "count_list (w1 @ w2) CHR '':'' = 1" unfolding w by (simp add: count_list_0_iff)
  then have c: "CHR '':'' \<notin> set w1" unfolding z by (simp add: count_list_0_iff)
  have "takeWhile (\<lambda>c. c \<noteq> CHR '':'') (''animation-name: '' @ n @ ''; '') = ''animation-name''" by simp
  moreover have "takeWhile (\<lambda>c. c \<noteq> CHR '':'') (w1 @ w2) = w1 @ ''animation-name''"
    using c unfolding z by (subst takeWhile_append2) auto
  ultimately have "w1 @ ''animation-name'' = ''animation-name''" unfolding w by simp
  then have "w1 = []" by (metis append_self_conv2)
  with assms(3) show False by simp
qed

lemma reads_bind:
  assumes "n \<noteq> []" and "list_all name_char n"
  shows "reads bind_pat (''#'' @ n @ '' { animation-name: '' @ n) (''; }'' @ s) (\<lambda>g. dset 2 n (dset 1 n g))"
proof -
  let ?w = "''animation-name: '' @ n @ ''; ''"
  have nb: "CHR ''}'' \<notin> set n" using assms(2) by (auto simp: list_all_iff)
  have "reads (Cat (but CHR ''}'') name_decl) ('' '' @ ''animation-name: '' @ n) ('';'' @ '' }'' @ s) (\<lambda>g. dset 2 n g)"
  proof (rule reads_back [where w = ?w and r = "''}'' @ s"])
    show "reads name_decl (''animation-name: '' @ n) ('';'' @ '' }'' @ s) (\<lambda>g. dset 2 n g)"
      using reads_name_decl [OF assms] .
    show "stuck name_decl (w2 @ ''}'' @ s)" if "?w = w1 @ w2" "w1 \<noteq> []" for w1 w2
      using later_name_decl [OF assms(2) that] .
  qed (use nb in auto)
  from reads_Cat [OF reads_Lit this, of "''{''"]
  have a: "reads (Cat (Lit ''{'') (Cat (but CHR ''}'') name_decl)) (''{ animation-name: '' @ n) (''; }'' @ s) (\<lambda>g. dset 2 n g)"
    by simp
  have "reads spaces '' '' ((''{ animation-name: '' @ n) @ ''; }'' @ s) (\<lambda>g. g)" by (intro reads_Many_Cls) auto
  from reads_Cat [OF this a]
  have b: "reads (Cat spaces (Cat (Lit ''{'') (Cat (but CHR ''}'') name_decl))) ('' { animation-name: '' @ n) (''; }'' @ s) (\<lambda>g. dset 2 n g)"
    by simp
  have "reads (Grp 1 name) n (('' { animation-name: '' @ n) @ ''; }'' @ s) (\<lambda>g. dset 1 n g)"
    using assms by (intro reads_Grp reads_Some1_Cls) (auto simp: list_all_iff)
  from reads_Cat [OF reads_Lit reads_Cat [OF this b], of "''#''"] show ?thesis
    unfolding bind_pat_unfold by simp
qed

section \<open>Text without bindings\<close>

text \<open>A hash, a name, white space and an opening brace: only there the pattern can start.\<close>

definition starts_binding :: "string \<Rightarrow> bool" where
  "starts_binding s = (case s of [] \<Rightarrow> False
     | c # t \<Rightarrow> c = CHR ''#'' \<and> prefix ''{'' (dropWhile py_space (dropWhile name_char t)))"

definition no_binding :: "string \<Rightarrow> bool" where
  "no_binding u \<longleftrightarrow> list_all (\<lambda>x. \<not> starts_binding x) (suffixes u)"

lemma ways_class_read:
  "m \<in> set (greedy (ways (Cls p)) (b, s, g)) \<Longrightarrow> \<exists>u. s = u @ left m \<and> (\<forall>c \<in> set u. p c)"
proof (induction s arbitrary: b)
  case Nil
  then show ?case by (simp add: greedy_Cls_end left_def del: ways.simps)
next
  case (Cons c s)
  show ?case
  proof (cases "m = (b, c # s, g)")
    case True
    then show ?thesis by (intro exI [of _ "[]"]) (simp add: left_def)
  next
    case False
    with Cons.prems have c: "p c" "m \<in> set (greedy (ways (Cls p)) (c # b, s, g))"
      by (auto simp: greedy_Cls simp del: ways.simps split: if_splits)
    with Cons.IH obtain u where "s = u @ left m" "\<forall>c \<in> set u. p c" by blast
    with c(1) show ?thesis by (intro exI [of _ "c # u"]) simp
  qed
qed

lemma dropWhile_run: "\<forall>c \<in> set u. p c \<Longrightarrow> dropWhile p (u @ s) = dropWhile p s"
  by (induction u) auto

lemma ways_Cat_ne: "ways (Cat p q) m \<noteq> [] \<Longrightarrow> \<exists>m1 \<in> set (ways p m). ways q m1 \<noteq> []"
  by auto

lemma left_Lit: "m1 \<in> set (ways (Lit w) m) \<Longrightarrow> left m = w @ left m1"
  by (cases m) (auto simp: left_def prefix_def split: if_splits)

lemma left_Grp: "m1 \<in> set (ways (Grp n p) m) \<Longrightarrow> \<exists>m2 \<in> set (ways p m). left m2 = left m1"
  by (force simp: left_def)

lemma left_Many: "m1 \<in> set (ways (Many (Cls p)) m) \<Longrightarrow> \<exists>u. left m = u @ left m1 \<and> (\<forall>c \<in> set u. p c)"
  using ways_class_read [of m1 p "fst m" "fst (snd m)" "snd (snd m)"] by (simp add: left_def)

lemma left_Some1:
  assumes "m1 \<in> set (ways (Some1 (Cls p)) m)"
  shows "\<exists>u. left m = u @ left m1 \<and> u \<noteq> [] \<and> (\<forall>c \<in> set u. p c)"
proof -
  from assms obtain m2 where m2: "m2 \<in> set (ways (Cls p) m)" and m1: "m1 \<in> set (ways (Many (Cls p)) m2)"
    unfolding ways.simps(3) by auto
  obtain c where "left m = c # left m2" "p c"
    using m2 by (cases m) (auto simp: left_def split: list.splits if_splits)
  moreover obtain u where "left m2 = u @ left m1" "\<forall>c \<in> set u. p c" using left_Many [OF m1] by blast
  ultimately show ?thesis by (intro exI [of _ "c # u"]) simp
qed

lemma stuck_binding:
  assumes "\<not> starts_binding s"
  shows "stuck bind_pat s"
  unfolding stuck_def
proof (intro allI, rule ccontr)
  fix b g
  assume "ways bind_pat (b, s, g) \<noteq> []"
  then obtain m1 where m1: "m1 \<in> set (ways (Lit ''#'') (b, s, g))"
    and "ways (Cat (Grp 1 name) (Cat spaces (Cat (Lit ''{'') (Cat (but CHR ''}'') name_decl)))) m1 \<noteq> []"
    unfolding bind_pat_unfold using ways_Cat_ne by blast
  then obtain m2 where m2: "m2 \<in> set (ways (Grp 1 name) m1)"
    and "ways (Cat spaces (Cat (Lit ''{'') (Cat (but CHR ''}'') name_decl))) m2 \<noteq> []"
    using ways_Cat_ne by blast
  then obtain m3 m4 where m3: "m3 \<in> set (ways spaces m2)" and m4: "m4 \<in> set (ways (Lit ''{'') m3)"
    using ways_Cat_ne by meson
  have s: "s = CHR ''#'' # left m1" using left_Lit [OF m1] by (simp add: left_def)
  obtain u1 where u1: "left m1 = u1 @ left m2" "\<forall>c \<in> set u1. name_char c"
    using left_Grp [OF m2] left_Some1 by metis
  obtain u2 where u2: "left m2 = u2 @ left m3" "\<forall>c \<in> set u2. py_space c" using left_Many [OF m3] by blast
  have z: "left m3 = CHR ''{'' # left m4" using left_Lit [OF m4] by simp
  have "dropWhile name_char (left m2) = left m2" using u2 name_no_space z by (cases u2) auto
  moreover have "dropWhile py_space (left m2) = left m3" using dropWhile_run [OF u2(2)] z u2(1) by simp
  ultimately have "starts_binding s" using s u1 z dropWhile_run [OF u1(2)] by (simp add: starts_binding_def)
  with assms show False by blast
qed

text \<open>What comes after such a text does not matter when it starts with a hash, or not at all.\<close>

lemma starts_binding_within:
  assumes "starts_binding (u @ s)" and "u \<noteq> []" and "s = [] \<or> hd s = CHR ''#''"
  shows "starts_binding u"
proof -
  obtain c t where u: "u = c # t" using assms(2) by (cases u) auto
  have hash: "\<not> py_space CHR ''#''" by code_simp
  let ?d = "dropWhile name_char t"
  have d: "dropWhile name_char (t @ s) = ?d @ s \<or> (?d = [] \<and> dropWhile name_char (t @ s) = s)"
    using assms(3) by (cases s; cases "\<forall>x \<in> set t. name_char x")
      (auto simp: dropWhile_append1 dropWhile_append2 dropWhile_append3 dropWhile_append)
  have e: "dropWhile py_space (?d @ s) = dropWhile py_space ?d @ s \<or> dropWhile py_space (?d @ s) = s"
    using assms(3) hash by (cases s) (auto simp: dropWhile_append)
  have "prefix ''{'' (dropWhile py_space (dropWhile name_char (t @ s)))" and c: "c = CHR ''#''"
    using assms(1) u by (simp_all add: starts_binding_def)
  moreover have "\<not> prefix ''{'' s" using assms(3) by (cases s) auto
  ultimately have "prefix ''{'' (dropWhile py_space ?d @ s)"
    using d e assms(3) hash by (cases s) (auto simp: dropWhile_append split: if_splits)
  then have "prefix ''{'' (dropWhile py_space ?d)" using assms(3) prefix_within [of "''{''" "dropWhile py_space ?d" s] by auto
  with c u show ?thesis by (simp add: starts_binding_def)
qed

lemma inert_no_binding:
  assumes "no_binding u" and "s = [] \<or> hd s = CHR ''#''"
  shows "inert bind_pat u s"
  unfolding inert_def
proof (intro allI impI, rule stuck_binding, rule notI)
  fix u1 c u2
  assume u: "u = u1 @ c # u2" and "starts_binding (c # u2 @ s)"
  then have "starts_binding (c # u2)" using starts_binding_within [of "c # u2" s] assms(2) by simp
  moreover have "c # u2 \<in> set (suffixes u)" using u by (simp add: suffix_def)
  ultimately show False using assms(1) by (auto simp: no_binding_def list_all_iff)
qed

lemma inert_no_hash: "CHR ''#'' \<notin> set u \<Longrightarrow> inert bind_pat u s"
  by (induction u) (auto intro!: stuck_binding simp: starts_binding_def)

end
