(* ===== verification/Motion_Tracks.thy ===== *)
theory Motion_Tracks
  imports Motion_Names
begin

text \<open>
  The tracks of a written picture: the exporter gives every element of the store's rules the frames of
  its rule and an easing.
\<close>

section \<open>The lines of names\<close>

definition bound :: "string \<Rightarrow> string" where
  "bound n = ''#'' @ n @ '' { animation-name: '' @ n"

definition lines_text :: "string list \<Rightarrow> string" where
  "lines_text ns = concat (map (\<lambda>n. bound n @ ''; }'' @ nl @ ''    '') ns)"

lemma names_lines:
  "rs \<noteq> [] \<Longrightarrow> join nl (map (\<lambda>(n, _). ''    #'' @ n @ '' { animation-name: '' @ n @ ''; }'') rs) @ nl @ ''    '' =
     ''    '' @ lines_text (map fst rs)"
proof (induction rs)
  case (Cons r rs)
  obtain n x where r: "r = (n, x)" by (cases r)
  show ?case
  proof (cases rs)
    case Nil
    then show ?thesis by (simp add: r lines_text_def bound_def)
  next
    case (Cons q qs)
    with Cons.IH show ?thesis by (simp add: r lines_text_def bound_def)
  qed
qed simp

definition found_names :: "groups list \<Rightarrow> string list \<Rightarrow> bool" where
  "found_names gs ns \<longleftrightarrow> list_all2 (\<lambda>g n. group 1 g = n \<and> group 2 g = n) gs ns"

lemma find_names:
  "list_all (\<lambda>n. n \<noteq> [] \<and> list_all name_char n) ns \<Longrightarrow> inert bind_pat w (lines_text ns @ z) \<Longrightarrow> inert bind_pat z [] \<Longrightarrow>
     found_names (finditer bind_pat b0 (w @ lines_text ns @ z)) ns"
proof (induction ns arbitrary: b0 w)
  case Nil
  have "stuck bind_pat []" by (rule stuck_binding) (simp add: starts_binding_def)
  with Nil have "finditer bind_pat b0 (w @ z) = []" by (intro finditer_none) (simp_all add: lines_text_def)
  then show ?case by (simp add: lines_text_def found_names_def)
next
  case (Cons n ns)
  let ?w = "''; }'' @ nl @ ''    ''" and ?s = "lines_text ns @ z" and ?g = "dset 2 n (dset 1 n [])"
  have s: "lines_text (n # ns) @ z = bound n @ ?w @ ?s" by (simp add: lines_text_def)
  have "reads bind_pat (bound n) (?w @ ?s) (\<lambda>g. dset 2 n (dset 1 n g))"
    using Cons.prems(1) reads_bind [of n "nl @ ''    '' @ ?s"] by (simp add: bound_def)
  moreover have "inert bind_pat w (bound n @ ?w @ ?s)" using Cons.prems(2) by (simp only: s)
  ultimately have "finditer bind_pat b0 (w @ lines_text (n # ns) @ z) =
      dset 0 (bound n) ?g # finditer bind_pat (rev (bound n) @ rev w @ b0) (?w @ ?s)"
    unfolding s by (intro finditer_next) (simp_all add: bound_def)
  moreover have "inert bind_pat ?w ?s" by (rule inert_no_hash) (simp add: nl_def)
  then have "found_names (finditer bind_pat (rev (bound n) @ rev w @ b0) (?w @ ?s)) ns"
    using Cons.prems by (intro Cons.IH) simp_all
  ultimately show ?case by (simp add: found_names_def group_def dget_or_def)
qed

section \<open>No hash in the frames\<close>

definition plain_rule :: "string \<times> point list \<Rightarrow> bool" where
  "plain_rule r \<longleftrightarrow> list_all (\<lambda>p. list_all (\<lambda>(k, v). CHR ''#'' \<notin> set k \<and> CHR ''#'' \<notin> set (show_cssv v)) (snd p)) (snd r)"

definition plain_keys :: "key list \<Rightarrow> bool" where
  "plain_keys bs \<longleftrightarrow> (\<forall>(x, k, v) \<in> set (printed_of bs). CHR ''#'' \<notin> set k \<and> CHR ''#'' \<notin> set v)"

lemma num_char_hash [simp]: "\<not> num_char CHR ''#''"
  by code_simp

lemma block_no_hash:
  assumes "block_ok b" and "\<forall>(k, v) \<in> set (snd b). CHR ''#'' \<notin> set k \<and> CHR ''#'' \<notin> set v"
  shows "CHR ''#'' \<notin> set (block b)"
proof -
  have "CHR ''#'' \<notin> set (fst b)" using assms(1) by (auto simp: block_ok_def list_all_iff)
  moreover have "CHR ''#'' \<notin> set (join '' '' (map (\<lambda>x. x @ '';'') (map decl (snd b))))"
    using assms(2) by (intro join_without) (auto simp: decl_def)
  ultimately show ?thesis by (simp add: block_def body_text_def)
qed

lemma rule_no_hash:
  assumes ok: "rule_ok (n, bs)" and "plain_keys bs"
  shows "CHR ''#'' \<notin> set (rule_text n bs)"
proof -
  have n: "CHR ''#'' \<notin> set n" using ok by (auto simp: rule_ok_def list_all_iff)
  have "CHR ''#'' \<notin> set (block b)" if "b \<in> set bs" for b
  proof (rule block_no_hash)
    show "block_ok b" using ok that by (auto simp: rule_ok_def readable_key_def list_all_iff)
    show "\<forall>(k, v) \<in> set (snd b). CHR ''#'' \<notin> set k \<and> CHR ''#'' \<notin> set v"
      using assms(2) that by (fastforce simp: plain_keys_def printed_of_def)
  qed
  then show ?thesis using n by (auto simp: rule_text_def blocks_text_def)
qed

lemma sheet_no_hash:
  assumes "list_all rule_ok rs" and "\<forall>r \<in> set rs. plain_keys (snd r)"
  shows "CHR ''#'' \<notin> set (sheet rs)"
proof -
  have "CHR ''#'' \<notin> set (rule_text n bs)" if "(n, bs) \<in> set rs" for n bs
    using that assms by (intro rule_no_hash) (auto simp: list_all_iff)
  then show ?thesis by (fastforce simp: sheet_def nl_def)
qed

lemma declared_mem:
  "(x, k, v) \<in> set (declared D ps) \<Longrightarrow> \<exists>p \<in> set ps. \<exists>c. (k, c) \<in> set (snd p) \<and> v = show_cssv c"
  by (auto simp: declared_def)

lemma list_all2_right: "list_all2 P xs ys \<Longrightarrow> y \<in> set ys \<Longrightarrow> \<exists>x \<in> set xs. P x y"
  by (induction rule: list_all2_induct) auto

lemma sheet_of_rule:
  assumes "sheet_of D rl rs" and "r \<in> set rs"
  shows "\<exists>n pts ps. (n, pts) \<in> set rl \<and> padded D n pts = Inr ps \<and> printed_of (snd r) = declared D ps"
proof -
  have "list_all2 (\<lambda>(n, pts) r. fst r = n \<and> (\<exists>ps. padded D n pts = Inr ps \<and> printed_of (snd r) = declared D ps)) rl rs"
    using assms(1) by (simp add: sheet_of_def)
  from list_all2_right [OF this assms(2)] show ?thesis by blast
qed

lemma sheet_of_plain:
  assumes sh: "sheet_of D rl rs" and D: "0 < D" and rl: "list_all readable_rule rl" "list_all plain_rule rl"
  shows "CHR ''#'' \<notin> set (sheet rs)"
proof (rule sheet_no_hash)
  show "list_all rule_ok rs" using sh by (simp add: sheet_of_def)
  show "\<forall>r \<in> set rs. plain_keys (snd r)"
  proof
    fix r assume "r \<in> set rs"
    then obtain n pts ps where r: "(n, pts) \<in> set rl" "padded D n pts = Inr ps" "printed_of (snd r) = declared D ps"
      using sheet_of_rule [OF sh] by blast
    let ?Q = "\<lambda>q. list_all (\<lambda>(k, v). CHR ''#'' \<notin> set k \<and> CHR ''#'' \<notin> set (show_cssv v)) q"
    have "readable_rule (n, pts)" "plain_rule (n, pts)" using rl r(1) by (simp_all add: list_all_iff)
    then have "\<forall>p \<in> set pts. 0 \<le> fst p \<and> ?Q (snd p)"
      unfolding readable_rule_def plain_rule_def fst_conv snd_conv list_all_iff [of _ pts] by blast
    from padded_all [OF r(2) D this] have "\<forall>p \<in> set ps. ?Q (snd p)" by blast
    then show "plain_keys (snd r)"
      unfolding plain_keys_def r(3) list_all_iff using declared_mem by blast
  qed
qed

section \<open>The tracks\<close>

lemma dget_keys: "n \<in> set (dkeys d) \<Longrightarrow> \<exists>v. dget d n = Some v"
  using dget_None_iff [of d n] by (cases "dget d n") auto

lemma read_names:
  "found_names gs ns \<Longrightarrow> distinct ns \<Longrightarrow> set ns \<subseteq> set (dkeys C) \<Longrightarrow> set ns \<subseteq> set (dkeys F) \<Longrightarrow>
     set ns \<inter> set (dkeys T) = {} \<Longrightarrow>
     \<exists>T'. rfold (add_track svg C F) gs T = Inr (T @ T')
       \<and> list_all2 (\<lambda>n t. fst t = n \<and> (\<exists>cls. dget C n = Some cls \<and> easing (snd t) = ease_of svg cls)
            \<and> dget F n = Some (tr_props (snd t))) ns T'"
proof (induction ns arbitrary: gs T)
  case Nil
  then show ?case by (simp add: found_names_def)
next
  case (Cons n ns)
  then obtain g gs' where gs: "gs = g # gs'" "group 1 g = n" "group 2 g = n" "found_names gs' ns"
    by (cases gs) (auto simp: found_names_def)
  obtain cls P where P: "dget C n = Some cls" "dget F n = Some P"
    using dget_keys [of n C] dget_keys [of n F] Cons.prems by auto
  let ?t = "(n, \<lparr>easing = ease_of svg cls, tr_props = P\<rparr>)"
  have "dset n (snd ?t) T = T @ [?t]" using Cons.prems(5) by (simp add: dkeys_dset_new)
  then have "add_track svg C F g T = Inr (T @ [?t])" using gs P by (simp add: add_track_def)
  moreover obtain T' where "rfold (add_track svg C F) gs' (T @ [?t]) = Inr ((T @ [?t]) @ T')"
    and "list_all2 (\<lambda>n t. fst t = n \<and> (\<exists>cls. dget C n = Some cls \<and> easing (snd t) = ease_of svg cls)
            \<and> dget F n = Some (tr_props (snd t))) ns T'"
    using Cons.IH [OF gs(4), of "T @ [?t]"] Cons.prems by auto
  ultimately show ?case using gs(1) P by (intro exI [of _ "?t # T'"]) simp
qed

lemma find_written_names:
  assumes u: "rule_names K = ''    #'' @ u" and ne: "rules K \<noteq> []" and ok: "list_all readable_rule (rules K)"
    and rs: "rs \<noteq> []" "CHR ''#'' \<notin> set (sheet rs)" and nobind: "no_binding pre" "no_binding post"
  shows "found_names (finditer bind_pat [] (pre @ (''#'' @ u @ sheet rs) @ post)) (map fst (rules K))"
proof -
  let ?ns = "map fst (rules K)"
  have "rule_names K @ nl @ ''    '' = ''    '' @ lines_text ?ns"
    using names_lines [OF ne] by (simp only: rule_names_def)
  then have l: "''#'' @ u @ nl @ ''    '' = lines_text ?ns" by (simp add: u)
  obtain r rs' where r: "rs = r # rs'" using rs(1) by (cases rs) auto
  let ?z = "rule_text (fst r) (snd r) @ sheet rs'"
  have z: "sheet rs = (nl @ ''    '') @ ?z" by (simp add: sheet_def r case_prod_unfold)
  have whole: "pre @ (''#'' @ u @ sheet rs) @ post = pre @ lines_text ?ns @ ?z @ post"
    unfolding z l [symmetric] by simp
  have "inert bind_pat pre (lines_text ?ns @ ?z @ post)"
    using nobind(1) by (rule inert_no_binding) (simp flip: l)
  moreover have "inert bind_pat ?z (post @ [])"
    using rs(2) unfolding z by (intro inert_no_hash) simp
  then have "inert bind_pat (?z @ post) []"
    using inert_no_binding [OF nobind(2), of "[]"] unfolding inert_append by simp
  moreover have "list_all (\<lambda>n. n \<noteq> [] \<and> list_all name_char n) ?ns"
    using ok by (auto simp: readable_rule_def list_all_iff)
  ultimately show ?thesis unfolding whole by (intro find_names)
qed

lemma tracks_of_frames:
  assumes F: "list_all2 (\<lambda>(n, pts) f. fst f = n \<and> Q n pts (snd f)) rl F"
    and T: "list_all2 (\<lambda>n t. fst t = n \<and> R n t \<and> dget F n = Some (tr_props (snd t))) (map fst rl) T"
    and dist: "distinct (map fst rl)"
  shows "list_all2 (\<lambda>(n, pts) t. fst t = n \<and> R n t \<and> Q n pts (tr_props (snd t))) rl T"
proof (rule list_all2_all_nthI)
  have "map fst F = map fst rl" using F by (induction rule: list_all2_induct) auto
  then have dF: "distinct (map fst F)" using dist by simp
  show "length rl = length T" using list_all2_lengthD [OF T] by simp
  fix i assume i: "i < length rl"
  obtain n pts where r: "rl ! i = (n, pts)" by (cases "rl ! i")
  have f: "fst (F ! i) = n" "Q n pts (snd (F ! i))" "F ! i \<in> set F"
    using list_all2_nthD [OF F i] r list_all2_lengthD [OF F] i by auto
  then have "dget F n = Some (snd (F ! i))" using dF by (metis map_of_eq_Some_iff prod.collapse)
  moreover have "fst (T ! i) = n" "R n (T ! i)" "dget F n = Some (tr_props (snd (T ! i)))"
    using list_all2_nthD [OF T, of i] i r by simp_all
  ultimately show "(\<lambda>(n, pts) t. fst t = n \<and> R n t \<and> Q n pts (tr_props (snd t))) (rl ! i) (T ! i)"
    using f(2) r by simp
qed

text \<open>C13: Every rule of a written picture becomes a track: if the template binds no animation itself and
  has a tag with the id of each rule, \<open>motion_json\<close> gives one track for each rule, in order, with the
  easing of its element's classes and, for each property, the values of the rule's padded keyframes.\<close>

theorem motion_tracks_rules:
  assumes out: "render files tpl still lg K = Inr out" and src: "read_tpl files tpl = Inr src"
    and mark: "split_at ''/*KEYFRAMES*/'' (fill src still lg K) [pre, post]"
    and quiet: "\<not> sublist ''@keyframes '' pre" "\<not> sublist ''@keyframes '' post"
    and nobind: "no_binding pre" "no_binding post"
    and ne: "rules K \<noteq> []" and dist: "distinct (map fst (rules K))"
    and ok: "list_all readable_rule (rules K)" and plain: "list_all plain_rule (rules K)"
    and tags: "set (map fst (rules K)) \<subseteq> set (dkeys (classes_of out))"
  shows "\<exists>F T. read_frames out = Inr F \<and> read_tracks out F = Inr T
    \<and> list_all2 (\<lambda>(n, pts) t. fst t = n
          \<and> (\<exists>cls. dget (classes_of out) n = Some cls \<and> easing (snd t) = ease_of out cls)
          \<and> (\<exists>ps. padded (loop_D K) n pts = Inr ps
              \<and> (\<forall>k. dget (tr_props (snd t)) k = series (declared (loop_D K) ps) k))) (rules K) T"
proof -
  obtain frames where fr: "rmap (\<lambda>(n, pts). css (loop_D K) n pts) (rules K) = Inr frames"
    and o: "out = pre @ strip_ws (rule_names K @ nl @ join nl frames) @ post"
    using out src mark by (rule written_picture)
  have D: "0 < loop_D K" using fr ne ok by (rule loop_positive)
  obtain rs u where sh: "sheet_of (loop_D K) (rules K) rs" and u: "rule_names K = ''    #'' @ u" "CHR ''@'' \<notin> set u"
    and Y: "strip_ws (rule_names K @ nl @ join nl frames) = ''#'' @ u @ sheet rs"
    using D ne ok fr by (rule written_sheet)
  have names: "map fst rs = map fst (rules K)" using sh by (rule sheet_of_names)
  obtain F where F: "read_frames out = Inr F"
    and all: "list_all2 (\<lambda>(n, pts) f. fst f = n \<and> (\<exists>ps. padded (loop_D K) n pts = Inr ps
      \<and> (\<forall>k. dget (snd f) k = series (declared (loop_D K) ps) k))) (rules K) F"
    using read_sheet [OF sh dist u(2) quiet] unfolding o Y by blast
  have keys: "map fst F = map fst (rules K)" using all by (induction rule: list_all2_induct) auto
  have "found_names (finditer bind_pat [] out) (map fst (rules K))"
    unfolding o Y using u(1) ne ok _ sheet_of_plain [OF sh D ok plain] nobind
    by (rule find_written_names) (use names ne in auto)
  from read_names [OF this dist tags, of F "[]" out] keys
  obtain T where T: "read_tracks out F = Inr T" and tr: "list_all2 (\<lambda>n t. fst t = n
      \<and> (\<exists>cls. dget (classes_of out) n = Some cls \<and> easing (snd t) = ease_of out cls)
      \<and> dget F n = Some (tr_props (snd t))) (map fst (rules K)) T"
    by (auto simp: read_tracks_def)
  have "list_all2 (\<lambda>(n, pts) t. fst t = n
          \<and> (\<exists>cls. dget (classes_of out) n = Some cls \<and> easing (snd t) = ease_of out cls)
          \<and> (\<exists>ps. padded (loop_D K) n pts = Inr ps
              \<and> (\<forall>k. dget (tr_props (snd t)) k = series (declared (loop_D K) ps) k))) (rules K) T"
    by (rule tracks_of_frames [OF all tr dist])
  with F T show ?thesis by blast
qed

lemma sample_classes:
  "case render Map.empty ''<svg><g id=\"x\" class=\"a lin\"/>/*KEYFRAMES*/</svg>'' 0 None
      \<lparr>loop_D = 4, rules = [(''x'', [(1, [(''opacity'', VInt 1), (''transform'', VStr ''scale(2)'')]), (3, [(''opacity'', VInt 0)])])],
        LEGEND = [], elements = []\<rparr> of Inl e \<Rightarrow> False
   | Inr s \<Rightarrow> classes_of s = [(''x'', [''a'', ''lin''])]"
  by code_simp

theorem motion_tracks_rules_witness:
  "\<exists>out F T. let pts = [(1, [(''opacity'', VInt 1), (''transform'', VStr ''scale(2)'')]), (3, [(''opacity'', VInt 0)])];
      K = \<lparr>loop_D = 4, rules = [(''x'', pts)], LEGEND = [], elements = []\<rparr>
    in render Map.empty ''<svg><g id=\"x\" class=\"a lin\"/>/*KEYFRAMES*/</svg>'' 0 None K = Inr out
      \<and> read_frames out = Inr F \<and> read_tracks out F = Inr T
      \<and> list_all2 (\<lambda>(n, pts) t. fst t = n
          \<and> (\<exists>cls. dget (classes_of out) n = Some cls \<and> easing (snd t) = ease_of out cls)
          \<and> (\<exists>ps. padded (loop_D K) n pts = Inr ps
              \<and> (\<forall>k. dget (tr_props (snd t)) k = series (declared (loop_D K) ps) k))) (rules K) T"
proof -
  let ?pts = "[(1, [(''opacity'', VInt 1), (''transform'', VStr ''scale(2)'')]), (3, [(''opacity'', VInt 0)])] :: point list"
  let ?K = "\<lparr>loop_D = 4, rules = [(''x'', ?pts)], LEGEND = [], elements = []\<rparr>"
  let ?a = "''<svg><g id=\"x\" class=\"a lin\"/>''" and ?b = "''</svg>''"
  let ?t = "''<svg><g id=\"x\" class=\"a lin\"/>/*KEYFRAMES*/</svg>''"
  have f: "fill ?t 0 None ?K = ?t" by (simp add: fill_def replace_absent sublist_code)
  have r: "read_tpl Map.empty ?t = Inr ?t" by (simp add: read_tpl_def lstrip_ws_def py_space_def)
  obtain out where o: "render Map.empty ?t 0 None ?K = Inr out" and c: "classes_of out = [(''x'', [''a'', ''lin''])]"
    using sample_classes by (auto split: sum.splits)
  have mark: "split_at ''/*KEYFRAMES*/'' (fill ?t 0 None ?K) [?a, ?b]"
    unfolding f by (simp add: split_at_def sublist_code)
  have quiet: "\<not> sublist ''@keyframes '' ?a" "\<not> sublist ''@keyframes '' ?b" by (simp_all add: sublist_code)
  have nobind: "no_binding ?a" "no_binding ?b" by code_simp+
  have ok: "list_all readable_rule (rules ?K)" using sample_readable by simp
  have "show_cssv (VInt 1) = ''1''" "show_cssv (VInt 0) = ''0''" by code_simp+
  then have plain: "list_all plain_rule (rules ?K)" by (simp add: plain_rule_def)
  from motion_tracks_rules [OF o r mark quiet nobind _ _ ok plain] c o show ?thesis
    unfolding Let_def by fastforce
qed

end
