(* ===== verification/Self_Check.thy ===== *)
theory Self_Check
  imports Motion Walks Pool
begin

text \<open>
  The self-check that \<open>kfu.py\<close> runs as a program, assertion by assertion on the model of the module,
  and the proof that it passes. What it prints at the end is left out but for the call of \<open>legend\<close>.
\<close>

definition kfu_fresh :: kfu where
  "kfu_fresh = \<lparr>loop_D = 16, rules = [], LEGEND = [], elements = []\<rparr>"

definition css_last :: "kfu \<Rightarrow> nat \<Rightarrow> string res" where
  "css_last K i =
     (if i < length (rules K) then (case rev (rules K) ! i of (n, pts) \<Rightarrow> css (loop_D K) n pts)
      else Inl IndexError)"

definition check_css :: "unit res" where
  "check_css =
     rbind (pct 16 4) (\<lambda>a. rbind (rcheck (a = ''25%'')) (\<lambda>_.
     rbind (pct 16 1) (\<lambda>b. rbind (rcheck (b = ''6.25%'')) (\<lambda>_.
     let K = (kf ''x'' [(4, op (VInt 1))] kfu_fresh)\<lparr>loop_D := 32\<rparr>
     in rbind (css_last K 0) (\<lambda>s.
        rcheck (s = ''    @keyframes x { 0% { opacity: 1; } 12.5% { opacity: 1; } 100% { opacity: 1; } }''))))))"

definition check_merge :: "unit res" where
  "check_merge = rcheck (merge (3 / 10) [(0, 1), (12 / 10, 2), (5, 6)] = [(0, 2), (5, 6)])"

definition check_path :: "unit res" where
  "check_path =
     rbind (path_to 10 0 (Some (VInt 1)) None (Path 0 0 0 10 None)) (\<lambda>p1.
     rbind (path_to 10 5 None None p1) (\<lambda>p.
     rcheck (path_t p = 15 / 10 \<and> last (path_pts p) = (15 / 10, op_tr (VInt 1) ''translate(10px, 5px)''))))"

definition check_pool :: "unit res" where
  "check_pool =
     rbind (pool_take 1 (Pool 3 1)) (\<lambda>(w, p). rbind (rcheck (w = 0)) (\<lambda>_.
     rbind (pool_take (14 / 10) p) (\<lambda>(w, p). rbind (rcheck (w = 1)) (\<lambda>_.
     rbind (pool_take (18 / 10) p) (\<lambda>(w, p). rbind (rcheck (w = 2)) (\<lambda>_.
     rbind (pool_release 1 3 True (35 / 100) p) (\<lambda>p.
     rbind (pool_release 2 (35 / 10) True (35 / 100) p) (\<lambda>p.
     rbind (pool_release 0 4 False (35 / 100) p) (\<lambda>p.
     rbind (pool_take 5 p) (\<lambda>(w, p). rbind (rcheck (w = 2)) (\<lambda>_.
     rcheck (dget (pool_alive p) 0 = Some [(0, Some (435 / 100))]
       \<and> dget (pool_alive p) 1 = Some [(14 / 10, None)]))))))))))))"

text \<open>A take that must fail: an \<open>AssertionError\<close> is caught, a worker ends the program.\<close>

definition check_full :: "unit res" where
  "check_full =
     rbind (pool_take 0 (Pool 1 0)) (\<lambda>(_, p).
     case pool_take 1 p of Inr _ \<Rightarrow> Inl SystemExit | Inl AssertionError \<Rightarrow> Inr () | Inl e \<Rightarrow> Inl e)"

definition check_bar :: "kfu \<Rightarrow> kfu res" where
  "check_bar K0 =
     rbind (bar ''t'' [(1, 3, None), (31 / 10, 5, Some (5 / 10))] (K0\<lparr>rules := []\<rparr>)) (\<lambda>K.
     rbind (css_last K 0) (\<lambda>out.
     rbind (rcheck (sublist ''18.75% { opacity: 1; transform: scaleX(1); } 19.38% { opacity: 1; transform: scaleX(0); }'' out)) (\<lambda>_.
     rbind (rcheck (sublist ''31.25% { opacity: 1; transform: scaleX(0.5); }'' out)) (\<lambda>_. Inr K))))"

definition check_states :: "kfu \<Rightarrow> kfu res" where
  "check_states K0 =
     rbind (states ''st'' [(0, 0), (2, 1), (5, 0)] 2 (8 / 100) K0) (\<lambda>K.
     rbind (css_last K 1) (\<lambda>s.
     rbind (rcheck (s = ''    @keyframes st0 { 0% { opacity: 1; } 12.5% { opacity: 1; } 13% { opacity: 0; } 31.25% { opacity: 0; } 31.75% { opacity: 1; } 100% { opacity: 1; } }''))
       (\<lambda>_. Inr K)))"

definition check_fill :: "kfu \<Rightarrow> unit res" where
  "check_fill K0 =
     (let K = K0\<lparr>elements := elements K0 @ [''<circle id=\"seg0\" class=\"a dot\" r=\"6\"/>'']\<rparr>
      in rcheck (fill ''<svg><!--ELEMENTS--></svg>'' 1 None K = ''<svg><circle id=\"seg0\" class=\"a dot\" r=\"6\"/></svg>''))"

definition self_check :: "string res" where
  "self_check =
     rbind check_css (\<lambda>_. rbind check_merge (\<lambda>_. rbind check_path (\<lambda>_.
     rbind check_pool (\<lambda>_. rbind check_full (\<lambda>_.
     rbind (check_bar kfu_fresh) (\<lambda>K. rbind (check_states K) (\<lambda>K. rbind (check_fill K) (\<lambda>_.
     legend [(''box'', ''class=\"item\"'', ''waiting''), (''dot'', ''var(--job)'', ''moving'')] 110 88 20))))))))"

lemma checks_pass: "check_css = Inr ()" "check_merge = Inr ()" "check_path = Inr ()" "check_pool = Inr ()" "check_full = Inr ()"
  by code_simp+

lemma drawn_checks_pass:
  "\<exists>K. check_bar kfu_fresh = Inr K \<and> (\<exists>K'. check_states K = Inr K' \<and> check_fill K' = Inr ())"
proof -
  have "case check_bar kfu_fresh of Inl e \<Rightarrow> False | Inr K \<Rightarrow> (case check_states K of Inl e \<Rightarrow> False
      | Inr K' \<Rightarrow> check_fill K' = Inr ())"
    by code_simp
  then show ?thesis by (auto split: sum.splits)
qed

lemma self_check_passes: "\<exists>s. self_check = Inr s"
proof -
  obtain K K' where "check_bar kfu_fresh = Inr K" "check_states K = Inr K'" "check_fill K' = Inr ()"
    using drawn_checks_pass by blast
  moreover have "\<exists>s. legend [(''box'', ''class=\"item\"'', ''waiting''), (''dot'', ''var(--job)'', ''moving'')] 110 88 20 = Inr s"
    by (simp add: legend_def swatch_def)
  ultimately show ?thesis by (auto simp: self_check_def checks_pass)
qed

end
