(* ===== verification/Frames.thy ===== *)
theory Frames
  imports Motion
begin

text \<open>
  The contact sheets of \<open>frames.py\<close>: \<open>frame\<close> freezes the picture at a time in one theme, \<open>sheet\<close> lays the
  frames out on a page, \<open>main\<close> chooses the times and the files. Finding and running the browser, and the
  image it writes, are left out: \<open>sheet_page\<close> gives the page and the window it is opened in.
  \<open>float\<close> and \<open>int\<close> read plain decimals only.
\<close>

section \<open>Base 64\<close>

text \<open>\<open>base64.b64encode\<close>: three bytes as four letters, padded with equals signs.\<close>

definition b64_letter :: "nat \<Rightarrow> char" where
  "b64_letter n =
     (if n < 26 then char_of (65 + n) else if n < 52 then char_of (71 + n)
      else if n < 62 then char_of (n - 4) else if n = 62 then CHR ''+'' else CHR ''/'')"

fun b64encode :: "string \<Rightarrow> string" where
  "b64encode [] = []"
| "b64encode [a] =
     (let x = of_char a * 16 in [b64_letter (x div 64), b64_letter (x mod 64), CHR ''='', CHR ''=''])"
| "b64encode [a, b] =
     (let x = (of_char a * 256 + of_char b) * 4
      in [b64_letter (x div 4096), b64_letter (x div 64 mod 64), b64_letter (x mod 64), CHR ''=''])"
| "b64encode (a # b # c # s) =
     (let x = (of_char a * 256 + of_char b) * 256 + of_char c
      in [b64_letter (x div 262144), b64_letter (x div 4096 mod 64), b64_letter (x div 64 mod 64), b64_letter (x mod 64)]
         @ b64encode s)"

section \<open>One frame\<close>

definition dark_pat :: pat where
  "dark_pat = cats [Lit ''('', spaces, Lit ''prefers-color-scheme'', spaces, Lit '':'', spaces, Lit ''dark'', spaces, Lit '')'']"

text \<open>\<open>s.replace(old, new, 1)\<close> for an \<open>old\<close> that is not empty.\<close>

fun replace_once :: "string \<Rightarrow> string \<Rightarrow> string \<Rightarrow> string" where
  "replace_once old new [] = (if prefix old [] then new else [])"
| "replace_once old new (c # s) =
     (if prefix old (c # s) then new @ drop (length old) (c # s) else c # replace_once old new s)"

definition frame_svg :: "string \<Rightarrow> rat \<Rightarrow> bool \<Rightarrow> string" where
  "frame_svg svg t dark =
     (let s = re_sub dark_pat (if dark then ''all'' else ''not all'') [] svg;
          pause = ''.a{animation-play-state:paused!important;animation-delay:-'' @ fmt_g t @ ''s!important}''
      in replace_once ''</style>'' (pause @ ''</style>'') s)"

definition frame :: "string \<Rightarrow> rat \<Rightarrow> bool \<Rightarrow> string" where
  "frame svg t dark = ''data:image/svg+xml;base64,'' @ b64encode (frame_svg svg t dark)"

section \<open>The sheet\<close>

definition view_pat :: pat where
  "view_pat =
     (let n = Some1 (Cls (\<lambda>c. num_char c \<or> c = CHR ''-'')); sp = Some1 (Cls py_space)
      in cats [Lit ''viewBox=\"'', spaces, n, sp, n, sp, Grp 1 number, sp, Grp 2 number])"

definition view_size :: "string \<Rightarrow> (rat \<times> rat) res" where
  "view_size svg =
     (case re_search view_pat svg of None \<Rightarrow> Inr (960, 420)
      | Some g \<Rightarrow> rbind (read_float (group 1 g)) (\<lambda>w. rbind (read_float (group 2 g)) (\<lambda>h. Inr (w, h))))"

record page =
  pg_html :: string
  pg_W :: int
  pg_H :: int

definition sheet_cells :: "string \<Rightarrow> bool \<Rightarrow> rat list \<Rightarrow> string list \<Rightarrow> string" where
  "sheet_cells svg dark tms labels =
     concat (map (\<lambda>(t, lb). ''<figure><img src=\"'' @ frame svg t dark @ ''\"><figcaption>'' @ lb @ ''</figcaption></figure>'')
       (zip tms labels))"

definition sheet_html :: "bool \<Rightarrow> int \<Rightarrow> int \<Rightarrow> int \<Rightarrow> int \<Rightarrow> int \<Rightarrow> string \<Rightarrow> string" where
  "sheet_html dark cols width gap cap cell_h cells =
     (let (bg, fg) = (if dark then (''#0d1117'', ''#e6edf3'') else (''#ffffff'', ''#1f2328''))
      in ''<!doctype html><meta charset=\"utf-8\"><style>'' @ nl @
         ''html,body{margin:0;background:'' @ bg @ '';color:'' @ fg @ '';font:13px ui-monospace,Menlo,Consolas,monospace}'' @ nl @
         ''main{display:grid;grid-template-columns:repeat('' @ show_int cols @ '','' @ show_int width @ ''px);gap:'' @
           show_int gap @ ''px;padding:'' @ show_int gap @ ''px}'' @ nl @
         ''figure{margin:0} img{display:block;width:'' @ show_int width @ ''px;height:'' @ show_int cell_h @
           ''px} figcaption{height:'' @ show_int cap @ ''px;line-height:'' @ show_int cap @ ''px}'' @ nl @
         ''</style><main>'' @ cells @ ''</main>'')"

definition sheet_page :: "string \<Rightarrow> rat list \<Rightarrow> string list \<Rightarrow> bool \<Rightarrow> int \<Rightarrow> int \<Rightarrow> page res" where
  "sheet_page svg tms labels dark cols width =
     rbind (view_size svg) (\<lambda>(w, h).
     if w = 0 \<or> cols = 0 then Inl ZeroDivisionError
     else let cell_h = round_half_even (of_int width * h / w);
              gap = 16; cap = 22;
              n_rows = - ((- int (length tms)) div cols)
          in Inr \<lparr>pg_html = sheet_html dark cols width gap cap cell_h (sheet_cells svg dark tms labels),
                  pg_W = gap + cols * (width + gap), pg_H = gap + n_rows * (cell_h + cap + gap)\<rparr>)"

section \<open>The times and the files\<close>

definition at_times :: "string \<Rightarrow> (rat list \<times> string list) res" where
  "at_times a =
     rbind (rmap (\<lambda>s. read_float (strip_ws s)) (split_on '','' a)) (\<lambda>tms.
     Inr (tms, map (\<lambda>t. ''t='' @ fmt_g t @ ''s'') tms))"

definition spaced_times :: "rat \<Rightarrow> int \<Rightarrow> rat list \<times> string list" where
  "spaced_times D n =
     (let tms = map (\<lambda>i. py_round 2 (D * of_nat i / of_int n)) [0..<nat n] @ [py_round 2 (D - 5 / 100)]
      in (tms, map (\<lambda>t. ''t='' @ fmt_g t @ ''s'') (butlast tms) @ [''t='' @ fmt_g (last tms) @ ''s (seam, ~t=0)'']))"

definition frame_times :: "string \<Rightarrow> string option \<Rightarrow> int \<Rightarrow> (rat list \<times> string list) res" where
  "frame_times svg at_arg n =
     (case re_search dur_pat svg of None \<Rightarrow> Inl SystemExit
      | Some d \<Rightarrow> rbind (read_float (group 1 d)) (\<lambda>D.
          case at_arg of Some a \<Rightarrow> if a \<noteq> [] then at_times a else Inr (spaced_times D n)
          | None \<Rightarrow> Inr (spaced_times D n)))"

text \<open>The two sheets that \<open>main\<close> makes, light first.\<close>

definition frame_sheets :: "string \<Rightarrow> string option \<Rightarrow> int \<Rightarrow> int \<Rightarrow> int \<Rightarrow> (string \<times> page) list res" where
  "frame_sheets svg at_arg n cols width =
     rbind (frame_times svg at_arg n) (\<lambda>(tms, labels).
     rmap (\<lambda>theme. rbind (sheet_page svg tms labels (theme = ''dark'') cols width) (\<lambda>p. Inr (theme, p)))
       [''light'', ''dark''])"

section \<open>The sheet holds its frames\<close>

lemma length_b64encode: "length (b64encode s) = 4 * ((length s + 2) div 3)"
proof (induction s rule: b64encode.induct)
  case (4 a b c s)
  have "(length (a # b # c # s) + 2) div 3 = Suc ((length s + 2) div 3)"
    using div_add_self2 [of 3 "length s + 2"] by (simp add: add.commute add.left_commute)
  with 4 show ?case by (simp add: Let_def)
qed (simp_all add: Let_def)

lemma length_spaced_times:
  "length (fst (spaced_times D n)) = nat n + 1" "length (snd (spaced_times D n)) = nat n + 1"
  by (simp_all add: spaced_times_def Let_def)

text \<open>The rows are the fewest that hold every frame.\<close>

lemma sheet_rows_fit:
  assumes "0 < cols"
  shows "int n \<le> - ((- int n) div cols) * cols" "(- ((- int n) div cols) - 1) * cols < int n"
proof -
  define q r where "q = (- int n) div cols" and "r = (- int n) mod cols"
  have "q * cols + r = - int n" unfolding q_def r_def by (rule div_mult_mod_eq)
  moreover have "0 \<le> r" "r < cols" using assms by (simp_all add: r_def)
  ultimately have "int n \<le> - q * cols" "(- q - 1) * cols < int n" by (simp_all add: algebra_simps)
  then show "int n \<le> - ((- int n) div cols) * cols" "(- ((- int n) div cols) - 1) * cols < int n"
    by (simp_all add: q_def)
qed

lemma sheet_page_frames:
  assumes "sheet_page svg tms labels dark cols width = Inr p" and "0 < cols"
  shows "\<exists>n_rows cell_h. pg_W p = 16 + cols * (width + 16) \<and> pg_H p = 16 + n_rows * (cell_h + 38)
    \<and> int (length tms) \<le> n_rows * cols \<and> (n_rows - 1) * cols < int (length tms)"
proof -
  obtain w h where "view_size svg = Inr (w, h)" using assms(1) by (auto simp: sheet_page_def)
  with assms(1) have "pg_W p = 16 + cols * (width + 16)"
    "pg_H p = 16 + - ((- int (length tms)) div cols) * (round_half_even (of_int width * h / w) + 38)"
    by (auto simp: sheet_page_def Let_def algebra_simps split: if_splits)
  with sheet_rows_fit [OF assms(2), of "length tms"] show ?thesis by blast
qed

end
