(* ===== verification/Spec2Isabelle.thy ===== *)
theory Spec2Isabelle
  imports Timeline Walks Heapq Pool Dead_Claims Dead_Run Wake_Facts Close_Jobs Close_Claims
    Close_Release Close_Run Ack_Claims Pictures Motion_Tracks Self_Check Frames
begin

text \<open>
  \<^bold>\<open>What this development verifies.\<close> The repository is a Redis-backed job queue (Go) whose
  documentation is animated: the programs in \<open>src/assets/diagrams/gen\<close> (Python) \<^emph>\<open>simulate\<close> the
  queue's own rules (pop, acknowledge, deadline, sweep, presence check, wake-up, nudge, close) in
  an event loop, assert the storyboard's facts on the result, and turn it into CSS keyframes. These
  simulations are the executable statement of how the queue behaves, and this development models
  them: the rules, the event loops, the assertions, and the keyframe builders underneath.

  \<^bold>\<open>Conventions\<close> (\<open>Prelude\<close>, \<open>PyNum\<close>). A Python exception is an \<open>Inl\<close> of type \<open>pyexn\<close>: every \<open>assert\<close>,
  missing key, index out of range, empty \<open>max\<close>/\<open>next\<close>/\<open>index\<close> and division by zero is a branch. A dict is
  a list of pairs in insertion order (\<open>dget\<close>, \<open>dset\<close>, \<open>ddel\<close>), an int is \<open>int\<close> or \<open>nat\<close>, a float is an
  exact \<open>rat\<close>; \<open>round\<close> (half to even) and the format codes are modelled, binary rounding of floats is
  not. Closures over local variables become operations on a record of these variables; sets that the
  code never iterates in set order are sets, and where SPOP picks at random the picks are an argument.

  \<^bold>\<open>Parts and theories.\<close>
  \<^item> Keyframes of \<open>kfu.py\<close>: \<open>Keyframes\<close> has the module's globals as the record \<open>kfu\<close> and \<open>kf\<close>, \<open>padded\<close>,
    \<open>pct\<close>, \<open>css\<close>, \<open>merge\<close>, \<open>flash\<close>, \<open>tr\<close>, \<open>at\<close> (\<open>at_pt\<close>), \<open>ring\<close>, \<open>bar\<close>, \<open>states\<close>; \<open>Timeline\<close> shows that padded
    rules span the loop, that \<open>merge\<close> and \<open>flash\<close> are right, that pulses keep their gap, that \<open>bar\<close> fails
    exactly on overlaps, that exactly one element of \<open>states\<close> shows, and that a printed percentage
    reads back. \<open>Walks\<close> has the class \<open>Path\<close> and the generators' \<open>walk\<close>, \<open>plen\<close>, \<open>travel\<close>: the keyframes of a
    path show the stops of a dot that moves at constant speed, and a walk arrives when it should.
  \<^item> The class \<open>Pool\<close> of \<open>kfu.py\<close>: \<open>Pool\<close>. The locale \<open>allocator\<close> is the contract of handing out numbered
    places, each request and release with data of its own; the pool interprets it, and no worker is
    handed out twice, whatever the times and whichever workers are kept or retired.
  \<^item> The event queue all simulations share: \<open>Heapq\<close>. The locale \<open>event_queue\<close> is the contract of
    \<open>heapq\<close> with \<open>(time, number)\<close> keys; \<open>run_events\<close> is the loop, on fuel, with its invariant rule and
    fuel monotonicity.
  \<^item> Dead consumer, \<open>gen_dead.py\<close>: \<open>Dead_Redis\<close> is the class \<open>Redis\<close> (list, pending, deadlines, heartbeats,
    presence marks, idle set), \<open>Dead_Jobs\<close> its well-formedness and what each operation keeps,
    \<open>Dead_Sweep\<close> the declarative specification of the sweep and the refinement of the loops to it,
    \<open>Dead_Story\<close> the loss of a consumer over time, \<open>Dead_Claims\<close> the properties; \<open>Dead_Sim\<close> is \<open>simulate\<close>,
    \<open>Dead_Facts\<close> the function \<open>facts\<close> and the time map, \<open>Dead_Run\<close> their properties.
  \<^item> Wake-up, \<open>gen_wake.py\<close>: \<open>Wake_Sim\<close> is \<open>simulate\<close> with its closures \<open>member\<close>, \<open>pull\<close>, \<open>signal\<close>; \<open>Wake_Inv\<close>
    the invariant, \<open>Wake_Facts\<close> the checks of \<open>build\<close> and the properties.
  \<^item> Close, \<open>gen_close.py\<close>: \<open>Close_Sim\<close> is the class \<open>Sim\<close>, one operation per method; \<open>Close_Inv\<close> and
    \<open>Close_Jobs\<close> the abstract queue (\<open>jmove\<close>), the refinement of every event to it, and the jobs;
    \<open>Close_Slots\<close> the worker slots; \<open>Close_Claims\<close> capacity (over the states \<open>close_reach\<close> reaches), life
    after \<open>Close\<close> and the wake;
    \<open>Close_Release\<close> the release against the pops; \<open>Close_Facts\<close> and \<open>Close_Run\<close> the checks of \<open>build\<close> on
    the drawn scenario.
  \<^item> Acknowledgement, \<open>gen_ack.py\<close>: \<open>Ack_Story\<close> is the whole of \<open>build\<close> (enqueues, \<open>pop\<close>, the sweep, the
    checks, the keyframes), \<open>Ack_Claims\<close> its properties, proved on the explicit states of the story.
  \<^item> Rendering, \<open>legend\<close>, \<open>fill\<close> and \<open>render\<close> of \<open>kfu.py\<close>: \<open>Svg\<close>, on byte strings with the files as a
    parameter; \<open>Svg_Claims\<close> says what \<open>str.replace\<close> does and when \<open>render\<close> writes what.
  \<^item> The drawing halves of the three other \<open>build\<close> functions: \<open>Draw\<close> has what they share (markup, the
    seam check), \<open>Close_Draw\<close>, \<open>Wake_Draw\<close> and \<open>Dead_Draw\<close> are the code, every helper, track, caption and
    assertion of it, up to the text of the written file. \<open>Draw_Store\<close> has the locale \<open>painter\<close>, the
    contract of a relation that every keyframe builder keeps; each generator's drawing is proved to
    keep it once, in \<open>Close_Picture\<close>, \<open>Wake_Picture\<close> and \<open>Dead_Picture\<close>, and it is interpreted with
    \<open>extends\<close> (a store that only grows, by tracks in time order). These theories also have the pulse
    train that closes over the loop, the wake-up picture that passes every assertion, and the texts
    that never meet in the cross-fade; \<open>Pictures\<close> the typing of every written picture.
  \<^item> \<open>Consumers\<close> names the two consumers of the last two stories. \<open>Job_Store\<close> is the contract that the
    Redis model and the close simulation share: a step only moves jobs, takes some in and finishes
    some; no run loses or doubles one. Both interpret it. \<open>pull_loop\<close> and its extension \<open>nudge_loop\<close>
    (in \<open>Close_Inv\<close>) are the contracts of a property that varmq's pull loop and the nudge keep; the
    jobs, the slots and the closed consumer interpret them.

  \<^item> The motion exporter, \<open>motion_json\<close> and \<open>write_motion\<close> of \<open>kfu.py\<close>: \<open>Regex\<close> is Python's \<open>re\<close> (a
    backtracking matcher on greedy and lazy patterns, \<open>search\<close>, \<open>finditer\<close>, \<open>sub\<close>) with a calculus for
    following the preferred way, \<open>Motion\<close> the exporter with its patterns, down to the JSON text.
    \<open>Motion_Read\<close> reads one declaration and specifies the values of a property (\<open>coalesce\<close>),
    \<open>Motion_Text\<close> the keyframes of a rule and the rules of a stylesheet, \<open>Motion_Claims\<close> shows that a
    written picture is read back, \<open>Motion_Names\<close> and \<open>Motion_Tracks\<close> that each rule becomes a track.
  \<^item> The program parts of \<open>kfu.py\<close> and \<open>frames.py\<close>: \<open>Self_Check\<close> is the module's self-check on the model, and
    that it passes; \<open>Frames\<close> the frozen frames, the page of a contact sheet and its times.

  \<^bold>\<open>How the model corresponds to the code.\<close> Names are the source's, with a suffix where two generators
  use the same name (\<open>_wake\<close>, \<open>_close\<close>) or HOL has it already. A method that mutates \<open>self\<close> takes and
  returns the record; its \<open>return\<close> value comes first in a pair. Loops are recursions on the list they run
  over, or on a measure (the wake loop: members left in \<open>:idle\<close>; the pull loop: the queued signal).
  Log texts are kept as data (\<open>close_msg\<close>, \<open>sweep_note\<close>), not as formatted strings.

  \<^bold>\<open>The model against the committed pictures.\<close> The definitions are executable down to the written text.
  Run on the repository's own templates, \<open>render_ack\<close> and \<open>build_wake\<close> give \<open>redisq-ack.svg\<close> and
  \<open>redisq-wake.svg\<close> byte for byte; \<open>build_close\<close> and \<open>build_dead_all\<close> give \<open>redisq-close.svg\<close> and
  \<open>redisq-dead.svg\<close> but for four numbers whose last printed digit depends on the rounding of binary
  floats, which is not modelled. On the four committed pictures \<open>motion_json\<close> gives valid JSON, printed as
  \<open>json.dumps\<close> prints it, whose frames, easings and static picture are those that the patterns find
  when Python's \<open>re\<close> runs them.

  \<^bold>\<open>Bounds and fuel.\<close> \<open>run_events\<close> takes the number of events it may handle and gives \<open>None\<close> when they do
  not suffice. The invariants hold for any fuel. For the drawn scenarios enough fuel is shown:
  200 events for each row of the dead-consumer story, 60 for the wake-up and 60 for the close story
  (they end because the heap runs empty or the horizon is passed), and by fuel monotonicity any
  more fuel gives the same end.

  \<^bold>\<open>Not modelled.\<close> The printed tables and command lines of the main blocks, what \<open>frames.py\<close> does to run a
  browser, and the Go packages, whose rules enter only as far as the simulations
  restate them. In \<open>Svg\<close> and \<open>Regex\<close> only ASCII characters count as white space or word characters, where Python also
  has others; the templates contain none of these next to a place where it matters.
\<close>

end
